(* ===== verification/Prelude.thy ===== *)
theory Prelude
  imports Main "HOL-Library.Word" "HOL-Library.Char_ord" "HOL-Library.List_Lexorder"
begin

text \<open>
  Shared ground of the development: the names of the machine types the sources use, the
  parts of the C++ string library the sources call (\<open>find_first_of\<close>, \<open>find_last_of\<close>,
  \<open>substr\<close>, \<open>isspace\<close>), and the generic facts on lists and words that several
  components need. A \<open>std::string\<close> is a HOL string (a list of 8-bit characters), a
  position that may be \<open>npos\<close> is a \<open>nat option\<close>.
\<close>

section \<open>Names of types, collections of facts\<close>

type_synonym u32 = "32 word"

named_theorems pool_defs \<open>what the evaluation of a concrete pool of workers unfolds\<close>

abbreviation CR :: char where "CR \<equiv> CHR 0x0D"

abbreviation LF :: char where "LF \<equiv> CHR 0x0A"

abbreviation CRLF :: string where "CRLF \<equiv> [CR, LF]"

section \<open>Lists\<close>

lemma takeWhile_append_stop: "\<forall>x\<in>set xs. P x \<Longrightarrow> \<not> P y \<Longrightarrow> takeWhile P (xs @ y # ys) = xs"
  by (induction xs) auto

lemma dropWhile_append_stop: "\<forall>x\<in>set xs. P x \<Longrightarrow> \<not> P y \<Longrightarrow> dropWhile P (xs @ y # ys) = y # ys"
  by (induction xs) auto

lemma takeWhile_all: "\<forall>x\<in>set xs. P x \<Longrightarrow> takeWhile P xs = xs"
  by simp

lemma dropWhile_id: "xs = [] \<or> \<not> P (hd xs) \<Longrightarrow> dropWhile P xs = xs"
  by (cases xs) auto

lemma foldl_append_concat: "foldl (@) acc xss = acc @ concat xss"
  by (induction xss arbitrary: acc) auto

section \<open>std::string\<close>

text \<open>The index of the first element that satisfies a predicate, counted from \<open>i\<close>.\<close>

fun index_from :: "('a \<Rightarrow> bool) \<Rightarrow> nat \<Rightarrow> 'a list \<Rightarrow> nat option" where
  "index_from P i [] = None"
| "index_from P i (x # xs) = (if P x then Some i else index_from P (Suc i) xs)"

text \<open>\<open>str.find_first_of( chars, pos )\<close> and \<open>str.find_last_of( c )\<close>; None is \<open>npos\<close>.\<close>

definition find_first_of :: "string \<Rightarrow> string \<Rightarrow> nat \<Rightarrow> nat option" where
  "find_first_of s d pos = index_from (\<lambda>c. c \<in> set d) pos (drop pos s)"

definition find_last_of :: "string \<Rightarrow> char \<Rightarrow> nat option" where
  "find_last_of s c =
     map_option (\<lambda>i. length s - Suc i) (index_from (\<lambda>x. x = c) 0 (rev s))"

text \<open>
  \<open>str.substr( pos, n )\<close> for \<open>pos \<le> str.size()\<close>; the length is clipped at the end of
  the string, so \<open>npos\<close> as a length (None) means "to the end".
\<close>

definition substr :: "string \<Rightarrow> nat \<Rightarrow> nat option \<Rightarrow> string" where
  "substr s pos n = (case n of None \<Rightarrow> drop pos s | Some k \<Rightarrow> take k (drop pos s))"

text \<open>\<open>std::isspace\<close> in the C locale: space, \<open>\t \n \v \f \r\<close>.\<close>

definition is_space :: "char \<Rightarrow> bool" where
  "is_space c \<longleftrightarrow> c \<in> {CHR '' '', CHR 0x09, CHR 0x0A, CHR 0x0B, CHR 0x0C, CHR 0x0D}"

lemma index_from_None: "index_from P i xs = None \<longleftrightarrow> (\<forall>x\<in>set xs. \<not> P x)"
  by (induction xs arbitrary: i) auto

lemma index_from_takeWhile:
  "index_from P i xs =
     (if \<exists>x\<in>set xs. P x then Some (i + length (takeWhile (\<lambda>x. \<not> P x) xs)) else None)"
  by (induction xs arbitrary: i) auto

lemma length_takeWhile_less: "\<exists>x\<in>set xs. \<not> P x \<Longrightarrow> length (takeWhile P xs) < length xs"
  by (induction xs) auto

lemma find_first_of_bounds:
  assumes "find_first_of s d pos = Some i"
  shows "pos \<le> i" and "i < length s"
proof -
  from assms have ex: "\<exists>x\<in>set (drop pos s). x \<in> set d"
    and i: "i = pos + length (takeWhile (\<lambda>x. x \<notin> set d) (drop pos s))"
    by (auto simp: find_first_of_def index_from_takeWhile split: if_splits)
  from length_takeWhile_less [of "drop pos s" "\<lambda>x. x \<notin> set d"] ex
  have "length (takeWhile (\<lambda>x. x \<notin> set d) (drop pos s)) < length s - pos"
    by auto
  then show "pos \<le> i" and "i < length s"
    using i by linarith+
qed

section \<open>Words\<close>

lemma unat_of_nat_small: "n < 2 ^ 32 \<Longrightarrow> unat (of_nat n :: u32) = n"
  by (simp add: unat_of_nat take_bit_nat_eq_self)

lemma sint_of_nat_small:
  assumes "n < 2 ^ 31"
  shows "sint (of_nat n :: u32) = int n"
proof -
  have "sint (word_of_int (int n) :: u32) = signed_take_bit 31 (int n)"
    by (simp only: sint_sbintrunc') simp
  also have "\<dots> = int n"
    using assms by (simp add: signed_take_bit_int_eq_self)
  finally show ?thesis by simp
qed

lemma unat_dec: "(m :: u32) \<noteq> 0 \<Longrightarrow> unat (m - 1) = unat m - 1"
  by (metis unat_minus_one)

end
