(* ===== verification/Manager.thy ===== *)
theory Manager
  imports Prelude
begin

text \<open>
  \<open>bitz::Manager\<close> (\<open>src/bitz/manager.cpp\<close>, \<open>manager.h\<close>): the pool of worker processes. \<open>fork\<close>
  is the system's and an argument; a function that runs on in the child ends there, since the
  child leaves by \<open>_exit\<close>. The signals sent by \<open>shutdown\<close> are its value.
\<close>

section \<open>State\<close>

text \<open>\<open>wp_worker\<close> tells whether the entry holds a worker object (only in a child).\<close>

record worker_pool_t =
  wp_pid :: int
  wp_id :: u32
  wp_worker :: bool

record manager_t =
  mg_worker :: bool
  mg_max_workers :: u32
  mg_max_worker_requests :: u32
  mg_comm_timeout :: u32
  mg_workers_count :: u32
  mg_worker_id :: u32
  mg_pool :: "worker_pool_t list"

text \<open>
  The message of an exception (\<open>src/bitz/exception.cpp\<close>), with the text of \<open>errno\<close> where it is
  asked for, and the two exceptions the manager raises.
\<close>

definition exception_message :: "string \<Rightarrow> bool \<Rightarrow> string \<Rightarrow> string" where
  "exception_message message incl_system_message system_message =
     (if incl_system_message then message @ '' : '' @ system_message else message)"

definition socket_failure :: "string \<Rightarrow> string" where
  "socket_failure reason = exception_message (''failed to initialise socket, '' @ reason) False []"

definition worker_failure :: "string \<Rightarrow> string" where
  "worker_failure system_message = exception_message ''failed to create worker'' True system_message"

text \<open>The constructor; the argument is whether the listening socket could be set up.\<close>

definition new_manager :: "bool \<Rightarrow> manager_t option" where
  "new_manager listening =
     (if listening
      then Some \<lparr>mg_worker = False, mg_max_workers = 0, mg_max_worker_requests = 0,
        mg_comm_timeout = 0, mg_workers_count = 0, mg_worker_id = 0, mg_pool = []\<rparr>
      else None)"

section \<open>Spawning\<close>

datatype fork_result = Fork_error | Fork_child | Fork_parent int

datatype spawn_result = Spawned manager_t | Spawn_error | In_child manager_t

definition spawn_worker :: "u32 \<Rightarrow> fork_result \<Rightarrow> manager_t \<Rightarrow> spawn_result" where
  "spawn_worker worker_id r m =
     (case r of
        Fork_error \<Rightarrow> Spawn_error
      | Fork_child \<Rightarrow>
          In_child (m\<lparr>mg_worker := True, mg_worker_id := worker_id,
            mg_pool := (mg_pool m)[unat worker_id :=
              \<lparr>wp_pid = 0, wp_id = worker_id, wp_worker = True\<rparr>]\<rparr>)
      | Fork_parent worker_pid \<Rightarrow>
          Spawned (m\<lparr>mg_workers_count := mg_workers_count m + 1, mg_worker := False,
            mg_pool := (mg_pool m)[unat worker_id :=
              \<lparr>wp_pid = worker_pid, wp_id = worker_id, wp_worker = False\<rparr>]\<rparr>))"

text \<open>How a pass over the pool ends: in the manager, in a new child, or by the exception.\<close>

datatype 'w pass = Manager_at manager_t 'w | Child_at manager_t 'w | Raised_at manager_t 'w

fun spawn_loop :: "('w \<Rightarrow> fork_result \<times> 'w) \<Rightarrow> u32 list \<Rightarrow> manager_t \<Rightarrow> 'w \<Rightarrow> 'w pass" where
  "spawn_loop fork [] m w = Manager_at m w"
| "spawn_loop fork (i # is) m w =
     (case fork w of
        (r, w') \<Rightarrow>
          case spawn_worker i r m of
            Spawn_error \<Rightarrow> Raised_at m w'
          | In_child c \<Rightarrow> Child_at c w'
          | Spawned m' \<Rightarrow> spawn_loop fork is m' w')"

definition worker_ids :: "u32 \<Rightarrow> u32 list" where
  "worker_ids max_workers = map of_nat [0..<unat max_workers]"

text \<open>\<open>spawn\<close>; \<open>junk\<close> is what \<open>new worker_pool_t[ max_workers ]\<close> leaves in the entries.\<close>

definition spawn :: "('w \<Rightarrow> fork_result \<times> 'w) \<Rightarrow> (nat \<Rightarrow> worker_pool_t) \<Rightarrow> u32 \<Rightarrow> u32 \<Rightarrow> u32 \<Rightarrow>
    manager_t \<Rightarrow> 'w \<Rightarrow> 'w pass" where
  "spawn fork junk max_workers max_worker_requests comm_timeout m w =
     (let m = m\<lparr>mg_max_workers := max_workers, mg_max_worker_requests := max_worker_requests,
                mg_comm_timeout := comm_timeout, mg_pool := map junk [0..<unat max_workers]\<rparr>
      in if \<not> mg_worker m then spawn_loop fork (worker_ids max_workers) m w else Manager_at m w)"

section \<open>Shutting down and reaping\<close>

datatype action = Kill_term int | Kill_kill int | Delete_worker nat

definition shutdown :: "bool \<Rightarrow> manager_t \<Rightarrow> action list" where
  "shutdown graceful m =
     (if mg_worker m then [Delete_worker (unat (mg_worker_id m))]
      else map (\<lambda>e. if graceful then Kill_term (wp_pid e) else Kill_kill (wp_pid e))
             (filter (\<lambda>e. wp_pid e \<noteq> 0) (take (unat (mg_max_workers m)) (mg_pool m))))"

fun reap_loop :: "int \<Rightarrow> worker_pool_t list \<Rightarrow> bool \<times> worker_pool_t list" where
  "reap_loop worker_pid [] = (False, [])"
| "reap_loop worker_pid (e # es) =
     (if wp_pid e = worker_pid then (True, e\<lparr>wp_pid := 0\<rparr> # es)
      else (case reap_loop worker_pid es of (found, es') \<Rightarrow> (found, e # es')))"

definition reap_worker :: "int \<Rightarrow> manager_t \<Rightarrow> manager_t" where
  "reap_worker worker_pid m =
     (if mg_worker m then m
      else case reap_loop worker_pid (mg_pool m) of
        (found, pool) \<Rightarrow>
          if found then m\<lparr>mg_pool := pool, mg_workers_count := mg_workers_count m - 1\<rparr> else m)"

section \<open>Replacing workers\<close>

text \<open>One run of the inner loop of \<open>manage_workers\<close>: a fork that fails is only logged.\<close>

fun respawn :: "('w \<Rightarrow> fork_result \<times> 'w) \<Rightarrow> u32 list \<Rightarrow> manager_t \<Rightarrow> 'w \<Rightarrow> 'w pass" where
  "respawn fork [] m w = Manager_at m w"
| "respawn fork (i # is) m w =
     (if wp_pid (mg_pool m ! unat i) = 0 then
        (case fork w of
           (r, w') \<Rightarrow>
             case spawn_worker i r m of
               Spawn_error \<Rightarrow> respawn fork is m w'
             | In_child c \<Rightarrow> Child_at c w'
             | Spawned m' \<Rightarrow> respawn fork is m' w')
      else respawn fork is m w)"

text \<open>\<open>manage_workers\<close>: None is the run that does not return.\<close>

partial_function (option) manage_loop ::
  "('w \<Rightarrow> fork_result \<times> 'w) \<Rightarrow> manager_t \<Rightarrow> 'w \<Rightarrow> 'w pass option" where
  "manage_loop fork m w =
     (if mg_workers_count m = mg_max_workers m then Some (Manager_at m w)
      else case respawn fork (worker_ids (mg_max_workers m)) m w of
             Manager_at m' w' \<Rightarrow> manage_loop fork m' w'
           | Child_at c w' \<Rightarrow> Some (Child_at c w')
           | Raised_at m' w' \<Rightarrow> Some (Raised_at m' w'))"

definition manage_workers :: "('w \<Rightarrow> fork_result \<times> 'w) \<Rightarrow> manager_t \<Rightarrow> 'w \<Rightarrow> 'w pass option" where
  "manage_workers fork m w = (if \<not> mg_worker m then manage_loop fork m w else Some (Manager_at m w))"

section \<open>The pool and its count\<close>

definition filled :: "worker_pool_t list \<Rightarrow> nat" where
  "filled pool = length (filter (\<lambda>e. wp_pid e \<noteq> 0) pool)"

definition pool_ok :: "manager_t \<Rightarrow> bool" where
  "pool_ok m \<longleftrightarrow> \<not> mg_worker m \<and> length (mg_pool m) = unat (mg_max_workers m) \<and>
     unat (mg_workers_count m) = filled (mg_pool m)"

lemma filled_le: "filled pool \<le> length pool"
  by (simp add: filled_def)

lemma filled_update:
  assumes "i < length pool" and "wp_pid (pool ! i) = 0" and "wp_pid e \<noteq> 0"
  shows "filled (pool[i := e]) = Suc (filled pool)"
proof -
  have p: "pool = take i pool @ pool ! i # drop (Suc i) pool" using assms(1) by (rule id_take_nth_drop)
  have "filled (pool[i := e]) = filled (take i pool @ e # drop (Suc i) pool)"
    using assms(1) by (simp add: upd_conv_take_nth_drop)
  also have "\<dots> = Suc (filled (take i pool @ pool ! i # drop (Suc i) pool))"
    using assms(2,3) by (simp add: filled_def)
  finally show ?thesis using p by simp
qed

lemma filled_all: "filled pool = length pool \<longleftrightarrow> (\<forall>e\<in>set pool. wp_pid e \<noteq> 0)"
proof (induction pool)
  case (Cons e pool)
  have "filled (e # pool) = (if wp_pid e = 0 then 0 else 1) + filled pool" by (simp add: filled_def)
  with Cons filled_le [of pool] show ?case by auto
qed (simp add: filled_def)

lemma spawn_worker_pool:
  assumes "pool_ok m" and "unat i < unat (mg_max_workers m)" and "wp_pid (mg_pool m ! unat i) = 0"
    and "p \<noteq> 0" and "spawn_worker i (Fork_parent p) m = Spawned m'"
  shows "pool_ok m'" and "filled (mg_pool m') = Suc (filled (mg_pool m))"
    and "mg_max_workers m' = mg_max_workers m"
    and "mg_pool m' = (mg_pool m)[unat i := \<lparr>wp_pid = p, wp_id = i, wp_worker = False\<rparr>]"
proof -
  let ?e = "\<lparr>wp_pid = p, wp_id = i, wp_worker = False\<rparr>"
  have m': "m' = m\<lparr>mg_workers_count := mg_workers_count m + 1, mg_worker := False,
      mg_pool := (mg_pool m)[unat i := ?e]\<rparr>"
    using assms(5) by (simp add: spawn_worker_def)
  have i: "unat i < length (mg_pool m)" using assms(1,2) by (simp add: pool_ok_def)
  have f: "filled ((mg_pool m)[unat i := ?e]) = Suc (filled (mg_pool m))"
    using filled_update [OF i assms(3), of ?e] assms(4) by simp
  then show "filled (mg_pool m') = Suc (filled (mg_pool m))" using m' by simp
  have "Suc (filled (mg_pool m)) \<le> length (mg_pool m)"
    using f filled_le [of "(mg_pool m)[unat i := ?e]"] by simp
  then have "unat (mg_workers_count m) + 1 < 2 ^ 32"
    using assms(1) unsigned_less [where 'a = nat and w = "mg_max_workers m"] by (simp add: pool_ok_def)
  then have "unat (mg_workers_count m + 1) = unat (mg_workers_count m) + 1"
    by (simp add: unat_word_ariths)
  then show "pool_ok m'" using assms(1) f m' by (simp add: pool_ok_def)
  show "mg_max_workers m' = mg_max_workers m" "mg_pool m' = (mg_pool m)[unat i := ?e]"
    using m' by simp_all
qed

lemma reap_loop_pool:
  assumes "reap_loop p pool = (found, pool')" and "p \<noteq> 0"
  shows "length pool' = length pool" and "found \<longleftrightarrow> p \<in> wp_pid ` set pool"
    and "filled pool = filled pool' + (if found then 1 else 0)"
    and "\<not> found \<Longrightarrow> pool' = pool"
proof -
  have "length pool' = length pool \<and> (found \<longleftrightarrow> p \<in> wp_pid ` set pool) \<and>
    filled pool = filled pool' + (if found then 1 else 0) \<and> (\<not> found \<longrightarrow> pool' = pool)"
    using assms
  proof (induction pool arbitrary: found pool')
    case (Cons e es)
    obtain f es' where r: "reap_loop p es = (f, es')" by fastforce
    note IH = Cons.IH [OF r Cons.prems(2)]
    show ?case
    proof (cases "wp_pid e = p")
      case True
      then have "found" "pool' = e\<lparr>wp_pid := 0\<rparr> # es" using Cons.prems(1) by auto
      with True Cons.prems(2) show ?thesis by (simp add: filled_def)
    next
      case False
      then have "found = f" "pool' = e # es'" using Cons.prems(1) r by auto
      moreover have fe: "filled (e # xs) = (if wp_pid e = 0 then 0 else 1) + filled xs" for xs
        by (simp add: filled_def)
      moreover have "\<not> f \<Longrightarrow> es' = es" "f \<longleftrightarrow> p \<in> wp_pid ` set es" "length es' = length es"
          "f \<Longrightarrow> filled es = Suc (filled es')"
        using IH by auto
      ultimately show ?thesis using False by (cases f) auto
    qed
  qed (simp add: filled_def)
  then show "length pool' = length pool" "found \<longleftrightarrow> p \<in> wp_pid ` set pool"
    "filled pool = filled pool' + (if found then 1 else 0)" "\<not> found \<Longrightarrow> pool' = pool" by auto
qed

lemma reap_worker_pool:
  assumes "pool_ok m" and "p \<noteq> 0"
  shows "pool_ok (reap_worker p m)" and "mg_max_workers (reap_worker p m) = mg_max_workers m"
proof -
  obtain found pool where r: "reap_loop p (mg_pool m) = (found, pool)" by fastforce
  note rl = reap_loop_pool [OF r assms(2)]
  show "pool_ok (reap_worker p m)"
  proof (cases found)
    case True
    then have "unat (mg_workers_count m) = Suc (filled pool)" using rl(3) assms(1) by (simp add: pool_ok_def)
    moreover then have "mg_workers_count m \<noteq> 0" by auto
    moreover have "filled (mg_pool m) = Suc (filled pool)" using rl(3) True by simp
    ultimately show ?thesis
      using True r rl(1) assms(1) unat_dec [of "mg_workers_count m"]
      by (simp add: reap_worker_def pool_ok_def)
  next
    case False
    with r assms(1) show ?thesis by (simp add: reap_worker_def)
  qed
  show "mg_max_workers (reap_worker p m) = mg_max_workers m"
    using r by (simp add: reap_worker_def)
qed

text \<open>What the system guarantees of \<open>fork\<close>: a child's process id is positive.\<close>

definition forks_ok :: "('w \<Rightarrow> fork_result \<times> 'w) \<Rightarrow> bool" where
  "forks_ok fork \<longleftrightarrow> (\<forall>w p w'. fork w = (Fork_parent p, w') \<longrightarrow> 0 < p)"

definition ids_of :: "manager_t \<Rightarrow> u32 list \<Rightarrow> bool" where
  "ids_of m is \<longleftrightarrow> (\<forall>i\<in>set is. unat i < unat (mg_max_workers m))"

lemma worker_ids_ok: "ids_of m (worker_ids (mg_max_workers m))"
proof -
  have "unat (of_nat n :: u32) = n" if "n < unat (mg_max_workers m)" for n
    using that unsigned_less [where 'a = nat and w = "mg_max_workers m"]
    by (intro unat_of_nat_small) simp
  then show ?thesis by (simp add: ids_of_def worker_ids_def)
qed

lemma respawn_pool:
  assumes "forks_ok fork" and "pool_ok m" and "ids_of m is" and "respawn fork is m w = Manager_at m' w'"
  shows "pool_ok m' \<and> mg_max_workers m' = mg_max_workers m \<and> filled (mg_pool m) \<le> filled (mg_pool m')"
  using assms(2-)
proof (induction "is" arbitrary: m w)
  case (Cons i "is")
  have i: "unat i < unat (mg_max_workers m)" "ids_of m is" using Cons.prems(2) by (auto simp: ids_of_def)
  obtain r w1 where f: "fork w = (r, w1)" by fastforce
  show ?case
  proof (cases "wp_pid (mg_pool m ! unat i) = 0")
    case False
    with Cons i show ?thesis by simp
  next
    case zero: True
    show ?thesis
    proof (cases r)
      case Fork_error
      with Cons i f zero show ?thesis by (simp add: spawn_worker_def)
    next
      case Fork_child
      with Cons.prems(3) f zero show ?thesis by (simp add: spawn_worker_def)
    next
      case (Fork_parent p)
      then have "0 < p" using assms(1) f by (auto simp: forks_ok_def)
      obtain m1 where m1: "spawn_worker i (Fork_parent p) m = Spawned m1" by (simp add: spawn_worker_def)
      note sp = spawn_worker_pool [OF Cons.prems(1) i(1) zero _ m1]
      have "respawn fork is m1 w1 = Manager_at m' w'"
        using Cons.prems(3) f zero Fork_parent m1 by simp
      moreover have "pool_ok m1" "ids_of m1 is" using sp \<open>0 < p\<close> i(2) by (auto simp: ids_of_def)
      ultimately show ?thesis using Cons.IH [of m1 w1] sp \<open>0 < p\<close> by simp
    qed
  qed
qed simp

lemma manage_loop_returns:
  assumes "manage_loop fork m w = Some (Manager_at m' w')" and "forks_ok fork" and "pool_ok m"
  shows "pool_ok m' \<and> mg_workers_count m' = mg_max_workers m' \<and> mg_max_workers m' = mg_max_workers m"
proof -
  have "\<forall>m' w'. r = Manager_at m' w' \<longrightarrow> forks_ok fork \<longrightarrow> pool_ok m \<longrightarrow>
      pool_ok m' \<and> mg_workers_count m' = mg_max_workers m' \<and> mg_max_workers m' = mg_max_workers m"
    if "manage_loop fork m w = Some r" for r
  proof (rule manage_loop.raw_induct [OF _ that])
    fix f and fork :: "'a \<Rightarrow> fork_result \<times> 'a" and m w and r :: "'a pass"
    assume IH: "\<And>fork m w r. f fork m w = Some r \<Longrightarrow>
        \<forall>m' w'. r = Manager_at m' w' \<longrightarrow> forks_ok fork \<longrightarrow> pool_ok m \<longrightarrow>
        pool_ok m' \<and> mg_workers_count m' = mg_max_workers m' \<and> mg_max_workers m' = mg_max_workers m"
      and body: "(if mg_workers_count m = mg_max_workers m then Some (Manager_at m w)
        else case respawn fork (worker_ids (mg_max_workers m)) m w of
          Manager_at m' w' \<Rightarrow> f fork m' w' | Child_at c w' \<Rightarrow> Some (Child_at c w')
        | Raised_at m' w' \<Rightarrow> Some (Raised_at m' w')) = Some r"
    show "\<forall>m' w'. r = Manager_at m' w' \<longrightarrow> forks_ok fork \<longrightarrow> pool_ok m \<longrightarrow>
        pool_ok m' \<and> mg_workers_count m' = mg_max_workers m' \<and> mg_max_workers m' = mg_max_workers m"
    proof (intro allI impI)
      fix m' w'
      assume r: "r = Manager_at m' w'" and ok: "forks_ok fork" "pool_ok m"
      show "pool_ok m' \<and> mg_workers_count m' = mg_max_workers m' \<and> mg_max_workers m' = mg_max_workers m"
      proof (cases "mg_workers_count m = mg_max_workers m")
        case True
        with body r ok show ?thesis by simp
      next
        case False
        with body r obtain m1 w1 where rs: "respawn fork (worker_ids (mg_max_workers m)) m w = Manager_at m1 w1"
            and rec: "f fork m1 w1 = Some (Manager_at m' w')"
          by (auto split: pass.splits)
        from respawn_pool [OF ok worker_ids_ok rs] IH [OF rec] ok(1) show ?thesis by simp
      qed
    qed
  qed
  with assms show ?thesis by blast
qed

lemma pool_full:
  assumes "pool_ok m" and "mg_workers_count m = mg_max_workers m"
  shows "\<forall>e\<in>set (mg_pool m). wp_pid e \<noteq> 0"
  using assms filled_all [of "mg_pool m"] by (simp add: pool_ok_def)

text \<open>Where every fork works, one pass fills the pool and \<open>manage_workers\<close> returns.\<close>

lemma respawn_fills:
  assumes "\<And>w. \<exists>p w'. fork w = (Fork_parent p, w') \<and> 0 < p" and "pool_ok m" and "ids_of m is"
  shows "\<exists>m' w'. respawn fork is m w = Manager_at m' w' \<and>
    (\<forall>i\<in>set is. wp_pid (mg_pool m' ! unat i) \<noteq> 0) \<and>
    (\<forall>k < length (mg_pool m). wp_pid (mg_pool m ! k) \<noteq> 0 \<longrightarrow> wp_pid (mg_pool m' ! k) \<noteq> 0)"
  using assms(2,3)
proof (induction "is" arbitrary: m w)
  case (Cons i "is")
  have i: "unat i < unat (mg_max_workers m)" "ids_of m is" using Cons.prems(2) by (auto simp: ids_of_def)
  have len: "unat i < length (mg_pool m)" using i(1) Cons.prems(1) by (simp add: pool_ok_def)
  show ?case
  proof (cases "wp_pid (mg_pool m ! unat i) = 0")
    case False
    obtain m' w' where r: "respawn fork is m w = Manager_at m' w'"
      "\<forall>i\<in>set is. wp_pid (mg_pool m' ! unat i) \<noteq> 0"
      "\<forall>k < length (mg_pool m). wp_pid (mg_pool m ! k) \<noteq> 0 \<longrightarrow> wp_pid (mg_pool m' ! k) \<noteq> 0"
      using Cons.IH [OF Cons.prems(1) i(2), of w] by blast
    with False len show ?thesis by auto
  next
    case zero: True
    obtain p w1 where f: "fork w = (Fork_parent p, w1)" "0 < p" using assms(1) by blast
    obtain m1 where m1: "spawn_worker i (Fork_parent p) m = Spawned m1" by (simp add: spawn_worker_def)
    have p: "p \<noteq> 0" using f(2) by simp
    note sp = spawn_worker_pool [OF Cons.prems(1) i(1) zero p m1]
    have "ids_of m1 is" using i(2) sp(3) by (simp add: ids_of_def)
    then obtain m' w' where r: "respawn fork is m1 w1 = Manager_at m' w'"
      "\<forall>i\<in>set is. wp_pid (mg_pool m' ! unat i) \<noteq> 0"
      "\<forall>k < length (mg_pool m1). wp_pid (mg_pool m1 ! k) \<noteq> 0 \<longrightarrow> wp_pid (mg_pool m' ! k) \<noteq> 0"
      using Cons.IH [OF sp(1), of w1] by blast
    have "wp_pid (mg_pool m1 ! unat i) \<noteq> 0" using sp(4) len p by simp
    moreover have "wp_pid (mg_pool m ! k) \<noteq> 0 \<Longrightarrow> k < length (mg_pool m) \<Longrightarrow> wp_pid (mg_pool m1 ! k) \<noteq> 0" for k
      using sp(4) p by (cases "k = unat i") auto
    ultimately show ?thesis using r f m1 zero len sp(4) by auto
  qed
qed auto

lemma manage_workers_fills:
  assumes "\<And>w. \<exists>p w'. fork w = (Fork_parent p, w') \<and> 0 < p" and "pool_ok m"
  shows "\<exists>m' w'. manage_workers fork m w = Some (Manager_at m' w')"
proof (cases "mg_workers_count m = mg_max_workers m")
  case True
  with assms(2) show ?thesis
    by (simp add: manage_workers_def pool_ok_def manage_loop.simps [of fork m w])
next
  case False
  let ?is = "worker_ids (mg_max_workers m)"
  obtain m' w' where r: "respawn fork ?is m w = Manager_at m' w'"
      "\<forall>i\<in>set ?is. wp_pid (mg_pool m' ! unat i) \<noteq> 0"
    using respawn_fills [of fork m ?is w] assms worker_ids_ok [of m] by blast
  have "forks_ok fork" using assms(1) unfolding forks_ok_def by (metis prod.inject fork_result.inject)
  from respawn_pool [OF this assms(2) worker_ids_ok r(1)]
  have ok: "pool_ok m'" "mg_max_workers m' = mg_max_workers m" by auto
  have "wp_pid (mg_pool m' ! k) \<noteq> 0" if "k < length (mg_pool m')" for k
  proof -
    have k: "k < unat (mg_max_workers m)" using that ok by (simp add: pool_ok_def)
    then have "unat (of_nat k :: u32) = k"
      using unsigned_less [where 'a = nat and w = "mg_max_workers m"] by (intro unat_of_nat_small) simp
    moreover have "of_nat k \<in> set ?is" using k by (simp add: worker_ids_def)
    ultimately show ?thesis using r(2) by metis
  qed
  then have "filled (mg_pool m') = length (mg_pool m')" by (auto simp: filled_all in_set_conv_nth)
  then have "mg_workers_count m' = mg_max_workers m'"
    using ok(1) by (intro word_unat_eq_iff [THEN iffD2]) (simp add: pool_ok_def)
  then have "manage_loop fork m' w' = Some (Manager_at m' w')" by (simp add: manage_loop.simps)
  then show ?thesis
    using False r(1) assms(2) by (simp add: manage_workers_def pool_ok_def manage_loop.simps [of fork m w])
qed

text \<open>Where no fork works and a worker is missing it never returns.\<close>

lemma respawn_errors:
  assumes "\<And>w. fork w = (Fork_error, w)"
  shows "respawn fork is m w = Manager_at m w"
  by (induction "is") (simp_all add: assms spawn_worker_def)

lemma manage_workers_stuck:
  assumes "\<And>w. fork w = (Fork_error, w)" and "mg_workers_count m \<noteq> mg_max_workers m" and "\<not> mg_worker m"
  shows "manage_workers fork m w = None"
proof -
  have "fork \<noteq> fk \<or> m \<noteq> mm" if "manage_loop fk mm w = Some r" for fk mm w r
  proof (rule manage_loop.raw_induct [OF _ that])
    fix f and fk :: "'a \<Rightarrow> fork_result \<times> 'a" and mm w and r :: "'a pass"
    assume IH: "\<And>fk mm w r. f fk mm w = Some r \<Longrightarrow> fork \<noteq> fk \<or> m \<noteq> mm"
      and body: "(if mg_workers_count mm = mg_max_workers mm then Some (Manager_at mm w)
        else case respawn fk (worker_ids (mg_max_workers mm)) mm w of
          Manager_at m' w' \<Rightarrow> f fk m' w' | Child_at c w' \<Rightarrow> Some (Child_at c w')
        | Raised_at m' w' \<Rightarrow> Some (Raised_at m' w')) = Some r"
    show "fork \<noteq> fk \<or> m \<noteq> mm"
    proof (rule ccontr)
      assume "\<not> (fork \<noteq> fk \<or> m \<noteq> mm)"
      then have e: "fk = fork" "mm = m" by auto
      then have "f fork m w = Some r" using body assms(2) respawn_errors [OF assms(1)] by simp
      from IH [OF this] show False by simp
    qed
  qed
  then have "manage_loop fork m w = None" by (metis not_Some_eq)
  with assms(3) show ?thesis by (simp add: manage_workers_def)
qed

lemma respawn_never_raises: "respawn fork is m w \<noteq> Raised_at m' w'"
  by (induction fork "is" m w rule: respawn.induct) (auto split: prod.splits spawn_result.splits)

lemma manage_never_raises: "manage_workers fork m w \<noteq> Some (Raised_at m' w')"
proof -
  have "r \<noteq> Raised_at m' w'" if "manage_loop fork m w = Some r" for r
  proof (rule manage_loop.raw_induct [OF _ that])
    fix f and fork :: "'a \<Rightarrow> fork_result \<times> 'a" and m w and r :: "'a pass"
    assume IH: "\<And>fork m w r. f fork m w = Some r \<Longrightarrow> r \<noteq> Raised_at m' w'"
      and body: "(if mg_workers_count m = mg_max_workers m then Some (Manager_at m w)
        else case respawn fork (worker_ids (mg_max_workers m)) m w of
          Manager_at m' w' \<Rightarrow> f fork m' w' | Child_at c w' \<Rightarrow> Some (Child_at c w')
        | Raised_at m' w' \<Rightarrow> Some (Raised_at m' w')) = Some r"
    then show "r \<noteq> Raised_at m' w'"
      using respawn_never_raises [of fork "worker_ids (mg_max_workers m)" m w]
      by (auto split: if_splits pass.splits)
  qed
  then show ?thesis by (auto simp: manage_workers_def)
qed

text \<open>The first workers: the entries hold junk before, so they are filled in order.\<close>

lemma spawn_loop_all:
  assumes "\<And>w. \<exists>p w'. fork w = (Fork_parent p, w') \<and> 0 < p"
    and "\<not> mg_worker m" and "length (mg_pool m) = unat (mg_max_workers m)"
    and "k + n = unat (mg_max_workers m)" and "unat (mg_workers_count m) = k"
    and "\<forall>j < k. wp_pid (mg_pool m ! j) \<noteq> 0"
  shows "\<exists>m' w'. spawn_loop fork (map of_nat [k..<k + n]) m w = Manager_at m' w' \<and> pool_ok m' \<and>
    mg_max_workers m' = mg_max_workers m \<and> mg_workers_count m' = mg_max_workers m'"
  using assms(2-)
proof (induction n arbitrary: k m w)
  case 0
  then have "filled (mg_pool m) = length (mg_pool m)"
    by (intro filled_all [THEN iffD2]) (auto simp: in_set_conv_nth)
  moreover have "mg_workers_count m = mg_max_workers m"
    using 0 by (intro word_unat_eq_iff [THEN iffD2]) simp
  ultimately show ?case using 0 by (simp add: pool_ok_def)
next
  case (Suc n)
  obtain p w1 where f: "fork w = (Fork_parent p, w1)" "0 < p" using assms(1) by blast
  have lim: "k + 1 < 2 ^ 32"
    using Suc.prems(3) unsigned_less [where 'a = nat and w = "mg_max_workers m"] by simp
  have k: "unat (of_nat k :: u32) = k" using lim by (intro unat_of_nat_small) simp
  let ?e = "\<lparr>wp_pid = p, wp_id = of_nat k, wp_worker = False\<rparr>"
  let ?m = "m\<lparr>mg_workers_count := mg_workers_count m + 1, mg_worker := False,
      mg_pool := (mg_pool m)[k := ?e]\<rparr>"
  have c: "unat (mg_workers_count m + 1) = Suc k"
    using Suc.prems(4) lim by (simp add: unat_word_ariths)
  have "\<exists>m' w'. spawn_loop fork (map of_nat [Suc k..<Suc k + n]) ?m w1 = Manager_at m' w' \<and> pool_ok m' \<and>
      mg_max_workers m' = mg_max_workers ?m \<and> mg_workers_count m' = mg_max_workers m'"
    using Suc.prems c f(2) by (intro Suc.IH) (auto simp: less_Suc_eq)
  moreover have "[k..<k + Suc n] = k # [Suc k..<Suc k + n]" by (simp add: upt_conv_Cons del: upt_Suc)
  ultimately show ?case using f(1) k by (simp add: spawn_worker_def del: upt_Suc)
qed

lemma spawn_all:
  assumes "\<And>w. \<exists>p w'. fork w = (Fork_parent p, w') \<and> 0 < p"
    and "mg_worker m = False" and "mg_workers_count m = 0"
  shows "\<exists>m' w'. spawn fork junk max_workers reqs tmo m w = Manager_at m' w' \<and>
    mg_max_workers m' = max_workers \<and> pool_ok m' \<and> mg_workers_count m' = mg_max_workers m'"
proof -
  let ?m = "m\<lparr>mg_max_workers := max_workers, mg_max_worker_requests := reqs, mg_comm_timeout := tmo,
    mg_pool := map junk [0..<unat max_workers]\<rparr>"
  have "\<exists>m' w'. spawn_loop fork (map of_nat [0..<0 + unat max_workers]) ?m w = Manager_at m' w' \<and> pool_ok m' \<and>
      mg_max_workers m' = mg_max_workers ?m \<and> mg_workers_count m' = mg_max_workers m'"
    using assms by (intro spawn_loop_all) auto
  then show ?thesis using assms(2) by (auto simp: spawn_def worker_ids_def Let_def)
qed

end
