(* ===== verification/Reaper.thy ===== *)
theory Reaper
  imports Manager "HOL-Library.Multiset"
begin

text \<open>
  The loop of the manager process step by step, with its children and the \<open>SIGCHLD\<close> handler
  (\<open>run\<close> and \<open>sigchld_handler\<close> in \<open>src/bitz-server.cpp\<close>, \<open>manage_workers\<close> and \<open>spawn_worker\<close>
  in \<open>src/bitz/manager.cpp\<close>). The program never blocks that signal, so the handler may run
  between any two steps; a predicate on program points restricts it where a property needs that.
\<close>

section \<open>States and steps\<close>

text \<open>
  Where the manager is: in \<open>sigsuspend\<close>, in a handler that interrupted it there, before the test
  of the outer loop, at an entry of the inner loop, in \<open>spawn_worker\<close> after \<open>fork\<close>, after the
  count was read for \<open>workers_count++\<close> (with the value read) and after it was written, or on the
  way back to \<open>sigsuspend\<close>.
\<close>

datatype point =
    Suspended
  | Woken
  | Test
  | At u32
  | Forked u32 int
  | Loaded u32 int u32
  | Counted u32 int
  | Leaving

text \<open>The children that run, and those that ended and wait to be reaped.\<close>

record msys =
  ms_mgr :: manager_t
  ms_alive :: "int list"
  ms_zombies :: "int list"
  ms_point :: point

definition record_worker :: "u32 \<Rightarrow> int \<Rightarrow> manager_t \<Rightarrow> manager_t" where
  "record_worker i p m = m\<lparr>mg_worker := False,
     mg_pool := (mg_pool m)[unat i := \<lparr>wp_pid = p, wp_id = i, wp_worker = False\<rparr>]\<rparr>"

text \<open>
  One \<open>waitpid\<close> of the handler takes one zombie; a handler that interrupted \<open>sigsuspend\<close> wakes
  the manager when it returns.
\<close>

inductive mstep :: "(point \<Rightarrow> bool) \<Rightarrow> msys \<Rightarrow> msys \<Rightarrow> bool" for may :: "point \<Rightarrow> bool" where
  Wake: "ms_point y = Woken \<Longrightarrow> mstep may y (y\<lparr>ms_point := Test\<rparr>)"
| Return: "ms_point y = Test \<Longrightarrow> mg_workers_count (ms_mgr y) = mg_max_workers (ms_mgr y) \<Longrightarrow>
    mstep may y (y\<lparr>ms_point := Leaving\<rparr>)"
| Suspend: "ms_point y = Leaving \<Longrightarrow> mstep may y (y\<lparr>ms_point := Suspended\<rparr>)"
| Enter: "ms_point y = Test \<Longrightarrow> mg_workers_count (ms_mgr y) \<noteq> mg_max_workers (ms_mgr y) \<Longrightarrow>
    mstep may y (y\<lparr>ms_point := At 0\<rparr>)"
| Again: "ms_point y = At i \<Longrightarrow> \<not> i < mg_max_workers (ms_mgr y) \<Longrightarrow> mstep may y (y\<lparr>ms_point := Test\<rparr>)"
| Skip: "ms_point y = At i \<Longrightarrow> i < mg_max_workers (ms_mgr y) \<Longrightarrow>
    wp_pid (mg_pool (ms_mgr y) ! unat i) \<noteq> 0 \<Longrightarrow> mstep may y (y\<lparr>ms_point := At (i + 1)\<rparr>)"
| Fork_fails: "ms_point y = At i \<Longrightarrow> i < mg_max_workers (ms_mgr y) \<Longrightarrow>
    wp_pid (mg_pool (ms_mgr y) ! unat i) = 0 \<Longrightarrow> mstep may y (y\<lparr>ms_point := At (i + 1)\<rparr>)"
| Fork: "ms_point y = At i \<Longrightarrow> i < mg_max_workers (ms_mgr y) \<Longrightarrow>
    wp_pid (mg_pool (ms_mgr y) ! unat i) = 0 \<Longrightarrow>
    0 < p \<Longrightarrow> p \<notin> set (ms_alive y) \<union> set (ms_zombies y) \<Longrightarrow>
    mstep may y (y\<lparr>ms_alive := p # ms_alive y, ms_point := Forked i p\<rparr>)"
| Load: "ms_point y = Forked i p \<Longrightarrow>
    mstep may y (y\<lparr>ms_point := Loaded i p (mg_workers_count (ms_mgr y))\<rparr>)"
| Store: "ms_point y = Loaded i p n \<Longrightarrow>
    mstep may y (y\<lparr>ms_mgr := (ms_mgr y)\<lparr>mg_workers_count := n + 1\<rparr>, ms_point := Counted i p\<rparr>)"
| Record: "ms_point y = Counted i p \<Longrightarrow>
    mstep may y (y\<lparr>ms_mgr := record_worker i p (ms_mgr y), ms_point := At (i + 1)\<rparr>)"
| Child_exit: "p \<in> set (ms_alive y) \<Longrightarrow>
    mstep may y (y\<lparr>ms_alive := removeAll p (ms_alive y), ms_zombies := p # ms_zombies y\<rparr>)"
| Reap: "p \<in> set (ms_zombies y) \<Longrightarrow> may (ms_point y) \<Longrightarrow>
    mstep may y (y\<lparr>ms_mgr := reap_worker p (ms_mgr y), ms_zombies := removeAll p (ms_zombies y),
      ms_point := (if ms_point y = Suspended then Woken else ms_point y)\<rparr>)"

inductive_cases mstepE: "mstep may y y'"

inductive reachable :: "(point \<Rightarrow> bool) \<Rightarrow> msys \<Rightarrow> msys \<Rightarrow> bool" for may :: "point \<Rightarrow> bool" and y0 :: msys where
  start: "reachable may y0 y0"
| step: "reachable may y0 y \<Longrightarrow> mstep may y y' \<Longrightarrow> reachable may y0 y'"

lemma reachable_one [intro]: "mstep may y y' \<Longrightarrow> reachable may y y'"
  by (rule reachable.step [OF reachable.start])

lemma reachable_trans [trans]:
  "reachable may y1 y2 \<Longrightarrow> reachable may y0 y1 \<Longrightarrow> reachable may y0 y2"
  by (induction rule: reachable.induct) (auto intro: reachable.step)

text \<open>The handler anywhere but in \<open>sigsuspend\<close> leaves the program point alone.\<close>

lemma reap_elsewhere:
  assumes "p \<in> set (ms_zombies y)" and "may (ms_point y)" and "ms_point y \<noteq> Suspended"
  shows "mstep may y (y\<lparr>ms_mgr := reap_worker p (ms_mgr y), ms_zombies := removeAll p (ms_zombies y)\<rparr>)"
proof -
  have "y\<lparr>ms_mgr := m, ms_zombies := z, ms_point := ms_point y\<rparr> = y\<lparr>ms_mgr := m, ms_zombies := z\<rparr>" for m z
    by (cases y) simp
  then show ?thesis using mstep.Reap [of p y may] assms by simp
qed

text \<open>An invariant of the steps is an invariant of the reachable states.\<close>

lemma reachable_invariant:
  assumes "reachable may y0 y" and "I y0" and "\<And>y y'. mstep may y y' \<Longrightarrow> I y \<Longrightarrow> I y'"
  shows "I y"
  using assms(1,2) by induction (auto intro: assms(3))

text \<open>The three steps of \<open>spawn_worker\<close> in the parent, none interrupted, are the function.\<close>

lemma spawn_worker_steps:
  "spawn_worker i (Fork_parent p) m = Spawned (record_worker i p (m\<lparr>mg_workers_count := mg_workers_count m + 1\<rparr>))"
  by (simp add: spawn_worker_def record_worker_def)

section \<open>The count\<close>

text \<open>The process ids recorded in the pool.\<close>

definition pids :: "manager_t \<Rightarrow> int list" where
  "pids m = filter (\<lambda>p. p \<noteq> 0) (map wp_pid (mg_pool m))"

lemma length_pids: "length (pids m) = filled (mg_pool m)"
  by (simp add: pids_def filled_def filter_map comp_def)

text \<open>The entry a fork is under way for, and the child, between \<open>fork\<close> and its recording.\<close>

definition under_way :: "point \<Rightarrow> (u32 \<times> int) option" where
  "under_way pt = (case pt of Forked i p \<Rightarrow> Some (i, p) | Loaded i p _ \<Rightarrow> Some (i, p)
     | Counted i p \<Rightarrow> Some (i, p) | _ \<Rightarrow> None)"

text \<open>What is counted already and not recorded yet.\<close>

definition pending :: "point \<Rightarrow> nat" where
  "pending pt = (case pt of Counted _ _ \<Rightarrow> 1 | _ \<Rightarrow> 0)"

definition count_inv :: "msys \<Rightarrow> bool" where
  "count_inv y \<longleftrightarrow> \<not> mg_worker (ms_mgr y) \<and>
     length (mg_pool (ms_mgr y)) = unat (mg_max_workers (ms_mgr y)) \<and>
     unat (mg_workers_count (ms_mgr y)) = filled (mg_pool (ms_mgr y)) + pending (ms_point y) \<and>
     0 \<notin> set (ms_alive y) \<union> set (ms_zombies y) \<and>
     (\<forall>i p. under_way (ms_point y) = Some (i, p) \<longrightarrow>
        p \<noteq> 0 \<and> i < mg_max_workers (ms_mgr y) \<and> wp_pid (mg_pool (ms_mgr y) ! unat i) = 0) \<and>
     (\<forall>i p n. ms_point y = Loaded i p n \<longrightarrow> n = mg_workers_count (ms_mgr y))"

lemma filled_less: "i < length pool \<Longrightarrow> wp_pid (pool ! i) = 0 \<Longrightarrow> filled pool < length pool"
  using filled_update [of i pool "\<lparr>wp_pid = 1, wp_id = 0, wp_worker = False\<rparr>"]
    filled_le [of "pool[i := \<lparr>wp_pid = 1, wp_id = 0, wp_worker = False\<rparr>]"] by simp

lemma reap_keeps_zero:
  assumes "wp_pid (mg_pool m ! k) = 0" and "k < length (mg_pool m)"
  shows "wp_pid (mg_pool (reap_worker p m) ! k) = 0"
proof -
  obtain found pool where r: "reap_loop p (mg_pool m) = (found, pool)" by fastforce
  have "wp_pid (pool ! k) = 0" if "reap_loop p es = (found, pool)" "wp_pid (es ! k) = 0" "k < length es"
    for es found pool
    using that
  proof (induction es arbitrary: k found pool)
    case (Cons e es)
    obtain f es' where r: "reap_loop p es = (f, es')" by fastforce
    from Cons.IH [OF r] Cons.prems r show ?case
      by (cases k) (auto split: if_splits)
  qed simp
  with r assms show ?thesis by (simp add: reap_worker_def)
qed

lemma reap_worker_fields:
  assumes "\<not> mg_worker m" and "p \<noteq> 0" and "unat (mg_workers_count m) = filled (mg_pool m) + k"
  shows "\<not> mg_worker (reap_worker p m)" and "mg_max_workers (reap_worker p m) = mg_max_workers m"
    and "length (mg_pool (reap_worker p m)) = length (mg_pool m)"
    and "unat (mg_workers_count (reap_worker p m)) = filled (mg_pool (reap_worker p m)) + k"
proof -
  obtain found pool where r: "reap_loop p (mg_pool m) = (found, pool)" by fastforce
  note rl = reap_loop_pool [OF r assms(2)]
  show "\<not> mg_worker (reap_worker p m)" "mg_max_workers (reap_worker p m) = mg_max_workers m"
    "length (mg_pool (reap_worker p m)) = length (mg_pool m)"
    using r rl(1) assms(1) by (simp_all add: reap_worker_def)
  have "unat (mg_workers_count m - 1) = filled pool + k" if found
  proof -
    have c: "unat (mg_workers_count m) = Suc (filled pool + k)" using rl(3) assms(3) that by simp
    then have "mg_workers_count m \<noteq> 0" by auto
    with c show ?thesis by (simp add: unat_dec)
  qed
  moreover have "mg_pool m = pool" if "\<not> found" using rl(4) that by simp
  ultimately show "unat (mg_workers_count (reap_worker p m)) = filled (mg_pool (reap_worker p m)) + k"
    using r assms(1,3) by (cases found) (simp_all add: reap_worker_def)
qed

text \<open>
  \<open>workers_count++\<close> is one step for the handler: it does not run between the read and the write.
\<close>

definition whole_increment :: "(point \<Rightarrow> bool) \<Rightarrow> bool" where
  "whole_increment may \<longleftrightarrow> (\<forall>i p n. \<not> may (Loaded i p n))"

lemma count_inv_step:
  assumes "mstep may y y'" and "count_inv y" and "whole_increment may"
  shows "count_inv y'"
  using assms(1)
proof cases
  case (Load i p)
  with assms(2) show ?thesis by (auto simp: count_inv_def under_way_def pending_def)
next
  case (Store i p n)
  note f = assms(2) [unfolded count_inv_def]
  have "unat i < length (mg_pool (ms_mgr y))" "wp_pid (mg_pool (ms_mgr y) ! unat i) = 0"
    using f Store(2) by (auto simp: under_way_def word_less_nat_alt)
  from filled_less [OF this] have "filled (mg_pool (ms_mgr y)) < unat (mg_max_workers (ms_mgr y))"
    using f by simp
  moreover have "n = mg_workers_count (ms_mgr y)" "unat (mg_workers_count (ms_mgr y)) = filled (mg_pool (ms_mgr y))"
    using f Store(2) by (auto simp: pending_def)
  ultimately have "unat (n + 1) = filled (mg_pool (ms_mgr y)) + 1"
    using unsigned_less [where 'a = nat and w = "mg_max_workers (ms_mgr y)"] by (simp add: unat_word_ariths)
  with f Store show ?thesis by (auto simp: count_inv_def under_way_def pending_def)
next
  case (Record i p)
  note f = assms(2) [unfolded count_inv_def]
  have "unat i < length (mg_pool (ms_mgr y))" "wp_pid (mg_pool (ms_mgr y) ! unat i) = 0" "p \<noteq> 0"
    using f Record(2) by (auto simp: under_way_def word_less_nat_alt)
  from filled_update [OF this(1,2), of "\<lparr>wp_pid = p, wp_id = i, wp_worker = False\<rparr>"] this(3) f Record
  show ?thesis by (auto simp: count_inv_def under_way_def pending_def record_worker_def)
next
  case (Reap p)
  note f = assms(2) [unfolded count_inv_def]
  have p: "p \<noteq> 0" and w: "\<not> mg_worker (ms_mgr y)"
    and c: "unat (mg_workers_count (ms_mgr y)) = filled (mg_pool (ms_mgr y)) + pending (ms_point y)"
    using f Reap(2) by auto
  note rw = reap_worker_fields [OF w p c]
  have pt: "under_way (ms_point y') = under_way (ms_point y)" "pending (ms_point y') = pending (ms_point y)"
    using Reap(1) by (auto simp: under_way_def pending_def)
  have "wp_pid (mg_pool (reap_worker p (ms_mgr y)) ! unat i) = 0"
    if "under_way (ms_point y) = Some (i, q)" for i q
    using f that by (intro reap_keeps_zero) (auto simp: word_less_nat_alt)
  moreover have "ms_point y \<noteq> Loaded i q n" for i q n using Reap(3) assms(3) by (auto simp: whole_increment_def)
  ultimately show ?thesis
    using f rw pt Reap(1) by (auto simp: count_inv_def)
qed (use assms(2) in \<open>auto simp: count_inv_def under_way_def pending_def word_less_nat_alt\<close>)

lemma count_inv_reachable:
  assumes "reachable may y0 y" and "count_inv y0" and "whole_increment may"
  shows "count_inv y"
  using assms(1,2) by (rule reachable_invariant) (rule count_inv_step [OF _ _ assms(3)])

section \<open>The recorded workers\<close>

text \<open>
  Every recorded worker is a child that runs or waits to be reaped, and so is the one under way,
  which is not recorded.
\<close>

definition workers_inv :: "msys \<Rightarrow> bool" where
  "workers_inv y \<longleftrightarrow> distinct (pids (ms_mgr y)) \<and>
     set (ms_alive y) \<inter> set (ms_zombies y) = {} \<and>
     (case under_way (ms_point y) of
        None \<Rightarrow> set (pids (ms_mgr y)) = set (ms_alive y) \<union> set (ms_zombies y)
      | Some (i, p) \<Rightarrow> p \<notin> set (pids (ms_mgr y)) \<and>
          insert p (set (pids (ms_mgr y))) = set (ms_alive y) \<union> set (ms_zombies y))"

lemma pids_record:
  assumes "unat i < length (mg_pool m)" and "wp_pid (mg_pool m ! unat i) = 0" and "p \<noteq> 0"
  shows "mset (pids (record_worker i p m)) = add_mset p (mset (pids m))"
proof -
  let ?f = "\<lambda>pool. filter (\<lambda>p. p \<noteq> 0) (map wp_pid pool)"
  let ?e = "\<lparr>wp_pid = p, wp_id = i, wp_worker = False\<rparr>"
  let ?n = "unat i"
  have "mg_pool m = take ?n (mg_pool m) @ mg_pool m ! ?n # drop (Suc ?n) (mg_pool m)"
    using assms(1) by (rule id_take_nth_drop)
  then have "pids m = ?f (take ?n (mg_pool m) @ mg_pool m ! ?n # drop (Suc ?n) (mg_pool m))"
    unfolding pids_def by simp
  moreover have "pids (record_worker i p m) = ?f (take ?n (mg_pool m) @ ?e # drop (Suc ?n) (mg_pool m))"
    using assms(1) by (simp add: pids_def record_worker_def upd_conv_take_nth_drop)
  ultimately show ?thesis using assms(2,3) by simp
qed

lemma pids_reap:
  assumes "\<not> mg_worker m" and "p \<noteq> 0"
  shows "pids (reap_worker p m) = remove1 p (pids m)"
proof -
  obtain found pool where r: "reap_loop p (mg_pool m) = (found, pool)" by fastforce
  have "filter (\<lambda>p. p \<noteq> 0) (map wp_pid pool) = remove1 p (filter (\<lambda>p. p \<noteq> 0) (map wp_pid es))"
    if "reap_loop p es = (found, pool)" for es found pool
    using that
  proof (induction es arbitrary: found pool)
    case (Cons e es)
    obtain f es' where r: "reap_loop p es = (f, es')" by fastforce
    from Cons.IH [OF r] Cons.prems r assms(2) show ?case
      by (cases "wp_pid e = p") auto
  qed simp
  from this [OF r] r reap_loop_pool(4) [OF r assms(2)] assms(1) show ?thesis
    by (cases found) (simp_all add: reap_worker_def pids_def)
qed

lemma pids_count [simp]: "pids (m\<lparr>mg_workers_count := n\<rparr>) = pids m"
  by (simp add: pids_def)

text \<open>The handler does not run while a fork is not recorded.\<close>

definition whole_spawn :: "(point \<Rightarrow> bool) \<Rightarrow> bool" where
  "whole_spawn may \<longleftrightarrow> (\<forall>pt. may pt \<longrightarrow> under_way pt = None)"

lemma whole_spawn_increment: "whole_spawn may \<Longrightarrow> whole_increment may"
  by (auto simp: whole_spawn_def whole_increment_def under_way_def)

lemma workers_inv_step:
  assumes "mstep may y y'" and "workers_inv y" and "count_inv y" and "whole_spawn may"
  shows "workers_inv y'"
  using assms(1)
proof cases
  case (Fork i p)
  with assms(2) show ?thesis by (auto simp: workers_inv_def under_way_def)
next
  case (Load i p)
  with assms(2) show ?thesis by (simp add: workers_inv_def under_way_def)
next
  case (Store i p n)
  with assms(2) show ?thesis by (simp add: workers_inv_def under_way_def)
next
  case (Record i p)
  note f = assms(3) [unfolded count_inv_def]
  have "unat i < length (mg_pool (ms_mgr y))" "wp_pid (mg_pool (ms_mgr y) ! unat i) = 0" "p \<noteq> 0"
    using f Record(2) by (auto simp: under_way_def word_less_nat_alt)
  note m = pids_record [OF this]
  then have "set (pids (record_worker i p (ms_mgr y))) = insert p (set (pids (ms_mgr y)))"
    by (metis set_mset_add_mset_insert set_mset_mset)
  moreover have "distinct (pids (record_worker i p (ms_mgr y)))"
    using assms(2) Record(2) mset_eq_imp_distinct_iff [of "pids (record_worker i p (ms_mgr y))" "p # pids (ms_mgr y)"] m
    by (simp add: workers_inv_def under_way_def)
  ultimately show ?thesis using assms(2) Record by (auto simp: workers_inv_def under_way_def)
next
  case (Child_exit p)
  with assms(2) show ?thesis by (auto simp: workers_inv_def split: option.splits)
next
  case (Reap p)
  have "p \<noteq> 0" "\<not> mg_worker (ms_mgr y)" using assms(3) Reap(2) by (auto simp: count_inv_def)
  then have "pids (reap_worker p (ms_mgr y)) = remove1 p (pids (ms_mgr y))" by (intro pids_reap)
  moreover have "under_way (ms_point y) = None" using assms(4) Reap(3) by (simp add: whole_spawn_def)
  moreover from this have "under_way (ms_point y') = None" using Reap(1) by (simp add: under_way_def)
  ultimately show ?thesis using Reap(1,2) assms(2) by (auto simp: workers_inv_def)
qed (use assms(2) in \<open>simp_all add: workers_inv_def under_way_def\<close>)

lemma workers_inv_reachable:
  assumes "reachable may y0 y" and "workers_inv y0" and "count_inv y0" and "whole_spawn may"
  shows "workers_inv y \<and> count_inv y"
  by (rule reachable_invariant [OF assms(1), of "\<lambda>y. workers_inv y \<and> count_inv y"])
    (use assms(2-4) workers_inv_step count_inv_step whole_spawn_increment in blast)+

text \<open>
  Where the handler does not run between the last test of the count and \<open>sigsuspend\<close> the
  manager sleeps with a full pool only.
\<close>

definition full_inv :: "msys \<Rightarrow> bool" where
  "full_inv y \<longleftrightarrow> (ms_point y = Leaving \<or> ms_point y = Suspended \<longrightarrow>
     mg_workers_count (ms_mgr y) = mg_max_workers (ms_mgr y))"

lemma full_inv_step: "mstep may y y' \<Longrightarrow> full_inv y \<Longrightarrow> \<not> may Leaving \<Longrightarrow> full_inv y'"
  by (erule mstepE) (auto simp: full_inv_def)

lemma suspended_full:
  assumes "reachable may y0 y" and "count_inv y0" and "full_inv y0" and "whole_increment may"
    and "\<not> may Leaving" and "ms_point y = Suspended"
  shows "length (pids (ms_mgr y)) = unat (mg_max_workers (ms_mgr y))"
proof -
  have "count_inv y" using count_inv_reachable [OF assms(1,2,4)] .
  moreover have "full_inv y"
    by (rule reachable_invariant [where I = full_inv, OF assms(1,3)]) (use full_inv_step assms(5) in blast)
  ultimately show ?thesis
    using assms(6) by (simp add: count_inv_def full_inv_def pending_def length_pids)
qed

section \<open>No child is forgotten once it is recorded\<close>

text \<open>
  Wherever the handler runs, a child that runs or waits to be reaped is in the pool, but for the one
  whose fork is under way. The converse needs more (\<open>workers_inv\<close>).
\<close>

definition children_inv :: "msys \<Rightarrow> bool" where
  "children_inv y \<longleftrightarrow> \<not> mg_worker (ms_mgr y) \<and>
     length (mg_pool (ms_mgr y)) = unat (mg_max_workers (ms_mgr y)) \<and>
     0 \<notin> set (ms_alive y) \<union> set (ms_zombies y) \<and> set (ms_alive y) \<inter> set (ms_zombies y) = {} \<and>
     (case under_way (ms_point y) of
        None \<Rightarrow> set (ms_alive y) \<union> set (ms_zombies y) \<subseteq> set (pids (ms_mgr y))
      | Some (i, p) \<Rightarrow> p \<noteq> 0 \<and> unat i < length (mg_pool (ms_mgr y)) \<and> wp_pid (mg_pool (ms_mgr y) ! unat i) = 0 \<and>
          set (ms_alive y) \<union> set (ms_zombies y) \<subseteq> insert p (set (pids (ms_mgr y))))"

lemma reap_worker_length: "length (mg_pool (reap_worker p m)) = length (mg_pool m)"
proof -
  obtain found pool where r: "reap_loop p (mg_pool m) = (found, pool)" by fastforce
  have "length pool = length es" if "reap_loop p es = (found, pool)" for es found pool
    using that by (induction es arbitrary: found pool) (auto split: if_splits prod.splits)
  from this [OF r] r show ?thesis by (simp add: reap_worker_def)
qed

lemma reap_worker_rest:
  "mg_worker (reap_worker p m) = mg_worker m" "mg_max_workers (reap_worker p m) = mg_max_workers m"
  by (simp_all add: reap_worker_def split: prod.splits)

lemma children_inv_step:
  assumes "mstep may y y'" and "children_inv y"
  shows "children_inv y'"
  using assms(1)
proof cases
  case (Record i p)
  have c: "unat i < length (mg_pool (ms_mgr y))" "wp_pid (mg_pool (ms_mgr y) ! unat i) = 0" "p \<noteq> 0"
    using assms(2) Record(2) by (auto simp: children_inv_def under_way_def)
  have "set (pids (record_worker i p (ms_mgr y))) = insert p (set (pids (ms_mgr y)))"
    using pids_record [OF c] by (metis set_mset_add_mset_insert set_mset_mset)
  with assms(2) Record show ?thesis by (auto simp: children_inv_def under_way_def record_worker_def)
next
  case (Reap p)
  have w: "\<not> mg_worker (ms_mgr y)" "p \<noteq> 0" "p \<notin> set (ms_alive y)"
    using assms(2) Reap(2) by (auto simp: children_inv_def)
  have "set (pids (ms_mgr y)) - {p} \<subseteq> set (pids (reap_worker p (ms_mgr y)))"
    unfolding pids_reap [OF w(1,2)] by (metis Diff_iff in_set_remove1 insertCI subsetI)
  moreover have "under_way (ms_point y') = under_way (ms_point y)" using Reap(1) by (auto simp: under_way_def)
  ultimately show ?thesis
    using assms(2) Reap(1) w reap_keeps_zero [of "ms_mgr y"]
    by (auto simp: children_inv_def reap_worker_length reap_worker_rest split: option.splits)
qed (use assms(2) in \<open>auto simp: children_inv_def under_way_def word_less_nat_alt split: option.splits\<close>)

lemma children_inv_reachable: "reachable may y0 y \<Longrightarrow> children_inv y0 \<Longrightarrow> children_inv y"
  by (rule reachable_invariant [where I = children_inv]) (auto intro: children_inv_step)

lemma children_inv_start: "workers_inv y \<Longrightarrow> count_inv y \<Longrightarrow> children_inv y"
  by (auto simp: children_inv_def workers_inv_def count_inv_def word_less_nat_alt split: option.splits)

text \<open>The child whose fork is under way is the only one that may be missing in the pool.\<close>

definition unrecorded :: "msys \<Rightarrow> int set" where
  "unrecorded y = (case under_way (ms_point y) of Some (i, p) \<Rightarrow> {p} | None \<Rightarrow> {})"

lemma children_recorded: "children_inv y \<Longrightarrow> set (ms_alive y) \<union> set (ms_zombies y) \<subseteq> set (pids (ms_mgr y)) \<union> unrecorded y"
  by (auto simp: children_inv_def unrecorded_def split: option.splits)

lemma workers_recorded: "workers_inv y \<Longrightarrow> set (pids (ms_mgr y)) = set (ms_alive y) \<union> set (ms_zombies y) - unrecorded y"
  by (auto simp: workers_inv_def unrecorded_def split: option.splits)

section \<open>Three races\<close>

text \<open>
  A child that ends before its fork is recorded, with the handler running there: it is recorded
  as a worker although it is neither running nor waiting to be reaped.
\<close>

lemma reap_unknown:
  assumes "p \<notin> set (pids m)" and "p \<noteq> 0"
  shows "reap_worker p m = m"
proof -
  have "p \<notin> wp_pid ` set (mg_pool m)" using assms by (auto simp: pids_def)
  then show ?thesis
    using reap_loop_pool(2) [of p "mg_pool m"] assms(2)
    by (auto simp: reap_worker_def split: prod.splits)
qed

lemma lost_in_window:
  assumes "count_inv y" and "ms_point y = Forked i p" and "p \<in> set (ms_alive y)"
    and "p \<notin> set (pids (ms_mgr y))" and "may (Forked i p)"
  shows "\<exists>y'. reachable may y y' \<and> ms_point y' = At (i + 1) \<and>
    wp_pid (mg_pool (ms_mgr y') ! unat i) = p \<and> p \<notin> set (ms_alive y') \<union> set (ms_zombies y') \<and>
    mg_workers_count (ms_mgr y') = mg_workers_count (ms_mgr y) + 1"
proof -
  note f = assms(1) [unfolded count_inv_def]
  have i: "p \<noteq> 0" "unat i < length (mg_pool (ms_mgr y))"
    using f assms(2) by (auto simp: under_way_def word_less_nat_alt)
  let ?y1 = "y\<lparr>ms_alive := removeAll p (ms_alive y), ms_zombies := p # ms_zombies y\<rparr>"
  let ?y2 = "?y1\<lparr>ms_zombies := removeAll p (ms_zombies y)\<rparr>"
  let ?n = "mg_workers_count (ms_mgr y)"
  let ?y3 = "?y2\<lparr>ms_point := Loaded i p ?n\<rparr>"
  let ?y4 = "?y3\<lparr>ms_mgr := (ms_mgr y)\<lparr>mg_workers_count := ?n + 1\<rparr>, ms_point := Counted i p\<rparr>"
  let ?y5 = "?y4\<lparr>ms_mgr := record_worker i p (ms_mgr ?y4), ms_point := At (i + 1)\<rparr>"
  have "?y2 = ?y1\<lparr>ms_mgr := reap_worker p (ms_mgr ?y1), ms_zombies := removeAll p (ms_zombies ?y1)\<rparr>"
    using reap_unknown [OF assms(4) i(1)] by (cases y) simp
  then have "mstep may ?y1 ?y2" using reap_elsewhere [of p ?y1 may] assms(2,5) by simp
  moreover have "mstep may y ?y1" using assms(3) by (rule Child_exit)
  moreover have "mstep may ?y2 ?y3" using mstep.Load [of ?y2 i p may] assms(2) by simp
  moreover have "mstep may ?y3 ?y4" using mstep.Store [of ?y3 i p ?n may] by simp
  moreover have "mstep may ?y4 ?y5" using mstep.Record [of ?y4 i p may] by simp
  ultimately have "reachable may y ?y5" by (meson reachable.intros)
  moreover have "ms_point ?y5 = At (i + 1) \<and> wp_pid (mg_pool (ms_mgr ?y5) ! unat i) = p \<and>
      p \<notin> set (ms_alive ?y5) \<union> set (ms_zombies ?y5) \<and> mg_workers_count (ms_mgr ?y5) = ?n + 1"
    using i(2) by (simp add: record_worker_def)
  ultimately show ?thesis by blast
qed

text \<open>
  A worker that ends, with the handler running between the read and the write of
  \<open>workers_count++\<close>: the decrement is lost, and from then on the manager counts one worker more
  than it has recorded.
\<close>

lemma update_lost:
  assumes "count_inv y" and "ms_point y = Loaded i p n" and "q \<in> set (ms_alive y)"
    and "q \<in> set (pids (ms_mgr y))" and "may (Loaded i p n)"
  shows "\<exists>y'. reachable may y y' \<and> ms_point y' = At (i + 1) \<and>
    unat (mg_workers_count (ms_mgr y')) = length (pids (ms_mgr y')) + 1"
proof -
  note f = assms(1) [unfolded count_inv_def]
  have w: "\<not> mg_worker (ms_mgr y)" and q: "q \<noteq> 0" and p: "p \<noteq> 0"
    using f assms(2,4) by (auto simp: under_way_def pids_def)
  have i: "unat i < length (mg_pool (ms_mgr y))" "wp_pid (mg_pool (ms_mgr y) ! unat i) = 0"
    using f assms(2) by (auto simp: under_way_def word_less_nat_alt)
  have c: "n = mg_workers_count (ms_mgr y)" "unat n = filled (mg_pool (ms_mgr y)) + 0"
    using f assms(2) by (auto simp: pending_def)
  let ?m = "reap_worker q (ms_mgr y)"
  let ?y1 = "y\<lparr>ms_alive := removeAll q (ms_alive y), ms_zombies := q # ms_zombies y\<rparr>"
  let ?y2 = "?y1\<lparr>ms_mgr := ?m, ms_zombies := removeAll q (ms_zombies y)\<rparr>"
  let ?y3 = "?y2\<lparr>ms_mgr := ?m\<lparr>mg_workers_count := n + 1\<rparr>, ms_point := Counted i p\<rparr>"
  let ?y4 = "?y3\<lparr>ms_mgr := record_worker i p (ms_mgr ?y3), ms_point := At (i + 1)\<rparr>"
  have "mstep may y ?y1" using assms(3) by (rule Child_exit)
  moreover have "mstep may ?y1 ?y2" using reap_elsewhere [of q ?y1 may] assms(2,5) by simp
  moreover have "mstep may ?y2 ?y3" using mstep.Store [of ?y2 i p n may] assms(2) by simp
  moreover have "mstep may ?y3 ?y4" using mstep.Record [of ?y3 i p may] by simp
  ultimately have r: "reachable may y ?y4" by (meson reachable.intros)
  note rw = reap_worker_fields [OF w q, of 0]
  have "length (pids (ms_mgr ?y4)) = Suc (length (pids ?m))"
    using pids_record [of i "?m\<lparr>mg_workers_count := n + 1\<rparr>" p] rw(3) c i p
      reap_keeps_zero [OF i(2,1), of q]
    by simp (metis size_add_mset size_mset)
  moreover have "Suc (length (pids ?m)) = length (pids (ms_mgr y))"
    using pids_reap [OF w q] assms(4) by (simp add: length_remove1) (metis Suc_pred length_pos_if_in_set)
  moreover have "unat (n + 1) = unat n + 1"
  proof -
    have "filled (mg_pool (ms_mgr y)) < unat (mg_max_workers (ms_mgr y))"
      using filled_less [OF i] f by simp
    then show ?thesis
      using c(2) unsigned_less [where 'a = nat and w = "mg_max_workers (ms_mgr y)"]
      by (simp add: unat_word_ariths)
  qed
  ultimately have "unat (mg_workers_count (ms_mgr ?y4)) = length (pids (ms_mgr ?y4)) + 1"
    using c(2) by (simp add: record_worker_def length_pids)
  with r show ?thesis by (intro exI [of _ ?y4]) simp
qed

text \<open>
  A worker that ends after the last test of the count and before \<open>sigsuspend\<close>: the handler takes
  it off, then the manager sleeps although a worker is missing, until another child ends.
\<close>

lemma wakeup_lost:
  assumes "ms_point y = Leaving" and "count_inv y" and "q \<in> set (ms_alive y)"
    and "q \<in> set (pids (ms_mgr y))" and "ms_zombies y = []" and "may Leaving"
  shows "\<exists>y'. reachable may y y' \<and> ms_point y' = Suspended \<and>
    Suc (length (pids (ms_mgr y'))) = length (pids (ms_mgr y)) \<and>
    (\<forall>y''. mstep may y' y'' \<longrightarrow> (\<exists>p\<in>set (ms_alive y'). p \<in> set (ms_zombies y'') \<and> ms_mgr y'' = ms_mgr y'))"
proof -
  have w: "\<not> mg_worker (ms_mgr y)" and q: "q \<noteq> 0"
    using assms(2,4) by (auto simp: count_inv_def pids_def)
  let ?y1 = "y\<lparr>ms_alive := removeAll q (ms_alive y), ms_zombies := [q]\<rparr>"
  let ?y2 = "?y1\<lparr>ms_mgr := reap_worker q (ms_mgr y), ms_zombies := []\<rparr>"
  let ?y3 = "?y2\<lparr>ms_point := Suspended\<rparr>"
  have "mstep may y ?y1" using mstep.Child_exit [OF assms(3), of may] assms(5) by simp
  moreover have "mstep may ?y1 ?y2" using reap_elsewhere [of q ?y1 may] assms(1,6) by simp
  moreover have "mstep may ?y2 ?y3" using mstep.Suspend [of ?y2 may] assms(1) by simp
  ultimately have r: "reachable may y ?y3" by (meson reachable.intros)
  have "Suc (length (pids (ms_mgr ?y3))) = length (pids (ms_mgr y))"
    using pids_reap [OF w q] assms(4) by (simp add: length_remove1) (metis Suc_pred length_pos_if_in_set)
  moreover have "\<exists>p\<in>set (ms_alive ?y3). p \<in> set (ms_zombies y'') \<and> ms_mgr y'' = ms_mgr ?y3"
    if "mstep may ?y3 y''" for y''
    using that by cases auto
  ultimately show ?thesis using r by (intro exI [of _ ?y3]) simp
qed

section \<open>The functions are runs of the steps\<close>

text \<open>
  A world that knows which process ids are in use, and a \<open>fork\<close> that gives a new one, as the
  system's does.
\<close>

definition forks_fresh :: "('w \<Rightarrow> fork_result \<times> 'w) \<Rightarrow> ('w \<Rightarrow> int set) \<Rightarrow> bool" where
  "forks_fresh fork used \<longleftrightarrow>
     (\<forall>w. case fork w of
        (Fork_parent p, w') \<Rightarrow> 0 < p \<and> p \<notin> used w \<and> used w' = insert p (used w)
      | (_, w') \<Rightarrow> used w' = used w)"

definition at :: "manager_t \<Rightarrow> int list \<Rightarrow> int list \<Rightarrow> point \<Rightarrow> msys" where
  "at m alive zombies pt = \<lparr>ms_mgr = m, ms_alive = alive, ms_zombies = zombies, ms_point = pt\<rparr>"

lemma at_simps [simp]:
  "ms_mgr (at m al zs pt) = m" "ms_alive (at m al zs pt) = al" "ms_zombies (at m al zs pt) = zs"
  "ms_point (at m al zs pt) = pt" "(at m al zs pt)\<lparr>ms_point := pt'\<rparr> = at m al zs pt'"
  "(at m al zs pt)\<lparr>ms_mgr := m', ms_point := pt'\<rparr> = at m' al zs pt'"
  "(at m al zs pt)\<lparr>ms_alive := al', ms_point := pt'\<rparr> = at m al' zs pt'"
  by (simp_all add: at_def)

lemma spawn_steps:
  assumes "i < mg_max_workers m" and "wp_pid (mg_pool m ! unat i) = 0" and "0 < p"
    and "p \<notin> set al \<union> set zs" and "spawn_worker i (Fork_parent p) m = Spawned m'"
  shows "reachable may (at m al zs (At i)) (at m' (p # al) zs (At (i + 1)))"
proof -
  let ?n = "mg_workers_count m"
  have "mstep may (at m al zs (At i)) (at m (p # al) zs (Forked i p))"
    using mstep.Fork [of "at m al zs (At i)" i p may] assms by simp
  moreover have "mstep may (at m (p # al) zs (Forked i p)) (at m (p # al) zs (Loaded i p ?n))"
    using mstep.Load [of "at m (p # al) zs (Forked i p)" i p may] by simp
  moreover have "mstep may (at m (p # al) zs (Loaded i p ?n))
      (at (m\<lparr>mg_workers_count := ?n + 1\<rparr>) (p # al) zs (Counted i p))"
    using mstep.Store [of "at m (p # al) zs (Loaded i p ?n)" i p ?n may] by simp
  moreover have "mstep may (at (m\<lparr>mg_workers_count := ?n + 1\<rparr>) (p # al) zs (Counted i p))
      (at m' (p # al) zs (At (i + 1)))"
    using mstep.Record [of "at (m\<lparr>mg_workers_count := ?n + 1\<rparr>) (p # al) zs (Counted i p)" i p may]
      assms(5) by (simp add: spawn_worker_steps)
  ultimately show ?thesis by (meson reachable.intros)
qed

text \<open>One run of the inner loop from the entry \<open>k\<close>.\<close>

lemma respawn_steps:
  assumes "forks_fresh fork used" and "respawn fork (map of_nat [k..<n]) m w = Manager_at m' w'"
    and "n = unat (mg_max_workers m)" and "k \<le> n" and "used w = set al \<union> set zs"
  shows "\<exists>al'. reachable may (at m al zs (At (of_nat k))) (at m' al' zs Test) \<and>
    used w' = set al' \<union> set zs \<and> mg_max_workers m' = mg_max_workers m"
  using assms(2-5)
proof (induction "n - k" arbitrary: k m w al)
  case 0
  then have k: "k = n" by simp
  then have "\<not> of_nat k < mg_max_workers m" using 0(3) by simp
  then have "mstep may (at m al zs (At (of_nat k))) (at m al zs Test)"
    using mstep.Again [of "at m al zs (At (of_nat k))" "of_nat k" may] by simp
  with 0 k show ?case by auto
next
  case (Suc d)
  then have k: "k < n" "d = n - Suc k" by simp_all
  then have up: "[k..<n] = k # [Suc k..<n]" by (simp add: upt_conv_Cons)
  have "k < 2 ^ 32"
    using k(1) Suc.prems(2) unsigned_less [where 'a = nat and w = "mg_max_workers m"] by simp
  then have uk: "unat (of_nat k :: u32) = k" by (simp add: unat_of_nat_small)
  then have lt: "(of_nat k :: u32) < mg_max_workers m" using k(1) Suc.prems(2) by (simp add: word_less_nat_alt)
  have next_k: "of_nat k + 1 = (of_nat (Suc k) :: u32)" by simp
  let ?y = "at m al zs (At (of_nat k))"
  show ?case
  proof (cases "wp_pid (mg_pool m ! k) = 0")
    case False
    then have "respawn fork (map of_nat [Suc k..<n]) m w = Manager_at m' w'"
      using Suc.prems(1) up uk by simp
    from Suc.hyps(1) [OF k(2) this Suc.prems(2) _ Suc.prems(4)] k(1) obtain al' where
      r: "reachable may (at m al zs (At (of_nat (Suc k)))) (at m' al' zs Test)"
        "used w' = set al' \<union> set zs" "mg_max_workers m' = mg_max_workers m" by auto
    have "mstep may ?y (at m al zs (At (of_nat (Suc k))))"
      using mstep.Skip [of ?y "of_nat k" may] lt uk False next_k by (simp del: of_nat_Suc)
    with r reachable_trans show ?thesis by blast
  next
    case free: True
    obtain fr w1 where fk: "fork w = (fr, w1)" by fastforce
    note ff = assms(1) [unfolded forks_fresh_def, rule_format, of w, unfolded fk prod.case]
    show ?thesis
    proof (cases fr)
      case Fork_error
      then have "respawn fork (map of_nat [Suc k..<n]) m w1 = Manager_at m' w'"
        using Suc.prems(1) up uk free fk by (simp add: spawn_worker_def)
      moreover have "used w1 = set al \<union> set zs" using ff Fork_error Suc.prems(4) by simp
      ultimately obtain al' where
        r: "reachable may (at m al zs (At (of_nat (Suc k)))) (at m' al' zs Test)"
          "used w' = set al' \<union> set zs" "mg_max_workers m' = mg_max_workers m"
        using Suc.hyps(1) [OF k(2), of m w1 al] Suc.prems(2) k(1) by auto
      have "mstep may ?y (at m al zs (At (of_nat (Suc k))))"
        using mstep.Fork_fails [of ?y "of_nat k" may] lt uk free next_k by (simp del: of_nat_Suc)
      with r reachable_trans show ?thesis by blast
    next
      case Fork_child
      with Suc.prems(1) up uk free fk show ?thesis by (simp add: spawn_worker_def)
    next
      case (Fork_parent p)
      obtain m1 where m1: "spawn_worker (of_nat k) (Fork_parent p) m = Spawned m1"
          "mg_max_workers m1 = mg_max_workers m"
        by (simp add: spawn_worker_def)
      then have "respawn fork (map of_nat [Suc k..<n]) m1 w1 = Manager_at m' w'"
        using Suc.prems(1) up uk free fk Fork_parent by simp
      moreover have "used w1 = set (p # al) \<union> set zs" "0 < p" "p \<notin> set al \<union> set zs"
        using ff Fork_parent Suc.prems(4) by auto
      ultimately obtain al' where
        r: "reachable may (at m1 (p # al) zs (At (of_nat (Suc k)))) (at m' al' zs Test)"
          "used w' = set al' \<union> set zs" "mg_max_workers m' = mg_max_workers m"
        using Suc.hyps(1) [OF k(2), of m1 w1 "p # al"] Suc.prems(2) k(1) m1(2) by auto
      have "reachable may ?y (at m1 (p # al) zs (At (of_nat k + 1)))"
        using spawn_steps [OF lt _ \<open>0 < p\<close> \<open>p \<notin> set al \<union> set zs\<close> m1(1)] free uk by simp
      then have "reachable may ?y (at m1 (p # al) zs (At (of_nat (Suc k))))"
        unfolding next_k .
      with r reachable_trans show ?thesis by blast
    qed
  qed
qed

lemma manage_loop_steps:
  assumes "forks_fresh fork used" and "manage_loop fork m w = Some (Manager_at m' w')"
    and "used w = set al \<union> set zs"
  shows "\<exists>al'. reachable may (at m al zs Test) (at m' al' zs Leaving) \<and> used w' = set al' \<union> set zs"
proof -
  define P where "P = (\<lambda>fork' m w r. fork' = fork \<longrightarrow> r = Manager_at m' w' \<longrightarrow> (\<forall>al. used w = set al \<union> set zs \<longrightarrow>
      (\<exists>al'. reachable may (at m al zs Test) (at m' al' zs Leaving) \<and> used w' = set al' \<union> set zs)))"
  have "P fork m w (Manager_at m' w')"
  proof (rule manage_loop.raw_induct [where P = P, OF _ assms(2)])
    fix loop fork' m w r
    assume IH: "\<And>fork' m w r. loop fork' m w = Some r \<Longrightarrow> P fork' m w r"
      and body: "(if mg_workers_count m = mg_max_workers m then Some (Manager_at m w)
        else case respawn fork' (worker_ids (mg_max_workers m)) m w of
             Manager_at m' w' \<Rightarrow> loop fork' m' w'
           | Child_at c w' \<Rightarrow> Some (Child_at c w')
           | Raised_at m' w' \<Rightarrow> Some (Raised_at m' w')) = Some r"
    show "P fork' m w r"
      unfolding P_def
    proof (intro impI allI)
      fix al
      assume f: "fork' = fork" and r: "r = Manager_at m' w'" and u: "used w = set al \<union> set zs"
      show "\<exists>al'. reachable may (at m al zs Test) (at m' al' zs Leaving) \<and> used w' = set al' \<union> set zs"
      proof (cases "mg_workers_count m = mg_max_workers m")
        case True
        then have "mstep may (at m al zs Test) (at m al zs Leaving)"
          using mstep.Return [of "at m al zs Test" may] by simp
        moreover have "m' = m" "w' = w" using body r True by simp_all
        ultimately show ?thesis using u by auto
      next
        case False
        then obtain m1 w1 where rs: "respawn fork (worker_ids (mg_max_workers m)) m w = Manager_at m1 w1"
            "loop fork m1 w1 = Some (Manager_at m' w')"
          using body r f by (auto split: pass.splits)
        obtain al1 where a: "reachable may (at m al zs (At (of_nat 0))) (at m1 al1 zs Test)"
            "used w1 = set al1 \<union> set zs"
          using respawn_steps [OF assms(1), of 0 "unat (mg_max_workers m)" m w m1 w1 al zs may] rs(1) u
          by (auto simp: worker_ids_def)
        have "mstep may (at m al zs Test) (at m al zs (At 0))"
          using mstep.Enter [of "at m al zs Test" may] False by simp
        then have "reachable may (at m al zs Test) (at m1 al1 zs Test)"
          using a(1) reachable_trans by fastforce
        moreover obtain al' where "reachable may (at m1 al1 zs Test) (at m' al' zs Leaving)"
            "used w' = set al' \<union> set zs"
          using IH [OF rs(2)] a(2) unfolding P_def by blast
        ultimately show ?thesis using reachable_trans by blast
      qed
    qed
  qed
  with assms(3) show ?thesis unfolding P_def by blast
qed

end
