(* ===== verification/Config.thy ===== *)
theory Config
  imports Prelude
begin

text \<open>
  \<open>bitz::Config\<close> (\<open>src/bitz/config.cpp\<close>, \<open>config.h\<close>). The parser \<open>libconfig\<close> is not under the
  repository: what it answers for a file is an argument, a record of its lookups. An uncaught
  exception inside a function declared \<open>throw()\<close> ends the process, as \<open>exit\<close> does; both are
  values of \<open>outcome\<close>.
\<close>

section \<open>What libconfig answers\<close>

text \<open>A lookup finds a value, raises \<open>SettingNotFoundException\<close>, or raises the type exception.\<close>

datatype 'a lookup = Found 'a | Missing | Bad_type

datatype read_result = File_ok | File_io_error | Parse_error

record module_setting =
  ms_name :: "string lookup"
  ms_module :: "string lookup"

record handler_setting =
  hs_handler :: "string lookup"
  hs_class :: "string lookup"
  hs_modules :: "module_setting list option"

record libconfig =
  lc_read :: read_result
  lc_int :: "string \<Rightarrow> int option"
  lc_string :: "string \<Rightarrow> string option"
  lc_handlers :: "handler_setting list option"
  lc_modules :: "(string \<Rightarrow> (string \<Rightarrow> string option) option) option"

section \<open>State\<close>

record modules_config_t =
  mc_name :: string
  mc_module :: string

text \<open>
  The count and the pointer of an entry are not set by \<open>new\<close>: the count starts as junk, the
  array as None.
\<close>

record req_handlers_config_t =
  rc_name :: string
  rc_class_name :: string
  rc_modules_count :: u32
  rc_modules :: "modules_config_t list option"

record config_t =
  c_port :: int
  c_max_workers :: int
  c_max_worker_requests :: int
  c_comm_timeout :: int
  c_pid_file :: string
  c_log_file :: string
  c_req_handlers :: "req_handlers_config_t list"

datatype 'a outcome = Done 'a | Exit_failure | Aborted

definition new_config :: config_t where
  "new_config =
     \<lparr>c_port = 1344, c_max_workers = 0, c_max_worker_requests = 0, c_comm_timeout = 0,
      c_pid_file = ''/dev/null'', c_log_file = ''/dev/null'', c_req_handlers = []\<rparr>"

section \<open>Reading the request handlers\<close>

text \<open>How a run of lookups ends: all of them made, one not found, or the process gone.\<close>

datatype load_end = All_read | Not_found | Terminated

definition blank_module :: modules_config_t where
  "blank_module = \<lparr>mc_name = [], mc_module = []\<rparr>"

fun read_modules :: "module_setting list \<Rightarrow> modules_config_t list \<times> load_end" where
  "read_modules [] = ([], All_read)"
| "read_modules (m # ms) =
     (let blanks = map (\<lambda>_. blank_module) ms
      in case ms_name m of
           Bad_type \<Rightarrow> (blank_module # blanks, Terminated)
         | Missing \<Rightarrow> (blank_module # blanks, Not_found)
         | Found nm \<Rightarrow>
             case ms_module m of
               Bad_type \<Rightarrow> (blank_module\<lparr>mc_name := nm\<rparr> # blanks, Terminated)
             | Missing \<Rightarrow> (blank_module\<lparr>mc_name := nm\<rparr> # blanks, Not_found)
             | Found md \<Rightarrow>
                 case read_modules ms of
                   (rest, e) \<Rightarrow> (\<lparr>mc_name = nm, mc_module = md\<rparr> # rest, e))"

text \<open>The entry \<open>new req_handlers_config_t[ n ]\<close> makes, with a count of its own.\<close>

definition blank_handler :: "u32 \<Rightarrow> req_handlers_config_t" where
  "blank_handler junk =
     \<lparr>rc_name = [], rc_class_name = [], rc_modules_count = junk, rc_modules = None\<rparr>"

definition read_handler :: "u32 \<Rightarrow> handler_setting \<Rightarrow> req_handlers_config_t \<times> load_end" where
  "read_handler junk h =
     (let e = blank_handler junk
      in case hs_handler h of
           Bad_type \<Rightarrow> (e, Terminated)
         | Missing \<Rightarrow> (e, Not_found)
         | Found nm \<Rightarrow>
             let e = e\<lparr>rc_name := nm\<rparr>
             in case hs_class h of
                  Bad_type \<Rightarrow> (e, Terminated)
                | Missing \<Rightarrow> (e, Not_found)
                | Found cl \<Rightarrow>
                    let e = e\<lparr>rc_class_name := cl\<rparr>
                    in case hs_modules h of
                         None \<Rightarrow> (e, All_read)
                       | Some ms \<Rightarrow>
                           case read_modules ms of
                             (mods, en) \<Rightarrow>
                               (e\<lparr>rc_modules_count := of_nat (length ms), rc_modules := Some mods\<rparr>, en))"

fun read_handlers :: "(nat \<Rightarrow> u32) \<Rightarrow> nat \<Rightarrow> handler_setting list \<Rightarrow>
    req_handlers_config_t list \<times> load_end" where
  "read_handlers junk i [] = ([], All_read)"
| "read_handlers junk i (h # hs) =
     (case read_handler (junk i) h of
        (e, All_read) \<Rightarrow>
          (case read_handlers junk (Suc i) hs of (es, en) \<Rightarrow> (e # es, en))
      | (e, en) \<Rightarrow> (e # map (\<lambda>j. blank_handler (junk j)) [Suc i..<Suc i + length hs], en))"

definition read_req_handler_configs :: "(nat \<Rightarrow> u32) \<Rightarrow> libconfig \<Rightarrow> config_t \<Rightarrow> config_t outcome" where
  "read_req_handler_configs junk lc c =
     (case lc_handlers lc of
        None \<Rightarrow> Done c
      | Some hs \<Rightarrow>
          case read_handlers junk 0 hs of
            (es, en) \<Rightarrow> if en = Terminated then Aborted else Done (c\<lparr>c_req_handlers := es\<rparr>))"

section \<open>The other operations\<close>

text \<open>\<open>lookupValue\<close> leaves its argument alone when there is no such value.\<close>

definition lookup_value :: "'a option \<Rightarrow> 'a \<Rightarrow> 'a" where
  "lookup_value r old = (case r of None \<Rightarrow> old | Some v \<Rightarrow> v)"

definition initialise :: "(nat \<Rightarrow> u32) \<Rightarrow> libconfig \<Rightarrow> config_t \<Rightarrow> config_t outcome" where
  "initialise junk lc c =
     (if lc_read lc \<noteq> File_ok then Exit_failure
      else read_req_handler_configs junk lc
        (c\<lparr>c_port := lookup_value (lc_int lc ''port'') (c_port c),
           c_pid_file := lookup_value (lc_string lc ''pid_file'') (c_pid_file c),
           c_log_file := lookup_value (lc_string lc ''log_file'') (c_log_file c),
           c_max_workers := lookup_value (lc_int lc ''max_workers'') (c_max_workers c),
           c_max_worker_requests :=
             lookup_value (lc_int lc ''max_worker_requests'') (c_max_worker_requests c),
           c_comm_timeout := lookup_value (lc_int lc ''comm_timeout'') (c_comm_timeout c)\<rparr>))"

definition module_config :: "libconfig \<Rightarrow> string \<Rightarrow> string \<Rightarrow> string" where
  "module_config lc mdl config =
     (case lc_modules lc of
        None \<Rightarrow> []
      | Some look \<Rightarrow>
          case look mdl of
            None \<Rightarrow> []
          | Some setting \<Rightarrow> lookup_value (setting config) [])"

section \<open>Properties\<close>

lemma length_read_modules [simp]: "length (fst (read_modules ms)) = length ms"
  by (induction ms) (auto simp: Let_def split: lookup.splits prod.splits)

lemma read_modules_all:
  "snd (read_modules ms) = All_read \<Longrightarrow>
    map (\<lambda>m. (Found (mc_name m), Found (mc_module m))) (fst (read_modules ms)) =
    map (\<lambda>m. (ms_name m, ms_module m)) ms"
  by (induction ms) (auto simp: Let_def split: lookup.splits prod.splits)

lemma length_read_handlers [simp]: "length (fst (read_handlers junk i hs)) = length hs"
proof (induction hs arbitrary: i)
  case (Cons h hs)
  obtain e en where r: "read_handler (junk i) h = (e, en)" by fastforce
  obtain es en2 where r2: "read_handlers junk (Suc i) hs = (es, en2)" by fastforce
  have "length es = length hs" using Cons [of "Suc i"] r2 by simp
  then show ?case
    using r r2 by (cases en) (simp_all del: upt_Suc)
qed simp

text \<open>An entry the loader may be given: the count is the number of modules the array has.\<close>

definition entry_ok :: "req_handlers_config_t \<Rightarrow> bool" where
  "entry_ok e \<longleftrightarrow>
     (case rc_modules e of
        None \<Rightarrow> rc_modules_count e = 0
      | Some ms \<Rightarrow> unat (rc_modules_count e) = length ms)"

lemma read_handler_entry:
  assumes "\<forall>ms. hs_modules h = Some ms \<longrightarrow> length ms < 2 ^ 32"
    and "hs_modules h \<noteq> None \<and> snd (read_handler junk h) = All_read \<or> junk = 0"
  shows "entry_ok (fst (read_handler junk h))"
proof (cases "hs_modules h")
  case None
  with assms(2) show ?thesis
    by (auto simp: read_handler_def entry_ok_def blank_handler_def Let_def split: lookup.splits)
next
  case (Some ms)
  then have "length ms < 2 ^ 32" using assms(1) by simp
  then have "unat (of_nat (length ms) :: u32) = length (fst (read_modules ms))"
    by (simp add: unat_of_nat_small)
  moreover obtain mods en where "read_modules ms = (mods, en)" by fastforce
  ultimately show ?thesis using Some assms(2)
    by (auto simp: read_handler_def entry_ok_def blank_handler_def Let_def
        split: lookup.splits prod.splits)
qed

lemma read_handlers_entries:
  assumes "snd (read_handlers junk i hs) = All_read"
    and "\<forall>h\<in>set hs. \<exists>ms. hs_modules h = Some ms \<and> length ms < 2 ^ 32"
  shows "\<forall>e\<in>set (fst (read_handlers junk i hs)). entry_ok e"
  using assms
proof (induction hs arbitrary: i)
  case (Cons h hs)
  obtain e en where r: "read_handler (junk i) h = (e, en)" by fastforce
  then have en: "en = All_read" using Cons.prems(1) by (cases en) auto
  obtain es en2 where r2: "read_handlers junk (Suc i) hs = (es, en2)" by fastforce
  have "entry_ok e"
    using read_handler_entry [of h "junk i"] Cons.prems(2) r en by auto
  moreover have "\<forall>e\<in>set es. entry_ok e"
    using Cons.IH [of "Suc i"] Cons.prems r r2 en by auto
  ultimately show ?case using r r2 en by simp
qed simp

lemma read_handlers_counts:
  assumes "snd (read_handlers junk i hs) = All_read"
    and "\<forall>h\<in>set hs. \<exists>ms. hs_modules h = Some ms \<and> length ms < 2 ^ 31"
  shows "\<forall>e\<in>set (fst (read_handlers junk i hs)). unat (rc_modules_count e) < 2 ^ 31"
  using assms
proof (induction hs arbitrary: i)
  case (Cons h hs)
  obtain e en where r: "read_handler (junk i) h = (e, en)" by fastforce
  then have en: "en = All_read" using Cons.prems(1) by (cases en) auto
  obtain es en2 where r2: "read_handlers junk (Suc i) hs = (es, en2)" by fastforce
  obtain ms where ms: "hs_modules h = Some ms" "length ms < 2 ^ 31" using Cons.prems(2) by auto
  have "rc_modules_count e = of_nat (length ms)"
    using r en ms(1) by (auto simp: read_handler_def Let_def split: lookup.splits prod.splits)
  then have "unat (rc_modules_count e) = length ms"
    using ms(2) unat_of_nat_small [of "length ms"] by simp
  moreover have "\<forall>e\<in>set es. unat (rc_modules_count e) < 2 ^ 31"
    using Cons.IH [of "Suc i"] Cons.prems r r2 en by auto
  ultimately show ?case using r r2 en ms(2) by simp
qed simp

end
