(* ===== verification/BitzUtil.thy ===== *)
theory BitzUtil
  imports Prelude
begin

text \<open>
  The path functions of \<open>src/bitz/util.cpp\<close>. \<open>mkdir\<close> is the system's: an argument over an
  abstract file system \<open>'fs\<close>. The recursion of \<open>mkdirp\<close> need not end, so it is a partial
  function, None being the run that does not return.
\<close>

section \<open>Paths\<close>

definition dirpath :: "string \<Rightarrow> string" where
  "dirpath path = substr path 0 (find_last_of path CHR ''/'')"

text \<open>\<open>substr( npos )\<close> raises in a function that must not: None.\<close>

definition filename :: "string \<Rightarrow> string option" where
  "filename path =
     (case find_last_of path CHR ''/'' of
        None \<Rightarrow> None
      | Some i \<Rightarrow> Some (substr path i None))"

section \<open>Creating directories\<close>

datatype mkdir_result = Mk_ok | Mk_noent | Mk_exist | Mk_other

partial_function (option) mkdirp ::
  "(string \<Rightarrow> 'fs \<Rightarrow> mkdir_result \<times> 'fs) \<Rightarrow> string \<Rightarrow> 'fs \<Rightarrow> (bool \<times> 'fs) option" where
  "mkdirp mk path fs =
     (case mk path fs of
        (Mk_ok, fs1) \<Rightarrow> Some (True, fs1)
      | (Mk_exist, fs1) \<Rightarrow> Some (True, fs1)
      | (Mk_other, fs1) \<Rightarrow> Some (False, fs1)
      | (Mk_noent, fs1) \<Rightarrow>
          Option.bind (mkdirp mk (dirpath path) fs1)
            (\<lambda>(parent, fs2).
               if parent then (case mk path fs2 of (r, fs3) \<Rightarrow> Some (r = Mk_ok, fs3))
               else Some (False, fs2)))"

section \<open>Properties of paths\<close>

lemma find_last_of_append:
  assumes "c \<notin> set f"
  shows "find_last_of (d @ c # f) c = Some (length d)"
proof -
  have "\<forall>x\<in>set (rev f). x \<noteq> c" using assms by auto
  then have "takeWhile (\<lambda>x. x \<noteq> c) (rev f @ c # rev d) = rev f"
    by (intro takeWhile_append_stop) auto
  then show ?thesis by (simp add: find_last_of_def index_from_takeWhile)
qed

lemma find_last_of_none: "c \<notin> set p \<Longrightarrow> find_last_of p c = None"
  by (auto simp: find_last_of_def index_from_None)

lemma dirpath_append: "CHR ''/'' \<notin> set f \<Longrightarrow> dirpath (d @ ''/'' @ f) = d"
  using find_last_of_append [of "CHR ''/''" f d] by (simp add: dirpath_def substr_def)

lemma dirpath_plain: "CHR ''/'' \<notin> set p \<Longrightarrow> dirpath p = p"
  by (simp add: dirpath_def substr_def find_last_of_none)

lemma filename_append: "CHR ''/'' \<notin> set f \<Longrightarrow> filename (d @ ''/'' @ f) = Some (''/'' @ f)"
  using find_last_of_append [of "CHR ''/''" f d] by (simp add: filename_def substr_def)

lemma split_path:
  assumes "CHR ''/'' \<in> set p"
  obtains d f where "p = d @ ''/'' @ f" and "CHR ''/'' \<notin> set f"
  using assms by (metis append_Cons append_Nil split_list_last)

lemma dirpath_shorter: "CHR ''/'' \<in> set p \<Longrightarrow> length (dirpath p) < length p"
  by (metis dirpath_append split_path length_append length_Cons append_Cons append_Nil
      add_less_cancel_left less_add_Suc1 add_Suc_right)

section \<open>mkdirp\<close>

text \<open>
  The system's \<open>mkdir\<close>: \<open>ENOENT\<close> on an absolute path means that a parent other than the root
  is missing; after success or \<open>EEXIST\<close> the path exists (after \<open>EEXIST\<close> not necessarily as a
  directory), and no path goes away.
\<close>

definition mkdir_laws :: "(string \<Rightarrow> 'fs \<Rightarrow> mkdir_result \<times> 'fs) \<Rightarrow> (string \<Rightarrow> 'fs \<Rightarrow> bool) \<Rightarrow> bool" where
  "mkdir_laws mk path_exists \<longleftrightarrow>
     (\<forall>p fs r fs'. mk p fs = (r, fs') \<longrightarrow>
        (r \<in> {Mk_ok, Mk_exist} \<longrightarrow> path_exists p fs') \<and>
        (\<forall>q. path_exists q fs \<longrightarrow> path_exists q fs') \<and>
        (r = Mk_noent \<longrightarrow> (\<exists>c. p = CHR ''/'' # c) \<longrightarrow> dirpath p \<noteq> []))"

lemma dirpath_absolute:
  assumes "p = CHR ''/'' # c" and "dirpath p \<noteq> []"
  shows "\<exists>c'. dirpath p = CHR ''/'' # c'"
proof -
  obtain d f where p: "p = d @ ''/'' @ f" "CHR ''/'' \<notin> set f"
    using assms(1) split_path [of p] by auto
  then have "dirpath p = d" using dirpath_append [of f d] by simp
  with assms p show ?thesis by (cases d) auto
qed

text \<open>On an absolute path \<open>mkdirp\<close> returns, and true means that the path exists.\<close>

lemma mkdirp_absolute:
  assumes "mkdir_laws mk path_exists" and "path = CHR ''/'' # c"
  shows "\<exists>ok fs'. mkdirp mk path fs = Some (ok, fs') \<and> (ok \<longrightarrow> path_exists path fs') \<and>
    (\<forall>q. path_exists q fs \<longrightarrow> path_exists q fs')"
  using assms(2)
proof (induction "length path" arbitrary: path c fs rule: less_induct)
  case less
  have law: "mk p fs = (r, fs') \<Longrightarrow> (r \<in> {Mk_ok, Mk_exist} \<longrightarrow> path_exists p fs') \<and>
      (\<forall>q. path_exists q fs \<longrightarrow> path_exists q fs') \<and>
      (r = Mk_noent \<longrightarrow> (\<exists>c. p = CHR ''/'' # c) \<longrightarrow> dirpath p \<noteq> [])" for p fs r fs'
    using assms(1) unfolding mkdir_laws_def by blast
  obtain r fs1 where mk: "mk path fs = (r, fs1)" by fastforce
  note l1 = law [OF mk]
  show ?case
  proof (cases "r = Mk_noent")
    case False
    with mk l1 show ?thesis by (cases r) (auto simp: mkdirp.simps [of mk path fs])
  next
    case True
    then obtain c' where c': "dirpath path = CHR ''/'' # c'"
      using l1 less.prems dirpath_absolute by blast
    have "length (dirpath path) < length path" using less.prems by (intro dirpath_shorter) simp
    from less.hyps [OF this c', of fs1] obtain ok fs2 where
      rec: "mkdirp mk (dirpath path) fs1 = Some (ok, fs2)" "\<forall>q. path_exists q fs1 \<longrightarrow> path_exists q fs2"
      by blast
    obtain r2 fs3 where mk2: "mk path fs2 = (r2, fs3)" by fastforce
    note l2 = law [OF mk2]
    show ?thesis
      using mk True rec mk2 l1 l2 by (cases ok) (auto simp: mkdirp.simps [of mk path fs])
  qed
qed

text \<open>
  The empty path is its own parent: when the system answers \<open>ENOENT\<close>, as it must, \<open>mkdirp\<close>
  never returns. It is the directory of every file in the root.
\<close>

lemma mkdirp_empty:
  assumes "\<And>fs. mk [] fs = (Mk_noent, fs)"
  shows "mkdirp mk [] fs = None"
proof (rule ccontr)
  assume "mkdirp mk [] fs \<noteq> None"
  then obtain r where r: "mkdirp mk [] fs = Some r" by blast
  have "p \<noteq> []" if "mkdirp mk p fs = Some r" for p fs r
  proof (rule mkdirp.raw_induct [where P = "\<lambda>mk' p fs r. mk' = mk \<longrightarrow> p \<noteq> []", rule_format, OF _ that])
    fix f :: "(string \<Rightarrow> 'a \<Rightarrow> mkdir_result \<times> 'a) \<Rightarrow> string \<Rightarrow> 'a \<Rightarrow> (bool \<times> 'a) option"
    fix mk' p fs r
    assume IH: "\<And>mk' p fs r. f mk' p fs = Some r \<Longrightarrow> mk' = mk \<Longrightarrow> p \<noteq> []"
      and body: "(case mk' p fs of
        (Mk_ok, fs1) \<Rightarrow> Some (True, fs1)
      | (Mk_noent, fs1) \<Rightarrow>
          Option.bind (f mk' (dirpath p) fs1)
            (\<lambda>(parent, fs2).
               if parent then (case mk' p fs2 of (r, fs3) \<Rightarrow> Some (r = Mk_ok, fs3))
               else Some (False, fs2))
      | (Mk_exist, fs1) \<Rightarrow> Some (True, fs1)
      | (Mk_other, fs1) \<Rightarrow> Some (False, fs1)) = Some r"
      and mk: "mk' = mk"
    show "p \<noteq> []"
    proof
      assume p: "p = []"
      have "dirpath [] = []" by (rule dirpath_plain) simp
      then have "f mk [] fs \<noteq> None"
        using body mk p assms by (cases "f mk [] fs") auto
      then show False using IH [of mk "[]" fs] by auto
    qed
  qed simp
  from this [OF r] show False by simp
qed

lemma dirpath_root_file: "CHR ''/'' \<notin> set f \<Longrightarrow> dirpath (''/'' @ f) = []"
  using dirpath_append [of f "[]"] by simp

end
