(* ===== verification/Server.thy ===== *)
theory Server
  imports Reaper Config BitzUtil
begin

text \<open>
  The process around the manager: \<open>src/bitz-server.cpp\<close> (globals, signal handlers, start, the
  main loop, the options) and \<open>src/main.cpp\<close> up to the start of the server. System calls are
  arguments or events; a run that uses a deleted manager is None.
\<close>

section \<open>Globals\<close>

text \<open>A pointer that \<open>delete\<close> does not set to null dangles.\<close>

datatype 'a ptr = Null | Live 'a | Dangling

record server_t =
  sv_pid :: int
  sv_pidfd :: int
  sv_terminating :: bool
  sv_daemon :: bool
  sv_manager :: "manager_t ptr"

definition init :: server_t where
  "init = \<lparr>sv_pid = - 1, sv_pidfd = - 1, sv_terminating = False, sv_daemon = False, sv_manager = Null\<rparr>"

section \<open>Signal handlers\<close>

text \<open>\<open>sigchld_handler\<close>: the children \<open>waitpid\<close> returns, one after another.\<close>

fun sigchld_handler :: "int list \<Rightarrow> server_t \<Rightarrow> server_t option" where
  "sigchld_handler [] sv = Some sv"
| "sigchld_handler (worker_pid # ps) sv =
     (case sv_manager sv of
        Null \<Rightarrow> sigchld_handler ps sv
      | Live m \<Rightarrow> sigchld_handler ps (sv\<lparr>sv_manager := Live (reap_worker worker_pid m)\<rparr>)
      | Dangling \<Rightarrow> None)"

datatype sv_action =
    Raise_handled      \<comment> \<open>\<open>raise( sig )\<close> while the handler is installed; all signals are blocked\<close>
  | Manager_action action
  | Close_pidfd int
  | Raise_default      \<comment> \<open>\<open>raise( sig )\<close> with the default action back in place\<close>

definition shutdown_server :: "server_t \<Rightarrow> sv_action list" where
  "shutdown_server sv = (if sv_pidfd sv \<noteq> - 1 then [Close_pidfd (sv_pidfd sv)] else [])"

definition termination_handler :: "server_t \<Rightarrow> (server_t \<times> sv_action list) option" where
  "termination_handler sv =
     (let acts = (if sv_terminating sv then [Raise_handled] else []);
          sv = sv\<lparr>sv_terminating := True\<rparr>
      in case sv_manager sv of
           Null \<Rightarrow> Some (sv, acts @ shutdown_server sv @ [Raise_default])
         | Live m \<Rightarrow>
             Some (sv\<lparr>sv_manager := Dangling\<rparr>,
               acts @ map Manager_action (shutdown True m) @ shutdown_server sv @ [Raise_default])
         | Dangling \<Rightarrow> None)"

section \<open>Starting and running\<close>

definition start :: "('w \<Rightarrow> fork_result \<times> 'w) \<Rightarrow> bool \<Rightarrow> (nat \<Rightarrow> worker_pool_t) \<Rightarrow> config_t \<Rightarrow>
    server_t \<Rightarrow> 'w \<Rightarrow> (server_t \<times> 'w) outcome + manager_t" where
  "start fork listening junk c sv w =
     (case new_manager listening of
        None \<Rightarrow> Inl Exit_failure
      | Some m \<Rightarrow>
          case spawn fork junk (of_int (c_max_workers c)) (of_int (c_max_worker_requests c))
                 (of_int (c_comm_timeout c)) m w of
            Manager_at m' w' \<Rightarrow> Inl (Done (sv\<lparr>sv_manager := Live m'\<rparr>, w'))
          | Raised_at _ _ \<Rightarrow> Inl Exit_failure
          | Child_at ch _ \<Rightarrow> Inr ch)"

text \<open>
  The loop of \<open>run\<close>, a list of events deciding what happens next: the process executes one more
  step, the \<open>SIGCHLD\<close> handler runs and \<open>waitpid\<close> gives it these children, or a termination signal
  arrives. Every event may come at every program point (the points are those of \<open>Reaper\<close>); both
  handlers block all signals, so each runs as a whole. \<open>SIGCHLD\<close> is never blocked. The termination
  signals are blocked from the end of \<open>manage_workers\<close> to \<open>sigsuspend\<close>, and from the return of
  \<open>sigsuspend\<close> to \<open>sigprocmask\<close>; one that arrives then is pending until they are unblocked. The
  termination signals of a schedule are of one number: one of another number that arrives before the
  handler has ended the process enters the handler a second time (\<open>termination_twice\<close>).
\<close>

datatype event = Step | Sig_child "int list" | Sig_term

record running =
  rn_server :: server_t
  rn_point :: point
  rn_blocked :: bool      \<comment> \<open>the termination signals are in the mask\<close>
  rn_term :: bool         \<comment> \<open>one of them is pending\<close>

datatype 'w run_end =
    Goes_on running 'w
  | Returned server_t 'w
  | Terminated_by server_t "sv_action list"
  | In_worker manager_t
  | Undefined

text \<open>\<open>sigsuspend\<close> returns when a handler that interrupted it returns, with the mask from before.\<close>

definition after_handler :: "running \<Rightarrow> running" where
  "after_handler r = (if rn_point r = Suspended then r\<lparr>rn_point := Woken, rn_blocked := True\<rparr> else r)"

text \<open>
  The termination handler. A signal raised in it is blocked there, and so is pending when it
  returns; with the default action back in place it ends the process then.
\<close>

definition take_termination :: "running \<Rightarrow> 'w \<Rightarrow> 'w run_end" where
  "take_termination r w =
     (case termination_handler (rn_server r) of
        None \<Rightarrow> Undefined
      | Some (sv, acts) \<Rightarrow>
          if Raise_default \<in> set acts then Terminated_by sv acts
          else Goes_on (after_handler (r\<lparr>rn_server := sv\<rparr>)) w)"

definition unblock :: "running \<Rightarrow> 'w \<Rightarrow> 'w run_end" where
  "unblock r w =
     (if rn_term r then take_termination (r\<lparr>rn_blocked := False, rn_term := False\<rparr>) w
      else Goes_on (r\<lparr>rn_blocked := False\<rparr>) w)"

text \<open>
  A step of \<open>manage_workers\<close>, with \<open>spawn_worker\<close> in it: the tests and the read and the write of
  \<open>workers_count++\<close> are steps of their own. In the child of a \<open>fork\<close> the process is a worker.
\<close>

fun manager_step :: "('w \<Rightarrow> fork_result \<times> 'w) \<Rightarrow> manager_t \<Rightarrow> point \<Rightarrow> 'w \<Rightarrow>
    (manager_t \<times> point \<times> 'w) + manager_t" where
  "manager_step fork m Test w = Inl (m, if mg_workers_count m = mg_max_workers m then Leaving else At 0, w)"
| "manager_step fork m (At i) w =
     (if i < mg_max_workers m then
        if wp_pid (mg_pool m ! unat i) = 0 then
          (case fork w of
             (Fork_error, w') \<Rightarrow> Inl (m, At (i + 1), w')
           | (Fork_child, w') \<Rightarrow> Inr (m\<lparr>mg_worker := True, mg_worker_id := i,
               mg_pool := (mg_pool m)[unat i := \<lparr>wp_pid = 0, wp_id = i, wp_worker = True\<rparr>]\<rparr>)
           | (Fork_parent p, w') \<Rightarrow> Inl (m, Forked i p, w'))
        else Inl (m, At (i + 1), w)
      else Inl (m, Test, w))"
| "manager_step fork m (Forked i p) w = Inl (m, Loaded i p (mg_workers_count m), w)"
| "manager_step fork m (Loaded i p n) w = Inl (m\<lparr>mg_workers_count := n + 1\<rparr>, Counted i p, w)"
| "manager_step fork m (Counted i p) w = Inl (record_worker i p m, At (i + 1), w)"
| "manager_step fork m pt w = Inl (m, pt, w)"

text \<open>
  A step of the process: it sleeps in \<open>sigsuspend\<close>; it unblocks the termination signals and calls
  \<open>manage_workers\<close>, which returns at once in a worker; it blocks them, tests \<open>terminating\<close> and goes
  to sleep; or it is in \<open>manage_workers\<close>.
\<close>

definition process_step :: "('w \<Rightarrow> fork_result \<times> 'w) \<Rightarrow> running \<Rightarrow> 'w \<Rightarrow> 'w run_end" where
  "process_step fork r w =
     (case rn_point r of
        Suspended \<Rightarrow> Goes_on r w
      | Woken \<Rightarrow>
          (case sv_manager (rn_server r) of
             Live m \<Rightarrow> unblock (r\<lparr>rn_point := if mg_worker m then Leaving else Test\<rparr>) w
           | _ \<Rightarrow> Undefined)
      | Leaving \<Rightarrow>
          if \<not> rn_blocked r then Goes_on (r\<lparr>rn_blocked := True\<rparr>) w
          else if sv_terminating (rn_server r) then Returned (rn_server r) w
          else unblock (r\<lparr>rn_point := Suspended\<rparr>) w
      | pt \<Rightarrow>
          (case sv_manager (rn_server r) of
             Live m \<Rightarrow>
               (case manager_step fork m pt w of
                  Inl (m', pt', w') \<Rightarrow>
                    Goes_on (r\<lparr>rn_server := (rn_server r)\<lparr>sv_manager := Live m'\<rparr>, rn_point := pt'\<rparr>) w'
                | Inr ch \<Rightarrow> In_worker ch)
           | _ \<Rightarrow> Undefined))"

fun server_event :: "('w \<Rightarrow> fork_result \<times> 'w) \<Rightarrow> event \<Rightarrow> running \<Rightarrow> 'w \<Rightarrow> 'w run_end" where
  "server_event fork Step r w = process_step fork r w"
| "server_event fork (Sig_child ps) r w =
     (case sigchld_handler ps (rn_server r) of
        None \<Rightarrow> Undefined
      | Some sv \<Rightarrow> Goes_on (after_handler (r\<lparr>rn_server := sv\<rparr>)) w)"
| "server_event fork Sig_term r w =
     (if rn_blocked r then Goes_on (r\<lparr>rn_term := True\<rparr>) w else take_termination r w)"

fun run_loop :: "('w \<Rightarrow> fork_result \<times> 'w) \<Rightarrow> event list \<Rightarrow> running \<Rightarrow> 'w \<Rightarrow> 'w run_end" where
  "run_loop fork [] r w = Goes_on r w"
| "run_loop fork (e # es) r w =
     (case server_event fork e r w of Goes_on r' w' \<Rightarrow> run_loop fork es r' w' | x \<Rightarrow> x)"

text \<open>
  \<open>run\<close> returns at once when there is no manager. Otherwise it comes to the head of its loop with
  no signal blocked, which is where \<open>manage_workers\<close> leaves it too.
\<close>

definition entered :: "server_t \<Rightarrow> running" where
  "entered sv = \<lparr>rn_server = sv, rn_point = Leaving, rn_blocked = False, rn_term = False\<rparr>"

definition server_run :: "('w \<Rightarrow> fork_result \<times> 'w) \<Rightarrow> event list \<Rightarrow> server_t \<Rightarrow> 'w \<Rightarrow> 'w run_end" where
  "server_run fork es sv w =
     (if sv_manager sv = Null then Returned sv w else run_loop fork es (entered sv) w)"

section \<open>Options and directories\<close>

text \<open>What \<open>getopt_long\<close> returns, one call after another; \<open>--debug\<close> sets the flag itself.\<close>

datatype getopt = Opt_debug | Opt_config string | Opt_help | Opt_version | Opt_unknown

record options_t =
  o_debug_flag :: int
  o_config_file :: string

datatype options_end = Options options_t | Exit_success | Exit_usage

fun read_options_loop :: "getopt list \<Rightarrow> options_t \<Rightarrow> options_end" where
  "read_options_loop [] op = Options op"
| "read_options_loop (Opt_debug # gs) op = read_options_loop gs (op\<lparr>o_debug_flag := 1\<rparr>)"
| "read_options_loop (Opt_config optarg # gs) op = read_options_loop gs (op\<lparr>o_config_file := optarg\<rparr>)"
| "read_options_loop (Opt_help # gs) op = Exit_success"
| "read_options_loop (Opt_version # gs) op = Exit_success"
| "read_options_loop (Opt_unknown # gs) op = Exit_usage"

text \<open>The flag of the local \<open>options\<close> is not set before: it starts as junk.\<close>

definition read_options :: "int \<Rightarrow> getopt list \<Rightarrow> options_end" where
  "read_options junk gs = read_options_loop gs \<lparr>o_debug_flag = junk, o_config_file = []\<rparr>"

text \<open>
  What the options print before the process exits: nothing, the version, or the usage. The name
  and version of the package are the build's.
\<close>

definition output_lines :: "string list \<Rightarrow> string" where
  "output_lines ls = concat (map (\<lambda>l. l @ [LF]) ls)"

definition print_version :: "string \<Rightarrow> string" where
  "print_version package_string = output_lines
     [package_string, [],
      ''Copyright (C) 2012-2013 Uditha Atukorala'', [],
      ''This program is free software; you can redistribute it and/or modify'',
      ''it under the terms of the GNU General Public License as published by'',
      ''the Free Software Foundation; either version 3 of the License, or'',
      ''(at your option) any later version.'', [],
      ''This program is distributed in the hope that it will be useful,'',
      ''but WITHOUT ANY WARRANTY; without even the implied warranty of'',
      ''MERCHANTABILITY or FITNESS FOR A PARTICULAR PURPOSE.  See the'',
      ''GNU General Public License (http://gnu.org/licenses/gpl.html)'',
      ''for more details.'', []]"

definition print_usage :: "string \<Rightarrow> string" where
  "print_usage package_name = output_lines
     [''usage: '' @ package_name @ '' '' @
        ''[--version] [--help] [--usage] [--debug] [--config=<config file>]'', [],
      ''See the man pages for more information'']"

fun read_options_output :: "string \<Rightarrow> string \<Rightarrow> getopt list \<Rightarrow> string" where
  "read_options_output package_string package_name [] = []"
| "read_options_output package_string package_name (Opt_help # gs) = print_usage package_name"
| "read_options_output package_string package_name (Opt_version # gs) = print_version package_string"
| "read_options_output package_string package_name (Opt_unknown # gs) = print_usage package_name"
| "read_options_output package_string package_name (_ # gs) =
     read_options_output package_string package_name gs"

text \<open>Something is printed exactly when the program exits because of its options.\<close>

lemma output_on_exit:
  "read_options_output ps pn gs = [] \<longleftrightarrow> (\<exists>op. read_options junk gs = Options op)"
proof -
  have "read_options_output ps pn gs = [] \<longleftrightarrow> (\<exists>op'. read_options_loop gs op = Options op')" for op
    by (induction gs op rule: read_options_loop.induct)
      (simp_all add: print_version_def print_usage_def output_lines_def)
  then show ?thesis by (simp add: read_options_def)
qed

text \<open>\<open>main\<close>, the directories of the pid file and of the log; None: it never returns.\<close>

definition create_directories :: "(string \<Rightarrow> 'fs \<Rightarrow> mkdir_result \<times> 'fs) \<Rightarrow> options_t \<Rightarrow> config_t \<Rightarrow>
    'fs \<Rightarrow> 'fs outcome option" where
  "create_directories mk op c fs =
     (case (if o_debug_flag op \<noteq> 1 then mkdirp mk (dirpath (c_pid_file c)) fs else Some (True, fs)) of
        None \<Rightarrow> None
      | Some (ok, fs1) \<Rightarrow>
          if \<not> ok then Some Exit_failure
          else case mkdirp mk (dirpath (c_log_file c)) fs1 of
            None \<Rightarrow> None
          | Some (ok', fs2) \<Rightarrow> Some (if ok' then Done fs2 else Exit_failure))"

section \<open>Termination\<close>

lemma termination_twice:
  assumes "termination_handler sv = Some (sv', acts)" and "sv_manager sv = Live m"
  shows "termination_handler sv' = None"
  using assms by (auto simp: termination_handler_def Let_def)

section \<open>Starting up\<close>

definition settled :: "server_t \<Rightarrow> bool" where
  "settled sv \<longleftrightarrow> (\<exists>m. sv_manager sv = Live m \<and> pool_ok m \<and> mg_workers_count m = mg_max_workers m)"

lemma create_directories_root_pid:
  assumes "\<And>fs. mk [] fs = (Mk_noent, fs)" and "o_debug_flag op \<noteq> 1"
    and "c_pid_file c = ''/'' @ f" and "CHR ''/'' \<notin> set f"
  shows "create_directories mk op c fs = None"
  using assms mkdirp_empty [of mk, OF assms(1)] dirpath_root_file [of f]
  by (simp add: create_directories_def)

lemma start_fills:
  assumes "\<And>w. \<exists>p w'. fork w = (Fork_parent p, w') \<and> 0 < p"
  shows "\<exists>m w'. start fork True junk c sv w = Inl (Done (sv\<lparr>sv_manager := Live m\<rparr>, w')) \<and>
    mg_max_workers m = of_int (c_max_workers c) \<and> pool_ok m \<and> mg_workers_count m = mg_max_workers m"
proof -
  obtain m where m: "new_manager True = Some m" "mg_worker m = False" "mg_workers_count m = 0"
    by (simp add: new_manager_def)
  show ?thesis
    using spawn_all [of fork m junk "of_int (c_max_workers c)" "of_int (c_max_worker_requests c)"
        "of_int (c_comm_timeout c)" w, OF assms m(2,3)] m(1)
    by (auto simp: start_def)
qed

end
