(* ===== verification/OrderedMap.thy ===== *)
theory OrderedMap
  imports Prelude
begin

text \<open>
  \<open>std::map\<close>, as the sources use it for header fields, Encapsulated offsets, request
  handlers and status texts: an association list kept in strictly ascending key order, so
  that iterating it visits the keys in the order \<open>begin() .. end()\<close> does. Keys compare by
  the \<open>linorder\<close> of their type; for strings that is the lexicographic order on unsigned
  characters of \<open>std::less<std::string>\<close>.
  The locale \<open>std_map\<close> is the contract the clients rely on; it is interpreted below on
  the association lists.
\<close>

type_synonym ('k, 'v) smap = "('k \<times> 'v) list"

section \<open>Operations\<close>

text \<open>\<open>m.find( k )\<close> (None is \<open>m.end()\<close>), \<open>m[k] = v\<close> and \<open>m.erase( k )\<close>.\<close>

fun smap_find :: "'k \<Rightarrow> ('k, 'v) smap \<Rightarrow> 'v option" where
  "smap_find k [] = None"
| "smap_find k ((k', v) # m) = (if k' = k then Some v else smap_find k m)"

fun smap_set :: "'k::linorder \<Rightarrow> 'v \<Rightarrow> ('k, 'v) smap \<Rightarrow> ('k, 'v) smap" where
  "smap_set k v [] = [(k, v)]"
| "smap_set k v ((k', v') # m) =
     (if k < k' then (k, v) # (k', v') # m
      else if k = k' then (k, v) # m
      else (k', v') # smap_set k v m)"

fun smap_erase :: "'k \<Rightarrow> ('k, 'v) smap \<Rightarrow> ('k, 'v) smap" where
  "smap_erase k [] = []"
| "smap_erase k ((k', v) # m) = (if k' = k then m else (k', v) # smap_erase k m)"

text \<open>\<open>m[k]\<close> used as a value: the mapped value, or the type's default for a fresh key.\<close>

definition smap_at :: "'v \<Rightarrow> 'k \<Rightarrow> ('k, 'v) smap \<Rightarrow> 'v" where
  "smap_at d k m = (case smap_find k m of None \<Rightarrow> d | Some v \<Rightarrow> v)"

definition smap_ok :: "('k::linorder, 'v) smap \<Rightarrow> bool" where
  "smap_ok m \<longleftrightarrow> sorted_wrt (<) (map fst m)"

section \<open>The contract of a map\<close>

locale std_map =
  fixes empty :: "'m"
    and find :: "'k::linorder \<Rightarrow> 'm \<Rightarrow> 'v option"
    and put :: "'k \<Rightarrow> 'v \<Rightarrow> 'm \<Rightarrow> 'm"
    and erase :: "'k \<Rightarrow> 'm \<Rightarrow> 'm"
    and entries :: "'m \<Rightarrow> ('k \<times> 'v) list"
    and ok :: "'m \<Rightarrow> bool"
  assumes ok_empty: "ok empty"
    and ok_put: "ok m \<Longrightarrow> ok (put k v m)"
    and ok_erase: "ok m \<Longrightarrow> ok (erase k m)"
    and find_empty: "find k empty = None"
    and find_put: "ok m \<Longrightarrow> find k' (put k v m) = (if k' = k then Some v else find k' m)"
    and find_erase: "ok m \<Longrightarrow> find k' (erase k m) = (if k' = k then None else find k' m)"
    and entries_sorted: "ok m \<Longrightarrow> sorted_wrt (<) (map fst (entries m))"
    and entries_find: "ok m \<Longrightarrow> (k, v) \<in> set (entries m) \<longleftrightarrow> find k m = Some v"
begin

text \<open>A sequence of assignments, as a loop over pairs makes it.\<close>

lemma ok_puts: "ok m \<Longrightarrow> ok (fold (\<lambda>(k, v). put k v) kvs m)"
  by (induction kvs arbitrary: m) (auto simp: ok_put)

lemma find_puts:
  assumes "ok m"
  shows "find k (fold (\<lambda>(k, v). put k v) kvs m) =
    (case map_of (rev kvs) k of None \<Rightarrow> find k m | Some v \<Rightarrow> Some v)"
  using assms
proof (induction kvs arbitrary: m rule: list.induct)
  case Nil
  then show ?case by simp
next
  case (Cons kv kvs)
  obtain k1 v1 where kv: "kv = (k1, v1)" by (cases kv)
  have "ok (put k1 v1 m)" using Cons.prems by (rule ok_put)
  then show ?case
    using Cons.IH [of "put k1 v1 m"] Cons.prems kv
    by (auto simp: find_put map_add_def split: option.splits)
qed

text \<open>Two maps with the same lookups are iterated alike.\<close>

lemma entries_ext:
  assumes "ok m" and "ok m'" and "\<And>k. find k m = find k m'"
  shows "entries m = entries m'"
proof -
  have "set (entries m) = set (entries m')"
    using assms entries_find by auto
  moreover have "sorted (map fst (entries m))" "distinct (map fst (entries m))"
    using entries_sorted [OF assms(1)] by (auto simp: strict_sorted_iff)
  moreover have "sorted (map fst (entries m'))" "distinct (map fst (entries m'))"
    using entries_sorted [OF assms(2)] by (auto simp: strict_sorted_iff)
  ultimately show ?thesis
    by (intro map_sorted_distinct_set_unique [where f = fst]) (auto simp: distinct_map)
qed

end

section \<open>The association lists satisfy it\<close>

lemma smap_find_map_of: "smap_find k m = map_of m k"
  by (induction m) auto

lemma fst_set_smap_set: "fst ` set (smap_set k v m) = insert k (fst ` set m)"
  by (induction k v m rule: smap_set.induct) auto

lemma set_smap_set: "set (smap_set k v m) \<subseteq> insert (k, v) (set m)"
  by (induction k v m rule: smap_set.induct) auto

lemma set_smap_erase: "set (smap_erase k m) \<subseteq> set m"
  by (induction k m rule: smap_erase.induct) auto

lemma smap_ok_Nil [simp]: "smap_ok []"
  by (simp add: smap_ok_def)

lemma smap_ok_Cons: "smap_ok ((k, v) # m) \<longleftrightarrow> (\<forall>k'\<in>fst ` set m. k < k') \<and> smap_ok m"
  by (simp add: smap_ok_def)

lemma smap_ok_set: "smap_ok m \<Longrightarrow> smap_ok (smap_set k v m)"
  by (induction k v m rule: smap_set.induct)
    (auto simp: smap_ok_Cons fst_set_smap_set simp del: image_iff)

lemma smap_ok_erase: "smap_ok m \<Longrightarrow> smap_ok (smap_erase k m)"
proof (induction m)
  case (Cons kv m)
  then show ?case
    using set_smap_erase [of k m] by (cases kv) (auto simp: smap_ok_Cons)
qed simp

lemma smap_find_notin: "k \<notin> fst ` set m \<Longrightarrow> smap_find k m = None"
  by (simp add: smap_find_map_of map_of_eq_None_iff)

lemma smap_find_set: "smap_find k' (smap_set k v m) = (if k' = k then Some v else smap_find k' m)"
  by (induction k v m rule: smap_set.induct) auto

lemma smap_find_erase:
  "smap_ok m \<Longrightarrow> smap_find k' (smap_erase k m) = (if k' = k then None else smap_find k' m)"
proof (induction m)
  case (Cons kv m)
  obtain k1 v1 where kv: "kv = (k1, v1)" by (cases kv)
  have "smap_find k1 m = None"
    using Cons.prems kv by (intro smap_find_notin) (auto simp: smap_ok_Cons)
  with Cons kv show ?case by (auto simp: smap_ok_Cons)
qed simp

lemma smap_entries_find: "smap_ok m \<Longrightarrow> (k, v) \<in> set m \<longleftrightarrow> smap_find k m = Some v"
  by (simp add: smap_find_map_of smap_ok_def strict_sorted_iff map_of_eq_Some_iff)

interpretation smap: std_map "[]" smap_find smap_set smap_erase "\<lambda>m. m" smap_ok
  by unfold_locales
    (auto simp: smap_ok_set smap_ok_erase smap_find_set smap_find_erase smap_entries_find
      dest: iffD1 [OF smap_ok_def])

lemma smap_ext:
  assumes "smap_ok m" and "smap_ok m'" and "\<And>k. smap_find k m = smap_find k m'"
  shows "m = m'"
  using assms by (rule smap.entries_ext)

lemma smap_at_set: "smap_at d k' (smap_set k v m) = (if k' = k then v else smap_at d k' m)"
  by (simp add: smap_at_def smap_find_set)

lemma smap_set_find_same: "smap_ok m \<Longrightarrow> smap_find k m = Some v \<Longrightarrow> smap_set k v m = m"
  by (rule smap_ext) (auto simp: smap_ok_set smap_find_set)

lemma keys_smap_set_old:
  "smap_find k m \<noteq> None \<Longrightarrow> smap_ok m \<Longrightarrow> map fst (smap_set k v m) = map fst m"
proof (induction k v m rule: smap_set.induct)
  case (2 k v k' v' m)
  then show ?case
    by (auto simp: smap_ok_Cons smap_find_map_of dest!: map_of_SomeD split: if_splits)
qed simp

end
