(* ===== verification/IcapText.thy ===== *)
theory IcapText
  imports Prelude
begin

text \<open>
  The text helpers of \<open>lib/icap/util.cpp\<close> and \<open>util.h\<close>: numbers to and from their decimal
  and hexadecimal text (\<open>itoa\<close>, \<open>dectohex\<close>, \<open>hextodec\<close>, and the C library's \<open>atoi\<close> the
  callers use), \<open>split\<close> and the \<open>trim\<close> family. \<open>split\<close> is translated with its positions;
  \<open>pieces\<close> is its reference definition by recursion on the text.
\<close>

section \<open>Digits\<close>

fun num_digits :: "nat \<Rightarrow> nat \<Rightarrow> nat list" where
  "num_digits b n = (if n < b \<or> b < 2 then [n] else num_digits b (n div b) @ [n mod b])"

declare num_digits.simps [simp del]

definition num_value :: "nat \<Rightarrow> nat list \<Rightarrow> nat" where
  "num_value b ds = foldl (\<lambda>a d. b * a + d) 0 ds"

definition digit_char :: "nat \<Rightarrow> char" where
  "digit_char d = char_of (if d < 10 then 48 + d else 87 + d)"

definition digit_val :: "nat \<Rightarrow> char \<Rightarrow> nat option" where
  "digit_val b c =
     (let n = of_char c :: nat;
          d = (if 48 \<le> n \<and> n \<le> 57 then n - 48
               else if 97 \<le> n \<and> n \<le> 102 then n - 87
               else if 65 \<le> n \<and> n \<le> 70 then n - 55
               else 16)
      in if d < b then Some d else None)"

text \<open>The digits an extraction accumulates: the longest prefix of digits of the base.\<close>

fun parse_digits :: "nat \<Rightarrow> string \<Rightarrow> nat list" where
  "parse_digits b [] = []"
| "parse_digits b (c # cs) =
     (case digit_val b c of None \<Rightarrow> [] | Some d \<Rightarrow> d # parse_digits b cs)"

fun read_sign :: "string \<Rightarrow> bool \<times> string" where
  "read_sign [] = (False, [])"
| "read_sign (c # s) =
     (if c = CHR ''-'' then (True, s) else if c = CHR ''+'' then (False, s)
      else (False, c # s))"

fun strip_0x :: "string \<Rightarrow> string" where
  "strip_0x (z # x # s) =
     (if z = CHR ''0'' \<and> (x = CHR ''x'' \<or> x = CHR ''X'') then s else z # x # s)"
| "strip_0x s = s"

section \<open>The conversions\<close>

text \<open>\<open>itoa\<close> prints through an \<open>ostringstream\<close>, \<open>dectohex\<close> with \<open>std::hex\<close>.\<close>

definition itoa :: "int \<Rightarrow> string" where
  "itoa n = (if n < 0 then CHR ''-'' # map digit_char (num_digits 10 (nat (- n)))
             else map digit_char (num_digits 10 (nat n)))"

definition dectohex :: "u32 \<Rightarrow> string" where
  "dectohex dec = map digit_char (num_digits 16 (unat dec))"

text \<open>
  \<open>hextodec\<close> extracts an \<open>unsigned int\<close> with \<open>std::hex\<close>: leading white space is skipped, a
  sign and a \<open>0x\<close> prefix are taken, no digit at all reads as 0, a value out of range as
  \<open>UINT_MAX\<close>, a negative one modulo \<open>2^32\<close>. On a blank string the extraction stops before
  it writes and the uninitialised local \<open>dec\<close> is returned: that value is the parameter
  \<open>junk\<close>.
\<close>

definition hextodec :: "u32 \<Rightarrow> string \<Rightarrow> u32" where
  "hextodec junk hex =
     (let s = dropWhile is_space hex
      in if s = [] then junk
         else let (neg, s') = read_sign s;
                  v = num_value 16 (parse_digits 16 (strip_0x s'))
              in if 2 ^ 32 \<le> v then - 1
                 else if neg then - of_nat v else of_nat v)"

text \<open>
  The C library's \<open>atoi\<close> (\<open>strtol\<close> clamped to a 64-bit \<open>long\<close>, then converted to a 32-bit
  \<open>int\<close>).
\<close>

definition atoi :: "string \<Rightarrow> int" where
  "atoi str =
     (let (neg, s) = read_sign (dropWhile is_space str);
          n = int (num_value 10 (parse_digits 10 s));
          l = (if neg then max (- n) (- (2 ^ 63)) else min n (2 ^ 63 - 1))
      in signed_take_bit 31 l)"

section \<open>split and trim\<close>

text \<open>
  The loop of \<open>split\<close>; \<open>current\<close> starts at \<open>npos + 1 = 0\<close>. Every character of the
  delimiter string separates, as \<open>find_first_of\<close> does.
\<close>

function split_loop :: "string \<Rightarrow> string \<Rightarrow> nat \<Rightarrow> string list" where
  "split_loop str delimiter current =
     (case find_first_of str delimiter current of
        None \<Rightarrow> [substr str current None]
      | Some next \<Rightarrow>
          substr str current (Some (next - current)) # split_loop str delimiter (next + 1))"
  by pat_completeness auto
termination
proof (relation "measure (\<lambda>(str, delimiter, current). length str - current)")
  fix str delimiter current "next"
  assume "find_first_of str delimiter current = Some next"
  from find_first_of_bounds [OF this]
  show "((str, delimiter, next + 1), (str, delimiter, current))
      \<in> measure (\<lambda>(str, delimiter, current). length str - current)"
    by auto
qed simp

declare split_loop.simps [simp del]

definition split :: "string \<Rightarrow> string \<Rightarrow> string list" where
  "split str delimiter = split_loop str delimiter 0"

definition ltrim :: "string \<Rightarrow> string" where
  "ltrim str = dropWhile is_space str"

definition rtrim :: "string \<Rightarrow> string" where
  "rtrim str = rev (dropWhile is_space (rev str))"

definition trim :: "string \<Rightarrow> string" where
  "trim str = ltrim (rtrim str)"

section \<open>Digits: printing and reading\<close>

lemma digits_lt: "2 \<le> b \<Longrightarrow> \<forall>d\<in>set (num_digits b n). d < b"
proof (induction b n rule: num_digits.induct)
  case (1 b n)
  then show ?case by (subst num_digits.simps) auto
qed

lemma digits_ltD: "d \<in> set (num_digits b n) \<Longrightarrow> 2 \<le> b \<Longrightarrow> d < b"
  using digits_lt by blast

lemma num_digits_nonempty [simp]: "num_digits b n \<noteq> []"
  by (subst num_digits.simps) simp

lemma num_value_snoc: "num_value b (ds @ [d]) = b * num_value b ds + d"
  by (simp add: num_value_def)

lemma num_value_digits: "2 \<le> b \<Longrightarrow> num_value b (num_digits b n) = n"
proof (induction b n rule: num_digits.induct)
  case (1 b n)
  show ?case
  proof (cases "n < b")
    case True
    then show ?thesis by (subst num_digits.simps) (simp add: num_value_def)
  next
    case False
    with 1 show ?thesis by (subst num_digits.simps) (simp add: num_value_snoc)
  qed
qed

lemma digit_val_char: "d < b \<Longrightarrow> b \<le> 16 \<Longrightarrow> digit_val b (digit_char d) = Some d"
  by (auto simp: digit_val_def digit_char_def Let_def)

lemma digit_val_upper: "digit_val b c = Some d \<Longrightarrow> d < b"
  by (auto simp: digit_val_def Let_def split: if_splits)

lemma digit_val_not_special:
  assumes "digit_val 16 c \<noteq> None"
  shows "\<not> is_space c" and "c \<noteq> CHR ''-''" and "c \<noteq> CHR ''+''" and "c \<noteq> CHR '';''"
    and "c \<noteq> CHR '',''" and "c \<noteq> CHR ''=''" and "c \<noteq> CHR ''x''" and "c \<noteq> CHR ''X''"
    and "c \<noteq> CR" and "c \<noteq> LF" and "0 < (of_char c :: nat)" and "of_char c < (128 :: nat)"
proof -
  have n: "of_char c \<in> {48..57} \<union> {97..102} \<union> {65..(70::nat)}"
    using assms by (auto simp: digit_val_def Let_def split: if_splits)
  show "\<not> is_space c" and "c \<noteq> CHR ''-''" and "c \<noteq> CHR ''+''" and "c \<noteq> CHR '';''"
    and "c \<noteq> CHR '',''" and "c \<noteq> CHR ''=''" and "c \<noteq> CHR ''x''" and "c \<noteq> CHR ''X''"
    and "c \<noteq> CR" and "c \<noteq> LF" and "0 < (of_char c :: nat)" and "of_char c < (128 :: nat)"
    using n by (auto simp: is_space_def)
qed

lemma digit_char_digit: "d < 16 \<Longrightarrow> digit_val 16 (digit_char d) \<noteq> None"
  by (simp add: digit_val_char)

lemma parse_digits_chars:
  assumes "\<forall>d\<in>set ds. d < b" and "b \<le> 16"
    and "rest = [] \<or> digit_val b (hd rest) = None"
  shows "parse_digits b (map digit_char ds @ rest) = ds"
  using assms
proof (induction ds)
  case Nil
  then show ?case by (cases rest) auto
next
  case (Cons d ds)
  then show ?case by (simp add: digit_val_char)
qed

text \<open>A printed number: non-empty, and every character a digit.\<close>

lemma printed_digits:
  assumes "2 \<le> b" and "b \<le> 16"
  shows "map digit_char (num_digits b n) \<noteq> []"
    and "\<forall>c\<in>set (map digit_char (num_digits b n)). digit_val 16 c \<noteq> None"
proof -
  show "map digit_char (num_digits b n) \<noteq> []" by simp
  have "digit_val 16 (digit_char d) \<noteq> None" if "d \<in> set (num_digits b n)" for d
    using that digits_lt [OF assms(1), of n] assms(2) by (intro digit_char_digit) force
  then show "\<forall>c\<in>set (map digit_char (num_digits b n)). digit_val 16 c \<noteq> None"
    by auto
qed

lemma read_printed:
  assumes "s \<noteq> []" and "\<forall>c\<in>set s. digit_val 16 c \<noteq> None"
  shows "dropWhile is_space (s @ r) = s @ r" and "read_sign (s @ r) = (False, s @ r)"
    and "r = [] \<or> \<not> (hd r = CHR ''x'' \<or> hd r = CHR ''X'') \<Longrightarrow> strip_0x (s @ r) = s @ r"
proof -
  obtain c s' where s: "s = c # s'" using assms(1) by (cases s) auto
  note c = digit_val_not_special [of c]
  show "dropWhile is_space (s @ r) = s @ r" and "read_sign (s @ r) = (False, s @ r)"
    using assms(2) c(1-3) by (auto simp: s)
  assume r: "r = [] \<or> \<not> (hd r = CHR ''x'' \<or> hd r = CHR ''X'')"
  show "strip_0x (s @ r) = s @ r"
  proof (cases s')
    case Nil
    with r show ?thesis by (cases r) (auto simp: s)
  next
    case (Cons c' s'')
    with assms(2) digit_val_not_special(7,8) [of c'] show ?thesis by (auto simp: s)
  qed
qed

lemma digit_val_mono: "digit_val 10 c = Some d \<Longrightarrow> digit_val 16 c = Some d"
  by (auto simp: digit_val_def Let_def split: if_splits)

lemma dectohex_0: "dectohex 0 = ''0''"
  and dectohex_1024: "dectohex 1024 = ''400''"
  by (simp_all add: dectohex_def num_digits.simps digit_char_def char_of_eq_iff)

lemma hextodec_printed:
  assumes "r = [] \<or> digit_val 16 (hd r) = None \<and> \<not> (hd r = CHR ''x'' \<or> hd r = CHR ''X'')"
  shows "hextodec junk (dectohex n @ r) = n"
proof -
  let ?s = "map digit_char (num_digits 16 (unat n))"
  have s: "?s \<noteq> []" "\<forall>c\<in>set ?s. digit_val 16 c \<noteq> None"
    using printed_digits [of 16 "unat n"] by simp_all
  have x: "strip_0x (?s @ r) = ?s @ r"
    using assms by (intro read_printed(3) [OF s]) auto
  have d: "parse_digits 16 (?s @ r) = num_digits 16 (unat n)"
    using assms by (intro parse_digits_chars) (auto dest: digits_ltD)
  have "unat n < 2 ^ 32" using unsigned_less [of n] by simp
  then show ?thesis
    using s(1) by (simp add: hextodec_def dectohex_def read_printed(1,2) [OF s] x d
        num_value_digits)
qed

lemma atoi_itoa_nat:
  assumes "n < 2 ^ 31"
  shows "atoi (itoa (int n)) = int n"
proof -
  let ?s = "map digit_char (num_digits 10 n)"
  have s: "?s \<noteq> []" "\<forall>c\<in>set ?s. digit_val 16 c \<noteq> None"
    using printed_digits [of 10 n] by simp_all
  have d: "parse_digits 10 (?s @ []) = num_digits 10 n"
    by (intro parse_digits_chars) (auto dest: digits_ltD)
  have "min (int n) (2 ^ 63 - 1) = int n" using assms by simp
  moreover have "signed_take_bit 31 (int n) = int n"
    using assms by (intro signed_take_bit_int_eq_self) auto
  ultimately show ?thesis
    using read_printed(1,2) [OF s, of "[]"] d
    by (simp add: atoi_def itoa_def num_value_digits)
qed

lemma atoi_bounds: "- (2 ^ 31) \<le> atoi s \<and> atoi s < 2 ^ 31"
proof -
  obtain l where "atoi s = signed_take_bit 31 l"
    by (cases "read_sign (dropWhile is_space s)") (auto simp: atoi_def Let_def)
  then show ?thesis
    using signed_take_bit_int_greater_eq_minus_exp [of 31 l]
      signed_take_bit_int_less_exp [of 31 l] by simp
qed

section \<open>split against its reference definition\<close>

fun pieces :: "('a \<Rightarrow> bool) \<Rightarrow> 'a list \<Rightarrow> 'a list list" where
  "pieces P [] = [[]]"
| "pieces P (x # xs) =
     (if P x then [] # pieces P xs
      else (x # hd (pieces P xs)) # tl (pieces P xs))"

lemma pieces_nonempty [simp]: "pieces P xs \<noteq> []"
  by (cases xs) auto

lemma pieces_none: "\<forall>x\<in>set xs. \<not> P x \<Longrightarrow> pieces P xs = [xs]"
  by (induction xs) auto

lemma pieces_append: "\<forall>x\<in>set xs. \<not> P x \<Longrightarrow> P y \<Longrightarrow> pieces P (xs @ y # ys) = xs # pieces P ys"
  by (induction xs) auto

lemma pieces_step:
  "pieces P xs =
     (case index_from P 0 xs of
        None \<Rightarrow> [xs]
      | Some i \<Rightarrow> take i xs # pieces P (drop (Suc i) xs))"
proof (cases "\<exists>x\<in>set xs. P x")
  case True
  then obtain ys y zs where xs: "xs = ys @ y # zs" "P y" "\<forall>x\<in>set ys. \<not> P x"
    using split_list_first_prop [OF True] by auto
  then have "takeWhile (\<lambda>x. \<not> P x) xs = ys"
    by (simp add: takeWhile_append_stop)
  then have "index_from P 0 xs = Some (length ys)"
    using True by (simp add: index_from_takeWhile)
  then show ?thesis using xs by (simp add: pieces_append)
next
  case False
  then show ?thesis by (simp add: index_from_takeWhile pieces_none)
qed

lemma index_from_shift: "index_from P i xs = map_option ((+) i) (index_from P 0 xs)"
  by (simp add: index_from_takeWhile)

lemma split_loop_pieces:
  "current \<le> length str \<Longrightarrow>
     split_loop str d current = pieces (\<lambda>c. c \<in> set d) (drop current str)"
proof (induction str d current rule: split_loop.induct)
  case (1 str d current)
  let ?P = "\<lambda>c. c \<in> set d"
  show ?case
  proof (cases "index_from ?P 0 (drop current str)")
    case None
    then show ?thesis
      by (subst split_loop.simps, subst pieces_step)
        (simp add: find_first_of_def index_from_shift [of _ current] substr_def)
  next
    case (Some i)
    then have ff: "find_first_of str d current = Some (current + i)"
      by (simp add: find_first_of_def index_from_shift [of _ current])
    from find_first_of_bounds(2) [OF ff] have "current + i + 1 \<le> length str" by simp
    with 1 ff have "split_loop str d (current + i + 1) = pieces ?P (drop (current + i + 1) str)"
      by blast
    with ff Some show ?thesis
      by (subst split_loop.simps, subst pieces_step) (simp add: substr_def add.commute)
  qed
qed

lemma split_pieces: "split str d = pieces (\<lambda>c. c \<in> set d) str"
  by (simp add: split_def split_loop_pieces)

lemma split_nonempty [simp]: "split str d \<noteq> []"
  by (simp add: split_pieces)

lemma split_none: "\<forall>x\<in>set s. x \<notin> set d \<Longrightarrow> split s d = [s]"
  by (simp add: split_pieces pieces_none)

lemma split_append: "\<forall>x\<in>set xs. x \<notin> set d \<Longrightarrow> y \<in> set d \<Longrightarrow> split (xs @ y # ys) d = xs # split ys d"
  by (simp add: split_pieces pieces_append)

lemma pieces_clean: "ys \<in> set (pieces P xs) \<Longrightarrow> \<forall>x\<in>set ys. \<not> P x"
proof (induction P xs arbitrary: ys rule: pieces.induct)
  case (2 P x xs)
  show ?case
  proof (cases "P x")
    case True
    with 2 show ?thesis by auto
  next
    case False
    with "2.prems" consider "ys = x # hd (pieces P xs)" | "ys \<in> set (pieces P xs)"
      by (auto dest: list.set_sel(2) [OF pieces_nonempty])
    then show ?thesis
    proof cases
      case 1
      have "\<forall>x\<in>set (hd (pieces P xs)). \<not> P x"
        using "2.IH"(2) [OF False] hd_in_set [OF pieces_nonempty] by blast
      with 1 False show ?thesis by simp
    next
      case 2
      with "2.IH"(2) False show ?thesis by blast
    qed
  qed
qed simp

section \<open>trim\<close>

lemma rtrim_id: "s = [] \<or> \<not> is_space (last s) \<Longrightarrow> rtrim s = s"
  by (auto simp: rtrim_def dropWhile_id hd_rev)

lemma ltrim_id: "s = [] \<or> \<not> is_space (hd s) \<Longrightarrow> ltrim s = s"
  by (simp add: ltrim_def dropWhile_id)

text \<open>Text with no white space at either end.\<close>

definition trimmed :: "string \<Rightarrow> bool" where
  "trimmed s \<longleftrightarrow> s = [] \<or> \<not> is_space (hd s) \<and> \<not> is_space (last s)"

lemma trim_id: "trimmed s \<Longrightarrow> trim s = s"
  by (auto simp: trimmed_def trim_def rtrim_id ltrim_id)

lemma dropWhile_spaces: "\<forall>c\<in>set w. P c \<Longrightarrow> dropWhile P (w @ s) = dropWhile P s"
  by (induction w) auto

lemma trim_pad:
  assumes "trimmed s" and "\<forall>c\<in>set w. is_space c" and "\<forall>c\<in>set w'. is_space c"
  shows "trim (w @ s @ w') = s"
proof -
  have "rtrim (w @ s @ w') = rtrim (w @ s)"
    using assms(3) by (simp add: rtrim_def dropWhile_spaces)
  also have "\<dots> = (if s = [] then [] else w @ s)"
  proof (cases "s = []")
    case True
    with assms(2) show ?thesis by (simp add: rtrim_def)
  next
    case False
    with assms(1) show ?thesis by (simp add: trimmed_def rtrim_id)
  qed
  finally have "rtrim (w @ s @ w') = (if s = [] then [] else w @ s)" .
  then show ?thesis
    using assms(1,2) by (auto simp: trim_def ltrim_def dropWhile_spaces trimmed_def dropWhile_id)
qed

lemma trimmed_trim: "trimmed (trim s)"
proof -
  let ?r = "rtrim s"
  have last: "?r = [] \<or> \<not> is_space (last ?r)"
    using hd_dropWhile [of is_space "rev s"] by (auto simp: rtrim_def last_rev)
  have "?r = takeWhile is_space ?r @ ltrim ?r"
    by (simp add: ltrim_def)
  then have "ltrim ?r = [] \<or> last (ltrim ?r) = last ?r \<and> ?r \<noteq> []"
    by (metis append.right_neutral last_append append_is_Nil_conv)
  moreover have "ltrim ?r = [] \<or> \<not> is_space (hd (ltrim ?r))"
    using hd_dropWhile [of is_space ?r] by (auto simp: ltrim_def)
  ultimately show ?thesis
    using last by (auto simp: trimmed_def trim_def)
qed

lemma set_trim: "set (trim s) \<subseteq> set s"
  by (auto simp: trim_def ltrim_def rtrim_def dest!: set_dropWhileD)

end
