(* ===== verification/IcapHeader.thy ===== *)
theory IcapHeader
  imports OrderedMap IcapText "HOL-Library.Multiset"
begin

text \<open>
  \<open>icap::Header\<close> (\<open>lib/icap/header.cpp\<close>, \<open>header.h\<close>) and the payload structure of
  \<open>lib/icap/common.h\<close>: the header fields and the Encapsulated offsets, both ordered maps,
  parsing and printing of the Encapsulated field, and its update from a payload.
\<close>

section \<open>State\<close>

record payload_t =
  req_header :: string
  req_body :: string
  res_header :: string
  res_body :: string
  ieof :: bool

type_synonym headers_t = "(string, string) smap"

type_synonym encapsulated_header_t = "(string, int) smap"

type_synonym encapsulated_header_data_t = "string \<times> int"

record header =
  h_headers :: headers_t
  h_encapsulated :: encapsulated_header_t

text \<open>The constructor: no field, every entity at -1.\<close>

definition init_encapsulated :: encapsulated_header_t where
  "init_encapsulated =
     smap_set ''null-body'' (- 1) (smap_set ''opt-body'' (- 1) (smap_set ''res-body'' (- 1)
       (smap_set ''res-hdr'' (- 1) (smap_set ''req-body'' (- 1) (smap_set ''req-hdr'' (- 1) [])))))"

definition new_header :: header where
  "new_header = \<lparr>h_headers = [], h_encapsulated = init_encapsulated\<rparr>"

section \<open>Operations\<close>

definition header_value :: "string \<Rightarrow> 'a header_scheme \<Rightarrow> string" where
  "header_value key h = (case smap_find key (h_headers h) of None \<Rightarrow> [] | Some v \<Rightarrow> v)"

definition encapsulated_header :: "string \<Rightarrow> 'a header_scheme \<Rightarrow> int" where
  "encapsulated_header entity h =
     (case smap_find entity (h_encapsulated h) of None \<Rightarrow> - 1 | Some v \<Rightarrow> v)"

text \<open>One round of the loop of \<open>attach_encapsulated\<close>: \<open>entity=offset\<close>.\<close>

definition attach_entity :: "string \<Rightarrow> bool \<times> encapsulated_header_t \<Rightarrow> bool \<times> encapsulated_header_t" where
  "attach_entity item acc =
     (case acc of (r_status, enc) \<Rightarrow>
        let entity_data = split (trim item) ''=''
        in if length entity_data = 2 then
             let key = trim (entity_data ! 0)
             in (case smap_find key enc of
                   None \<Rightarrow> (r_status, enc)
                 | Some _ \<Rightarrow> (r_status, smap_set key (atoi (trim (entity_data ! 1))) enc))
           else (False, enc))"

definition attach_encapsulated :: "string \<Rightarrow> 'a header_scheme \<Rightarrow> bool \<times> 'a header_scheme" where
  "attach_encapsulated hvalue h =
     (case fold attach_entity (split (trim hvalue) '','') (True, h_encapsulated h) of
        (r_status, enc) \<Rightarrow> (r_status, h\<lparr>h_encapsulated := enc\<rparr>))"

definition attach :: "string \<Rightarrow> string \<Rightarrow> 'a header_scheme \<Rightarrow> 'a header_scheme" where
  "attach key value h =
     (let key = trim key; value = trim value
      in if key = ''Encapsulated'' then snd (attach_encapsulated value h)
         else h\<lparr>h_headers := smap_set key value (h_headers h)\<rparr>)"

definition remove_header :: "string \<Rightarrow> 'a header_scheme \<Rightarrow> bool \<times> 'a header_scheme" where
  "remove_header key h =
     (smap_find (trim key) (h_headers h) \<noteq> None,
      h\<lparr>h_headers := smap_erase (trim key) (h_headers h)\<rparr>)"

text \<open>
  \<open>std::sort\<close> with \<open>lhs.second < rhs.second\<close>. Below 17 elements libstdc++ sorts by insertion:
  an element is moved left past the elements it is smaller than, so equal offsets keep the
  order of the map.
\<close>

definition encapsulated_header_compare ::
  "encapsulated_header_data_t \<Rightarrow> encapsulated_header_data_t \<Rightarrow> bool" where
  "encapsulated_header_compare lhs rhs \<longleftrightarrow> snd lhs < snd rhs"

fun insert_sorted :: "encapsulated_header_data_t \<Rightarrow> encapsulated_header_data_t list \<Rightarrow>
    encapsulated_header_data_t list" where
  "insert_sorted x [] = [x]"
| "insert_sorted x (y # ys) =
     (if encapsulated_header_compare x y then x # y # ys else y # insert_sorted x ys)"

definition sort_encapsulated_header :: "'a header_scheme \<Rightarrow> encapsulated_header_data_t list" where
  "sort_encapsulated_header h = fold insert_sorted (h_encapsulated h) []"

text \<open>The loop of \<open>encapsulated_header_str\<close>, and the method.\<close>

definition append_entity :: "encapsulated_header_data_t \<Rightarrow> string \<Rightarrow> string" where
  "append_entity idx encaps_header =
     (if 0 \<le> snd idx then
        (if encaps_header \<noteq> [] then encaps_header @ '', '' else encaps_header)
          @ fst idx @ ''='' @ itoa (snd idx)
      else encaps_header)"

definition encapsulated_header_str :: "'a header_scheme \<Rightarrow> string" where
  "encapsulated_header_str h =
     (let encaps_header = fold append_entity (sort_encapsulated_header h) []
      in if encaps_header = [] then ''null-body=0'' else encaps_header)"

text \<open>
  \<open>update_encapsulated\<close>: \<open>data_length\<close> and \<open>data_offset\<close> are \<open>unsigned int\<close>, the map holds
  \<open>int\<close>. One step per part of the payload, in the source's order.
\<close>

definition update_part :: "string \<Rightarrow> string \<Rightarrow> u32 \<times> u32 \<times> encapsulated_header_t \<Rightarrow>
    u32 \<times> u32 \<times> encapsulated_header_t" where
  "update_part entity part st =
     (case st of (data_length, data_offset, enc) \<Rightarrow>
        if 0 < length part
        then (data_length + of_nat (length part), data_length,
              smap_set entity (sint data_length) enc)
        else st)"

definition update_encapsulated :: "payload_t \<Rightarrow> 'a header_scheme \<Rightarrow> 'a header_scheme" where
  "update_encapsulated payload h =
     (case update_part ''res-body'' (res_body payload)
            (update_part ''res-hdr'' (res_header payload)
              (update_part ''req-body'' (req_body payload)
                (update_part ''req-hdr'' (req_header payload) (0, 0, h_encapsulated h)))) of
        (data_length, data_offset, enc) \<Rightarrow>
          h\<lparr>h_encapsulated :=
            if data_offset = 0 then smap_set ''null-body'' (sint data_length) enc else enc\<rparr>)"

section \<open>The entities and the invariant\<close>

definition entities :: "string list" where
  "entities = [''null-body'', ''opt-body'', ''req-body'', ''req-hdr'', ''res-body'', ''res-hdr'']"

text \<open>The Encapsulated map always has exactly the six entities, with values of type \<open>int\<close>.\<close>

definition enc_ok :: "encapsulated_header_t \<Rightarrow> bool" where
  "enc_ok enc \<longleftrightarrow> smap_ok enc \<and> map fst enc = entities \<and>
     (\<forall>v\<in>snd ` set enc. - (2 ^ 31) \<le> v \<and> v < 2 ^ 31)"

definition header_ok :: "'a header_scheme \<Rightarrow> bool" where
  "header_ok h \<longleftrightarrow> smap_ok (h_headers h) \<and> enc_ok (h_encapsulated h) \<and>
     smap_find ''Encapsulated'' (h_headers h) = None \<and>
     (\<forall>(k, v)\<in>set (h_headers h). trimmed k \<and> trimmed v)"

lemma init_encapsulated_eq: "init_encapsulated = map (\<lambda>e. (e, - 1)) entities"
  by code_simp

lemma enc_ok_init: "enc_ok init_encapsulated"
  unfolding enc_ok_def
proof (intro conjI)
  show "smap_ok init_encapsulated"
    unfolding init_encapsulated_def by (intro smap_ok_set smap_ok_Nil)
  show "map fst init_encapsulated = entities"
    by (simp add: init_encapsulated_eq comp_def)
  show "\<forall>v\<in>snd ` set init_encapsulated. - (2 ^ 31) \<le> v \<and> v < 2 ^ 31"
    by (simp add: init_encapsulated_eq)
qed

lemma header_ok_new: "header_ok new_header"
  by (simp add: header_ok_def new_header_def enc_ok_init)

lemma enc_find_entity: "enc_ok enc \<Longrightarrow> smap_find k enc \<noteq> None \<longleftrightarrow> k \<in> set entities"
  by (metis enc_ok_def map_of_eq_None_iff set_map smap_find_map_of)

lemma snd_set_smap_set: "w \<in> snd ` set (smap_set k v m) \<Longrightarrow> w = v \<or> w \<in> snd ` set m"
  using set_smap_set [of k v m] by force

lemma enc_ok_set:
  assumes "enc_ok enc" and "k \<in> set entities" and "- (2 ^ 31) \<le> v" and "v < 2 ^ 31"
  shows "enc_ok (smap_set k v enc)"
proof -
  have "smap_find k enc \<noteq> None" using enc_find_entity assms(1,2) by simp
  then have "map fst (smap_set k v enc) = entities"
    using assms(1) by (simp add: enc_ok_def keys_smap_set_old)
  moreover have "\<forall>w\<in>snd ` set (smap_set k v enc). - (2 ^ 31) \<le> w \<and> w < 2 ^ 31"
    using snd_set_smap_set [of _ k v enc] assms by (metis enc_ok_def)
  ultimately show ?thesis using assms(1) by (simp add: enc_ok_def smap_ok_set)
qed

lemma attach_entity_ok:
  assumes "enc_ok (snd acc)"
  shows "enc_ok (snd (attach_entity item acc))"
proof -
  obtain r enc where acc: "acc = (r, enc)" by (cases acc)
  have "enc_ok (smap_set k (atoi t) enc)" if "smap_find k enc = Some v" for k t v
    using enc_find_entity [of enc k] atoi_bounds [of t] that assms acc
    by (intro enc_ok_set) auto
  then show ?thesis
    using assms acc by (auto simp: attach_entity_def Let_def split: option.splits)
qed

lemma attach_entities_ok: "enc_ok (snd acc) \<Longrightarrow> enc_ok (snd (fold attach_entity items acc))"
  by (induction items arbitrary: acc) (auto simp: attach_entity_ok)

lemma attach_encapsulated_ok: "header_ok h \<Longrightarrow> header_ok (snd (attach_encapsulated v h))"
  using attach_entities_ok [of "(True, h_encapsulated h)" "split (trim v) '',''"]
  by (auto simp: header_ok_def attach_encapsulated_def split: prod.splits)

lemma attach_ok: "header_ok h \<Longrightarrow> header_ok (attach k v h)"
proof -
  assume ok: "header_ok h"
  note set = set_smap_set [of "trim k" "trim v" "h_headers h"]
  show ?thesis
  proof (cases "trim k = ''Encapsulated''")
    case True
    with ok show ?thesis by (simp add: attach_def attach_encapsulated_ok)
  next
    case False
    with ok set trimmed_trim show ?thesis
      by (auto simp: attach_def header_ok_def smap_ok_set smap_find_set)
  qed
qed

lemma remove_header_ok: "header_ok h \<Longrightarrow> header_ok (snd (remove_header k h))"
  using set_smap_erase [of "trim k" "h_headers h"]
  by (auto simp: header_ok_def remove_header_def smap_ok_erase smap_find_erase)

lemma update_part_ok:
  assumes "enc_ok (snd (snd st))" and "e \<in> set entities"
  shows "enc_ok (snd (snd (update_part e part st)))"
proof -
  obtain l d enc where st: "st = (l, d, enc)" by (cases st) auto
  have "- (2 ^ 31) \<le> sint l" "sint l < 2 ^ 31"
    using sint_ge [of l] sint_lt [of l] by simp_all
  then show ?thesis
    using assms st enc_ok_set by (auto simp: update_part_def)
qed

lemma update_encapsulated_ok: "header_ok h \<Longrightarrow> header_ok (update_encapsulated p h)"
proof -
  assume ok: "header_ok h"
  let ?st = "update_part ''res-body'' (res_body p) (update_part ''res-hdr'' (res_header p)
    (update_part ''req-body'' (req_body p) (update_part ''req-hdr'' (req_header p)
      (0, 0, h_encapsulated h))))"
  obtain l d enc where st: "?st = (l, d, enc)" by (cases ?st) auto
  have "enc_ok (snd (snd ?st))"
    using ok by (intro update_part_ok) (auto simp: header_ok_def entities_def)
  then have e: "enc_ok enc" using st by simp
  have "- (2 ^ 31) \<le> sint l" "sint l < 2 ^ 31"
    using sint_ge [of l] sint_lt [of l] by simp_all
  then have "enc_ok (smap_set ''null-body'' (sint l) enc)"
    using e by (intro enc_ok_set) (auto simp: entities_def)
  with e ok st show ?thesis by (simp add: update_encapsulated_def header_ok_def)
qed

section \<open>Sorting the Encapsulated entities\<close>

lemma mset_insert_sorted: "mset (insert_sorted x ys) = add_mset x (mset ys)"
  by (induction ys) auto

lemma sorted_insert_sorted:
  "sorted (map snd ys) \<Longrightarrow> sorted (map snd (insert_sorted x ys))"
proof (induction ys)
  case (Cons y ys)
  have "set (insert_sorted x ys) = insert x (set ys)"
    by (metis mset_insert_sorted set_mset_add_mset_insert set_mset_mset)
  with Cons show ?case by (auto simp: encapsulated_header_compare_def)
qed simp

text \<open>Equal offsets keep their order: inserting last puts behind every equal offset.\<close>

lemma stable_insert_sorted:
  "sorted (map snd ys) \<Longrightarrow>
     filter (\<lambda>p. snd p = v) (insert_sorted x ys) =
     filter (\<lambda>p. snd p = v) ys @ (if snd x = v then [x] else [])"
proof (induction ys)
  case (Cons y ys)
  have "filter (\<lambda>p. snd p = snd x) (y # ys) = []" if "snd x < snd y"
    using Cons.prems that by (auto simp: filter_empty_conv)
  with Cons show ?case
    by (auto simp: encapsulated_header_compare_def)
qed simp

lemma fold_insert_sorted:
  assumes "sorted (map snd acc)"
  shows "mset (fold insert_sorted xs acc) = mset acc + mset xs"
    and "sorted (map snd (fold insert_sorted xs acc))"
    and "filter (\<lambda>p. snd p = v) (fold insert_sorted xs acc) =
      filter (\<lambda>p. snd p = v) acc @ filter (\<lambda>p. snd p = v) xs"
proof -
  have "mset (fold insert_sorted xs acc) = mset acc + mset xs \<and>
    sorted (map snd (fold insert_sorted xs acc)) \<and>
    filter (\<lambda>p. snd p = v) (fold insert_sorted xs acc) =
      filter (\<lambda>p. snd p = v) acc @ filter (\<lambda>p. snd p = v) xs"
    using assms
  proof (induction xs arbitrary: acc)
    case (Cons x xs)
    then show ?case
      using sorted_insert_sorted [of acc x] stable_insert_sorted [of acc v x]
      by (auto simp: mset_insert_sorted)
  qed simp
  then show "mset (fold insert_sorted xs acc) = mset acc + mset xs"
    and "sorted (map snd (fold insert_sorted xs acc))"
    and "filter (\<lambda>p. snd p = v) (fold insert_sorted xs acc) =
      filter (\<lambda>p. snd p = v) acc @ filter (\<lambda>p. snd p = v) xs"
    by simp_all
qed

lemma sort_encapsulated:
  shows "mset (sort_encapsulated_header h) = mset (h_encapsulated h)"
    and "sorted (map snd (sort_encapsulated_header h))"
    and "filter (\<lambda>p. snd p = v) (sort_encapsulated_header h) =
      filter (\<lambda>p. snd p = v) (h_encapsulated h)"
  using fold_insert_sorted [where acc = "[]" and xs = "h_encapsulated h"]
  by (simp_all add: sort_encapsulated_header_def)

lemma set_sort_encapsulated [simp]: "set (sort_encapsulated_header h) = set (h_encapsulated h)"
  by (metis set_mset_mset sort_encapsulated(1))

lemma distinct_sort_encapsulated:
  "enc_ok (h_encapsulated h) \<Longrightarrow> distinct (map fst (sort_encapsulated_header h))"
  using sort_encapsulated(1) [of h]
  by (metis enc_ok_def mset_eq_imp_distinct_iff mset_map smap_ok_def strict_sorted_iff)

section \<open>Printing and parsing the Encapsulated field\<close>

text \<open>One entity as it is printed.\<close>

definition entity_text :: "encapsulated_header_data_t \<Rightarrow> string" where
  "entity_text p = fst p @ ''='' @ itoa (snd p)"

lemma fold_append_entity:
  assumes "acc \<noteq> []"
  shows "fold append_entity ps acc =
    acc @ concat (map (\<lambda>p. '', '' @ entity_text p) (filter (\<lambda>p. 0 \<le> snd p) ps))"
  using assms
  by (induction ps arbitrary: acc) (auto simp: append_entity_def entity_text_def)

lemma fold_append_entity_Nil:
  "fold append_entity ps [] =
     (case filter (\<lambda>p. 0 \<le> snd p) ps of
        [] \<Rightarrow> []
      | p # qs \<Rightarrow> entity_text p @ concat (map (\<lambda>p. '', '' @ entity_text p) qs))"
proof (induction ps)
  case (Cons p ps)
  show ?case
  proof (cases "0 \<le> snd p")
    case True
    then have "append_entity p [] = entity_text p" "entity_text p \<noteq> []"
      by (simp_all add: append_entity_def entity_text_def)
    with True fold_append_entity show ?thesis by simp
  next
    case False
    with Cons show ?thesis by (simp add: append_entity_def)
  qed
qed simp

text \<open>The characters of an entity name and of a printed offset.\<close>

definition word_text :: "string \<Rightarrow> bool" where
  "word_text s \<longleftrightarrow> s \<noteq> [] \<and> (\<forall>c\<in>set s. \<not> is_space c \<and> c \<noteq> CHR '','' \<and> c \<noteq> CHR ''='')"

lemma word_text_trimmed: "word_text s \<Longrightarrow> trimmed s"
  by (auto simp: word_text_def trimmed_def)

lemma word_text_entity: "e \<in> set entities \<Longrightarrow> word_text e"
  by (auto simp: entities_def word_text_def is_space_def)

lemma word_text_itoa: "word_text (itoa (int n))"
proof -
  have "\<forall>c\<in>set (itoa (int n)). digit_val 16 c \<noteq> None"
    using printed_digits(2) [of 10 n] by (simp add: itoa_def)
  moreover have "itoa (int n) \<noteq> []" by (simp add: itoa_def)
  moreover have "\<not> is_space c \<and> c \<noteq> CHR '','' \<and> c \<noteq> CHR ''=''" if "digit_val 16 c \<noteq> None" for c
    using digit_val_not_special [OF that] by simp
  ultimately show ?thesis by (simp add: word_text_def)
qed

lemma entity_text_word:
  assumes "word_text (fst q)" and "word_text (itoa (snd q))"
  shows "CHR '','' \<notin> set (entity_text q)" and "entity_text q \<noteq> []"
    and "\<not> is_space (hd (entity_text q))" and "\<not> is_space (last (entity_text q))"
  using assms by (auto simp: entity_text_def word_text_def)

lemma split_words:
  assumes "\<forall>b\<in>set (a # bs). CHR '','' \<notin> set b"
  shows "split (a @ concat (map (\<lambda>b. CHR '','' # b) bs)) '','' = a # bs"
  using assms
proof (induction bs arbitrary: a)
  case Nil
  then show ?case by (auto intro!: split_none)
next
  case (Cons b bs)
  have "split (a @ CHR '','' # b @ concat (map (\<lambda>b. CHR '','' # b) bs)) '',''
      = a # split (b @ concat (map (\<lambda>b. CHR '','' # b) bs)) '',''"
    using Cons.prems by (intro split_append) auto
  with Cons show ?case by simp
qed

lemma attach_entity_printed:
  assumes "word_text k" and "0 \<le> v" and "v < 2 ^ 31" and "smap_find k enc \<noteq> None"
    and "set w \<subseteq> {CHR '' ''}"
  shows "attach_entity (w @ entity_text (k, v)) (r, enc) = (r, smap_set k v enc)"
proof -
  obtain n where n: "v = int n" using assms(2) nonneg_int_cases by blast
  have itoa: "word_text (itoa v)" using word_text_itoa n by simp
  have tr: "trimmed (entity_text (k, v))"
    using assms(1) itoa by (auto simp: trimmed_def word_text_def entity_text_def)
  have "trim (w @ entity_text (k, v)) = entity_text (k, v)"
    using trim_pad [OF tr, of w "[]"] assms(5) by (auto simp: is_space_def)
  moreover have "split (entity_text (k, v)) ''='' = [k, itoa v]"
    using split_append [of k "''=''" "CHR ''=''" "itoa v"] split_none [of "itoa v" "''=''"]
      assms(1) itoa by (auto simp: word_text_def entity_text_def)
  moreover have "trim k = k" "trim (itoa v) = itoa v"
    using assms(1) itoa by (simp_all add: word_text_trimmed trim_id)
  moreover have "atoi (itoa v) = v" using atoi_itoa_nat [of n] n assms(3) by simp
  ultimately show ?thesis
    using assms(4) by (auto simp: attach_entity_def Let_def)
qed

lemma fold_attach_printed:
  assumes "\<forall>(k, v)\<in>set ps. k \<in> set entities \<and> 0 \<le> v \<and> v < 2 ^ 31" and "enc_ok enc"
  shows "fold attach_entity (map (\<lambda>p. '' '' @ entity_text p) ps) (r, enc) =
    (r, fold (\<lambda>(k, v). smap_set k v) ps enc)"
  using assms
proof (induction ps arbitrary: enc)
  case (Cons p ps)
  obtain k v where p: "p = (k, v)" by (cases p)
  have kv: "k \<in> set entities" "0 \<le> v" "v < 2 ^ 31" using Cons.prems(1) p by auto
  have "attach_entity ('' '' @ entity_text p) (r, enc) = (r, smap_set k v enc)"
    unfolding p using kv enc_find_entity [OF Cons.prems(2), of k]
    by (intro attach_entity_printed) (simp_all add: word_text_entity)
  moreover have "enc_ok (smap_set k v enc)"
    using kv Cons.prems(2) by (intro enc_ok_set) auto
  ultimately show ?case using Cons p by simp
qed simp

text \<open>A list of entities as the field carries it.\<close>

definition entities_text :: "encapsulated_header_data_t list \<Rightarrow> string" where
  "entities_text ps =
     (case ps of [] \<Rightarrow> []
      | p # qs \<Rightarrow> entity_text p @ concat (map (\<lambda>p. '', '' @ entity_text p) qs))"

definition entities_ok :: "encapsulated_header_data_t list \<Rightarrow> bool" where
  "entities_ok ps \<longleftrightarrow> (\<forall>(k, v)\<in>set ps. k \<in> set entities \<and> 0 \<le> v \<and> v < 2 ^ 31)"

lemma entities_words:
  assumes "entities_ok ps" and "q \<in> set ps"
  shows "CHR '','' \<notin> set (entity_text q)" and "entity_text q \<noteq> []"
    and "\<not> is_space (hd (entity_text q))" and "\<not> is_space (last (entity_text q))"
proof -
  have q: "fst q \<in> set entities" "0 \<le> snd q"
    using assms by (cases q, auto simp: entities_ok_def)+
  then obtain n where "snd q = int n" using nonneg_int_cases by blast
  then have "word_text (itoa (snd q))" by (simp add: word_text_itoa)
  with q show "CHR '','' \<notin> set (entity_text q)" "entity_text q \<noteq> []"
      "\<not> is_space (hd (entity_text q))" "\<not> is_space (last (entity_text q))"
    using entity_text_word [of q] word_text_entity [of "fst q"] by blast+
qed

lemma trim_entities_text:
  assumes "entities_ok ps"
  shows "trim (entities_text ps) = entities_text ps"
proof (cases ps)
  case Nil
  then show ?thesis by (simp add: entities_text_def trim_id trimmed_def)
next
  case (Cons p qs)
  note words = entities_words [OF assms]
  have str: "entities_text ps = entity_text p @ concat (map (\<lambda>p. '', '' @ entity_text p) qs)"
    using Cons by (simp add: entities_text_def)
  have "last (entities_text ps) = last (entity_text (last ps))"
  proof (cases qs rule: rev_cases)
    case Nil
    then show ?thesis using str Cons by simp
  next
    case (snoc qs' q)
    then have "entity_text q \<noteq> []" using words(2) [of q] Cons by auto
    then show ?thesis using str Cons snoc by simp
  qed
  moreover have "hd (entities_text ps) = hd (entity_text p)"
    using str words(2) [of p] Cons by simp
  ultimately have "trimmed (entities_text ps)"
    using words(3) [of p] words(4) [of "last ps"] Cons by (auto simp: trimmed_def)
  then show ?thesis by (rule trim_id)
qed

lemma attach_entities_text:
  assumes "ps \<noteq> []" and "entities_ok ps" and "enc_ok enc"
  shows "fold attach_entity (split (trim (entities_text ps)) '','') (True, enc) =
    (True, fold (\<lambda>(k, v). smap_set k v) ps enc)"
proof -
  obtain k v qs where pq: "ps = (k, v) # qs" using assms(1) by (cases ps) auto
  let ?items = "map (\<lambda>p. '' '' @ entity_text p) qs"
  have str: "entities_text ps = entity_text (k, v) @ concat (map (\<lambda>b. CHR '','' # b) ?items)"
    using pq by (simp add: entities_text_def comp_def)
  have "split (entities_text ps) '','' = entity_text (k, v) # ?items"
    unfolding str using entities_words(1) [OF assms(2)] pq by (intro split_words) auto
  moreover have "attach_entity ([] @ entity_text (k, v)) (True, enc) = (True, smap_set k v enc)"
    using assms(2) pq enc_find_entity [OF assms(3), of k]
    by (intro attach_entity_printed) (auto simp: word_text_entity entities_ok_def)
  moreover have "fold attach_entity ?items (True, smap_set k v enc) =
      (True, fold (\<lambda>(k, v). smap_set k v) qs (smap_set k v enc))"
    using assms(2,3) pq by (intro fold_attach_printed enc_ok_set) (auto simp: entities_ok_def)
  ultimately show ?thesis using pq trim_entities_text [OF assms(2)] by simp
qed

text \<open>
  Parsing what \<open>encapsulated_header_str\<close> prints: every offset that is set comes back, every
  entity that is not set stays as it was.
\<close>

lemma map_of_filter_pos:
  assumes "distinct (map fst ps)"
  shows "map_of (filter (\<lambda>p. 0 \<le> snd p) ps) k =
    (case map_of ps k of None \<Rightarrow> None | Some v \<Rightarrow> if 0 \<le> v then Some v else (None :: int option))"
  using assms
proof (induction ps)
  case (Cons p ps)
  then show ?case
    by (cases p) (auto split: option.splits simp: map_of_eq_None_iff
        intro: rev_image_eqI dest!: map_of_SomeD)
qed simp

lemma attach_printed_encapsulated:
  assumes "header_ok h" and "enc_ok enc" and "\<exists>v\<in>snd ` set (h_encapsulated h). 0 \<le> v"
  shows "\<exists>enc'. fold attach_entity (split (trim (encapsulated_header_str h)) '','') (True, enc)
      = (True, enc') \<and>
    (\<forall>k. smap_find k enc' =
      (case smap_find k (h_encapsulated h) of
         Some v \<Rightarrow> if 0 \<le> v then Some v else smap_find k enc
       | None \<Rightarrow> smap_find k enc))"
proof -
  let ?srt = "sort_encapsulated_header h"
  let ?ps = "filter (\<lambda>p. 0 \<le> snd p) ?srt"
  have hok: "enc_ok (h_encapsulated h)" using assms(1) by (simp add: header_ok_def)
  have ne: "?ps \<noteq> []" using assms(3) by (auto simp: filter_empty_conv)
  have ent: "entities_ok ?ps"
    unfolding entities_ok_def
  proof safe
    fix k v assume kv: "(k, v) \<in> set ?ps"
    then have "(k, v) \<in> set (h_encapsulated h)" by simp
    then have "k \<in> set (map fst (h_encapsulated h))" "v \<in> snd ` set (h_encapsulated h)"
      by force+
    then show "k \<in> set entities" "v < 2 ^ 31" using hok unfolding enc_ok_def by (metis, metis)
    show "0 \<le> v" using kv by simp
  qed
  have "encapsulated_header_str h = entities_text ?ps"
    using fold_append_entity_Nil [of ?srt] ne entities_words(2) [OF ent]
    by (cases ?ps) (auto simp: encapsulated_header_str_def Let_def entities_text_def)
  then have "fold attach_entity (split (trim (encapsulated_header_str h)) '','') (True, enc) =
      (True, fold (\<lambda>(k, v). smap_set k v) ?ps enc)"
    using attach_entities_text [OF ne ent assms(2)] by simp
  moreover have "smap_find k (fold (\<lambda>(k, v). smap_set k v) ?ps enc) =
      (case smap_find k (h_encapsulated h) of
         Some v \<Rightarrow> if 0 \<le> v then Some v else smap_find k enc
       | None \<Rightarrow> smap_find k enc)" for k
  proof -
    have d: "distinct (map fst ?srt)" using hok by (rule distinct_sort_encapsulated)
    then have dp: "distinct (map fst ?ps)" by (rule distinct_map_filter)
    have "map_of (rev ?ps) k = map_of ?ps k"
      using dp map_of_inject_set [of "rev ?ps" ?ps] by (simp add: rev_map [symmetric])
    moreover have "map_of ?srt k = map_of (h_encapsulated h) k"
      using d hok map_of_inject_set [of ?srt "h_encapsulated h"]
      by (auto simp: enc_ok_def smap_ok_def strict_sorted_iff)
    ultimately show ?thesis
      using smap.find_puts [of enc k ?ps] assms(2) map_of_filter_pos [OF d, of k]
      by (auto simp: enc_ok_def smap_find_map_of split: option.splits)
  qed
  ultimately show ?thesis by blast
qed

section \<open>The offsets \<open>update_encapsulated\<close> writes\<close>

lemma update_part_nat:
  assumes "l < 2 ^ 31"
  shows "update_part e part (of_nat l, off, enc) =
    (of_nat (l + length part), if part = [] then off else of_nat l,
     if part = [] then enc else smap_set e (int l) enc)"
  using assms by (simp add: update_part_def sint_of_nat_small)

lemma update_encapsulated_nat:
  assumes "length (req_header p) + length (req_body p) + length (res_header p)
      + length (res_body p) < 2 ^ 31"
  shows "h_encapsulated (update_encapsulated p h) =
    (let a = length (req_header p); b = a + length (req_body p); c = b + length (res_header p);
         put = (\<lambda>e part (off :: nat) enc. if part = [] then enc else smap_set e (int off) enc);
         enc = put ''res-body'' (res_body p) c (put ''res-hdr'' (res_header p) b
           (put ''req-body'' (req_body p) a (put ''req-hdr'' (req_header p) 0 (h_encapsulated h))));
         last_off = (if res_body p \<noteq> [] then c else if res_header p \<noteq> [] then b
           else if req_body p \<noteq> [] then a else 0)
     in if last_off = 0 then smap_set ''null-body'' (int (c + length (res_body p))) enc else enc)"
proof -
  let ?a = "length (req_header p)" and ?b = "length (req_header p) + length (req_body p)"
  let ?c = "length (req_header p) + length (req_body p) + length (res_header p)"
  have s1: "update_part ''req-hdr'' (req_header p) (0, 0, enc) =
      (of_nat ?a, 0, if req_header p = [] then enc else smap_set ''req-hdr'' 0 enc)" for enc
    using update_part_nat [of 0 "''req-hdr''" "req_header p" 0 enc] by simp
  have s2: "update_part ''req-body'' (req_body p) (of_nat ?a, off, enc) =
      (of_nat ?b, if req_body p = [] then off else of_nat ?a,
       if req_body p = [] then enc else smap_set ''req-body'' (int ?a) enc)" for off enc
    by (rule update_part_nat) (use assms in simp)
  have s3: "update_part ''res-hdr'' (res_header p) (of_nat ?b, off, enc) =
      (of_nat ?c, if res_header p = [] then off else of_nat ?b,
       if res_header p = [] then enc else smap_set ''res-hdr'' (int ?b) enc)" for off enc
    by (rule update_part_nat) (use assms in simp)
  have s4: "update_part ''res-body'' (res_body p) (of_nat ?c, off, enc) =
      (of_nat (?c + length (res_body p)), if res_body p = [] then off else of_nat ?c,
       if res_body p = [] then enc else smap_set ''res-body'' (int ?c) enc)" for off enc
    by (rule update_part_nat) (use assms in simp)
  have zero: "(of_nat n = (0 :: u32)) = (n = 0)" if "n < 2 ^ 31" for n
    using unat_of_nat_small [of n] that by (cases "n = 0") (auto simp del: of_nat_0_eq_iff)
  have z: "(of_nat ?a = (0 :: u32)) = (?a = 0)" "(of_nat ?b = (0 :: u32)) = (?b = 0)"
      "(of_nat ?c = (0 :: u32)) = (?c = 0)"
    using assms by (intro zero; simp)+
  have l: "sint (of_nat (?c + length (res_body p)) :: u32) = int (?c + length (res_body p))"
    by (rule sint_of_nat_small) (use assms in simp)
  show ?thesis
    unfolding update_encapsulated_def s1 s2 s3 s4 prod.case l Let_def
    using z by (cases "req_body p = []"; cases "res_header p = []"; cases "res_body p = []")
      (simp_all del: of_nat_add)
qed

end
