(* ===== verification/IcapMessage.thy ===== *)
theory IcapMessage
  imports IcapHeader
begin

text \<open>
  The two message headers and the two messages: \<open>lib/icap/request_header.cpp\<close>,
  \<open>response_header.cpp\<close>, \<open>request.cpp\<close>, \<open>response.cpp\<close> with their header files. A class
  derived from \<open>icap::Header\<close> is an extension of the record \<open>header\<close>, so the operations of
  the base class apply to it. A message owns its header: the sources never share one between
  two messages.
\<close>

section \<open>Request header\<close>

record request_t =
  rq_method :: string
  rq_uri :: string
  rq_protocol :: string

record request_header = header +
  rh_request :: request_t
  rh_raw_data :: string

text \<open>A header line: only a line with exactly one colon is attached.\<close>

definition attach_line :: "string \<Rightarrow> 'a header_scheme \<Rightarrow> 'a header_scheme" where
  "attach_line line h =
     (let header_data = split line '':''
      in if length header_data = 2 then attach (header_data ! 0) (header_data ! 1) h else h)"

definition read_request_line :: "string \<Rightarrow> request_t \<Rightarrow> request_t" where
  "read_request_line request_data rq =
     (let request = split (trim request_data) '' ''
      in if length request = 3
         then \<lparr>rq_method = request ! 0, rq_uri = request ! 1, rq_protocol = request ! 2\<rparr>
         else rq)"

definition read_header :: "string \<Rightarrow> request_header \<Rightarrow> request_header" where
  "read_header raw_data h =
     (let h = h\<lparr>rh_raw_data := raw_data\<rparr>; data = split raw_data CRLF
      in if 0 < length data
         then fold attach_line (tl data)
           (h\<lparr>rh_request := read_request_line (data ! 0) (rh_request h)\<rparr>)
         else h)"

definition new_request_header :: "string \<Rightarrow> request_header" where
  "new_request_header raw_data =
     read_header raw_data
       (header.extend new_header
         \<lparr>rh_request = \<lparr>rq_method = [], rq_uri = [], rq_protocol = ''ICAP/1.0''\<rparr>,
          rh_raw_data = []\<rparr>)"

definition method_of :: "request_header \<Rightarrow> string" where
  "method_of h = rq_method (rh_request h)"

definition uri :: "request_header \<Rightarrow> string" where
  "uri h = rq_uri (rh_request h)"

definition protocol :: "request_header \<Rightarrow> string" where
  "protocol h = rq_protocol (rh_request h)"

section \<open>Response status\<close>

text \<open>
  The enumeration; \<open>OTHER_STATUS\<close> holds a value that is none of the enumerators, as the cast
  of an integer can give (\<open>status_of_code\<close>).
\<close>

datatype status_t =
    CONTINUE | OK | NO_CONTENT | BAD_REQUEST | NOT_FOUND | NOT_ALLOWED | REQ_TIMEOUT
  | SERVER_ERROR | NOT_IMPLEMENTED | BAD_GATEWAY | SERVICE_OVERLOADED | NOT_SUPPORTED
  | OTHER_STATUS int

primrec status_code :: "status_t \<Rightarrow> int" where
  "status_code CONTINUE = 100"
| "status_code OK = 200"
| "status_code NO_CONTENT = 204"
| "status_code BAD_REQUEST = 400"
| "status_code NOT_FOUND = 404"
| "status_code NOT_ALLOWED = 405"
| "status_code REQ_TIMEOUT = 408"
| "status_code SERVER_ERROR = 500"
| "status_code NOT_IMPLEMENTED = 501"
| "status_code BAD_GATEWAY = 502"
| "status_code SERVICE_OVERLOADED = 503"
| "status_code NOT_SUPPORTED = 505"
| "status_code (OTHER_STATUS n) = n"

definition statuses :: "status_t list" where
  "statuses = [CONTINUE, OK, NO_CONTENT, BAD_REQUEST, NOT_FOUND, NOT_ALLOWED, REQ_TIMEOUT,
     SERVER_ERROR, NOT_IMPLEMENTED, BAD_GATEWAY, SERVICE_OVERLOADED, NOT_SUPPORTED]"

definition status_of_code :: "int \<Rightarrow> status_t" where
  "status_of_code n =
     (case filter (\<lambda>s. status_code s = n) statuses of s # _ \<Rightarrow> s | [] \<Rightarrow> OTHER_STATUS n)"

text \<open>The values in use compare as their codes; the flag only keeps the order total.\<close>

definition status_key :: "status_t \<Rightarrow> int \<times> bool" where
  "status_key s = (status_code s, (case s of OTHER_STATUS _ \<Rightarrow> True | _ \<Rightarrow> False))"

instantiation status_t :: linorder
begin

definition less_eq_status_t :: "status_t \<Rightarrow> status_t \<Rightarrow> bool" where
  "less_eq_status_t s t \<longleftrightarrow>
     status_code s < status_code t \<or>
     status_code s = status_code t \<and> (snd (status_key s) \<longrightarrow> snd (status_key t))"

definition less_status_t :: "status_t \<Rightarrow> status_t \<Rightarrow> bool" where
  "less_status_t s t \<longleftrightarrow> s \<le> t \<and> \<not> t \<le> s"

instance
proof
  show "s = t" if "s \<le> t" and "t \<le> s" for s t :: status_t
    using that
    by (cases s; cases t) (auto simp: less_eq_status_t_def status_key_def order_less_imp_not_less)
qed (auto simp: less_eq_status_t_def less_status_t_def)

end

lemma status_of_status_code: "s \<in> set statuses \<Longrightarrow> status_of_code (status_code s) = s"
  by (cases s) (simp_all add: status_of_code_def statuses_def)

text \<open>\<open>response_status\<close>: the map is filled on every call, \<open>operator[]\<close> gives "" elsewhere.\<close>

definition status_text :: "(status_t \<times> string) list" where
  "status_text =
     [(CONTINUE, ''Continue''), (OK, ''OK''), (NO_CONTENT, ''No modifications needed''),
      (BAD_REQUEST, ''Bad request''), (NOT_FOUND, ''ICAP Service not found''),
      (NOT_ALLOWED, ''Method not allowed for service''), (REQ_TIMEOUT, ''Request timeout''),
      (SERVER_ERROR, ''Server error''), (NOT_IMPLEMENTED, ''Method not implemented''),
      (BAD_GATEWAY, ''Bad gateway''), (SERVICE_OVERLOADED, ''Service overloaded''),
      (NOT_SUPPORTED, ''ICAP version not supported by server'')]"

definition response_status :: "status_t \<Rightarrow> string" where
  "response_status status =
     smap_at [] status (fold (\<lambda>(k, v). smap_set k v) status_text [])"

section \<open>Response header\<close>

text \<open>
  What the constructor reads from outside: the date as \<open>strftime\<close> prints it, the time, the
  processor clock, and the package string of the build.
\<close>

record clock =
  cl_date :: string
  cl_time :: int
  cl_clock :: int
  cl_package :: string

record response_t =
  rs_protocol :: string
  rs_status :: status_t

record response_header = header +
  sh_response :: response_t

definition update_timestamp :: "clock \<Rightarrow> response_header \<Rightarrow> response_header" where
  "update_timestamp cl h = attach ''Date'' (cl_date cl) h"

definition generate_istag :: "clock \<Rightarrow> response_header \<Rightarrow> response_header" where
  "generate_istag cl h =
     (let istag = ''BITZ-'' @ itoa (cl_time cl) @ ''-'' @ itoa (cl_clock cl)
      in attach ''ISTag'' (substr istag 0 (Some 32)) h)"

definition init_defaults :: "clock \<Rightarrow> response_header \<Rightarrow> response_header" where
  "init_defaults cl h =
     (let h = update_timestamp cl h;
          h = generate_istag cl h;
          h = attach ''Server'' (cl_package cl) h
      in if rs_status (sh_response h) \<noteq> CONTINUE then attach ''Connection'' ''close'' h else h)"

definition new_response_header :: "clock \<Rightarrow> status_t \<Rightarrow> response_header" where
  "new_response_header cl status =
     init_defaults cl
       (header.extend new_header \<lparr>sh_response = \<lparr>rs_protocol = ''ICAP/1.0'', rs_status = status\<rparr>\<rparr>)"

section \<open>Messages\<close>

definition empty_payload :: payload_t where
  "empty_payload = \<lparr>req_header = [], req_body = [], res_header = [], res_body = [], ieof = False\<rparr>"

record request =
  q_header :: request_header
  q_payload :: payload_t

definition new_request :: "request_header \<Rightarrow> request" where
  "new_request h = \<lparr>q_header = h, q_payload = empty_payload\<rparr>"

definition set_request_payload :: "payload_t \<Rightarrow> request \<Rightarrow> request" where
  "set_request_payload payload rq =
     \<lparr>q_header = update_encapsulated payload (q_header rq), q_payload = payload\<rparr>"

definition preview_size :: "request \<Rightarrow> int" where
  "preview_size rq =
     (let s_size = header_value ''Preview'' (q_header rq)
      in if s_size \<noteq> [] then atoi s_size else - 1)"

record response =
  r_header :: response_header
  r_payload :: payload_t
  r_cleanup_header :: bool

text \<open>\<open>Response( ResponseHeader * )\<close>, the null pointer as None.\<close>

definition new_response_from :: "clock \<Rightarrow> response_header option \<Rightarrow> response" where
  "new_response_from cl header =
     (case header of
        Some h \<Rightarrow> \<lparr>r_header = h, r_payload = empty_payload, r_cleanup_header = False\<rparr>
      | None \<Rightarrow> \<lparr>r_header = new_response_header cl SERVER_ERROR, r_payload = empty_payload,
                r_cleanup_header = True\<rparr>)"

text \<open>\<open>Response( status )\<close> leaves the flag \<open>ieof\<close> of the payload unset: it is \<open>junk\<close>.\<close>

definition new_response :: "clock \<Rightarrow> bool \<Rightarrow> status_t \<Rightarrow> response" where
  "new_response cl junk status =
     \<lparr>r_header = new_response_header cl status, r_payload = empty_payload\<lparr>ieof := junk\<rparr>,
      r_cleanup_header = True\<rparr>"

definition set_response_payload :: "payload_t \<Rightarrow> response \<Rightarrow> response" where
  "set_response_payload payload rs =
     rs\<lparr>r_header := update_encapsulated payload (r_header rs), r_payload := payload\<rparr>"

section \<open>Header fields\<close>

lemma header_value_attach:
  assumes "trim key \<noteq> ''Encapsulated''"
  shows "header_value k (attach key v h) = (if k = trim key then trim v else header_value k h)"
  using assms by (auto simp: attach_def header_value_def smap_find_set Let_def)

lemma attach_encapsulated_value [simp]:
  "header_value k (snd (attach_encapsulated v h)) = header_value k h"
  by (auto simp: attach_encapsulated_def header_value_def split: prod.splits)

lemma attach_more [simp]:
  "rh_request (attach k v h1) = rh_request h1" "rh_raw_data (attach k v h1) = rh_raw_data h1"
  "sh_response (attach k v h2) = sh_response h2"
  by (auto simp: attach_def attach_encapsulated_def Let_def split: prod.splits)

lemma attach_line_ok: "header_ok h \<Longrightarrow> header_ok (attach_line l h)"
  by (simp add: attach_line_def attach_ok Let_def)

lemma attach_lines_ok: "header_ok h \<Longrightarrow> header_ok (fold attach_line ls h)"
  by (induction ls arbitrary: h) (simp_all add: attach_line_ok)

lemma header_ok_extend:
  "header_ok (header.extend new_header m1)" "header_ok (header.extend new_header m2)"
  using header_ok_new by (simp_all add: header_ok_def header.defs)

lemma new_request_header_ok: "header_ok (new_request_header raw)"
proof -
  have "header_ok (h\<lparr>rh_request := r, rh_raw_data := d\<rparr>) = header_ok h" for h :: request_header and r d
    by (simp add: header_ok_def)
  moreover have "header_ok (h\<lparr>rh_raw_data := d\<rparr>) = header_ok h" for h :: request_header and d
    by (simp add: header_ok_def)
  ultimately show ?thesis
    using header_ok_extend(1)
    by (auto simp: new_request_header_def read_header_def Let_def header.defs
        intro!: attach_lines_ok)
qed

lemma init_defaults_ok: "header_ok h \<Longrightarrow> header_ok (init_defaults cl h)"
  by (simp add: init_defaults_def update_timestamp_def generate_istag_def attach_ok Let_def)

lemma new_response_header_ok: "header_ok (new_response_header cl status)"
  unfolding new_response_header_def by (intro init_defaults_ok header_ok_extend)

lemma trim_names [simp]:
  "trim ''Date'' = ''Date''" "trim ''ISTag'' = ''ISTag''" "trim ''Server'' = ''Server''"
  "trim ''Connection'' = ''Connection''" "trim ''close'' = ''close''" "trim ''Methods'' = ''Methods''"
  by (rule trim_id, simp add: trimmed_def is_space_def)+

lemma response_header_fields:
  shows "header_value ''Date'' (new_response_header cl st) = trim (cl_date cl)"
    and "header_value ''Server'' (new_response_header cl st) = trim (cl_package cl)"
    and "header_value ''ISTag'' (new_response_header cl st) =
      trim (take 32 (''BITZ-'' @ itoa (cl_time cl) @ ''-'' @ itoa (cl_clock cl)))"
    and "header_value ''Connection'' (new_response_header cl st) = (if st = CONTINUE then '''' else ''close'')"
    and "sh_response (new_response_header cl st) = \<lparr>rs_protocol = ''ICAP/1.0'', rs_status = st\<rparr>"
  by (simp_all add: new_response_header_def init_defaults_def update_timestamp_def
      generate_istag_def Let_def header_value_attach substr_def header.defs new_header_def)
    (auto simp: header_value_def)

lemma attach_encapsulated_same:
  "trim key \<noteq> ''Encapsulated'' \<Longrightarrow> h_encapsulated (attach key v h) = h_encapsulated h"
  by (simp add: attach_def Let_def)

lemma response_encapsulated: "h_encapsulated (new_response_header cl st) = init_encapsulated"
  by (simp add: new_response_header_def init_defaults_def update_timestamp_def
      generate_istag_def Let_def attach_encapsulated_same header.defs new_header_def)

lemma response_status_text:
  "response_status st = (case map_of status_text st of Some t \<Rightarrow> t | None \<Rightarrow> [])"
proof -
  have "map_of (rev status_text) = map_of status_text"
    by (rule map_of_inject_set [THEN iffD2]) (auto simp: status_text_def)
  then show ?thesis
    using smap.find_puts [of "[]" st status_text]
    by (simp add: response_status_def smap_at_def split: option.splits)
qed

text \<open>A request header as it is parsed: the request line, then one field per line.\<close>

lemma new_request_header_pieces:
  "new_request_header raw =
    (let ls = pieces (\<lambda>c. c \<in> set CRLF) raw
     in fold attach_line (tl ls)
       (header.extend new_header
         \<lparr>rh_request = read_request_line (hd ls)
            \<lparr>rq_method = [], rq_uri = [], rq_protocol = ''ICAP/1.0''\<rparr>, rh_raw_data = raw\<rparr>))"
  using split_nonempty [of raw CRLF]
  by (simp add: new_request_header_def read_header_def Let_def split_pieces header.defs hd_conv_nth)

lemma preview_size_bounds: "- (2 ^ 31) \<le> preview_size rq \<and> preview_size rq < 2 ^ 31"
  using atoi_bounds by (simp add: preview_size_def Let_def)

end
