(* ===== verification/SockStream.thy ===== *)
theory SockStream
  imports Prelude
begin

text \<open>
  The client connection. \<open>psocksxx::iosockstream\<close> is a \<open>std::iostream\<close> over a socket; the
  stream half (\<open>get\<close>, \<open>read\<close>, \<open>good\<close>, \<open>gcount\<close>, \<open>write\<close>, \<open>flush\<close>) is the standard
  library's and is modelled as the standard words it, the socket half is not under the
  repository and is a script the state carries: the bytes the peer still delivers, whether
  the input ends by a communication timeout, which calls of \<open>read\<close> and \<open>write\<close> raise
  \<open>psocksxx::sockexception\<close> (setting \<open>badbit\<close>, as the standard has it) or fail silently, which
  calls of \<open>flush\<close> fail, and what a failing call still did; a \<open>get\<close> only ends. Every theorem
  holds for every script.
  The locales \<open>stream_reader\<close> and \<open>stream_writer\<close> are what every routine that reads from
  (writes to) a connection owes its callers.
\<close>

section \<open>The state of a connection\<close>

text \<open>
  What one call of \<open>write\<close> or \<open>flush\<close> meets: it succeeds, it raises, or the buffer refuses it; in
  the last two cases a part of the bytes, counted by the argument, is dealt with before.
\<close>

datatype wevent = W_ok | W_throw nat | W_bad nat

record sock =
  s_in :: string               \<comment> \<open>bytes the peer still delivers before the input ends\<close>
  s_good :: bool               \<comment> \<open>\<open>rdstate() == goodbit\<close>\<close>
  s_gcount :: nat
  s_out :: string              \<comment> \<open>bytes handed to the stream buffer so far\<close>
  s_flushed :: nat             \<comment> \<open>how many of them the calls of \<open>flush()\<close> have pushed out\<close>
  s_rthrow :: "bool list"      \<comment> \<open>per call of \<open>read\<close>: does it raise; none left means no\<close>
  s_wev :: "wevent list"       \<comment> \<open>per call of \<open>write\<close> or \<open>flush\<close>; none left means \<open>W_ok\<close>\<close>
  s_tmo :: bool                \<comment> \<open>the input ends by a timeout\<close>
  s_timedout :: bool           \<comment> \<open>\<open>timedout()\<close>\<close>
  s_junk :: "nat \<Rightarrow> u32"       \<comment> \<open>uninitialised locals, by the input length they are read at\<close>

section \<open>The stream calls the sources use\<close>

text \<open>\<open>get()\<close>: None is \<open>traits::eof()\<close>; hitting the end sets \<open>eofbit\<close> and \<open>failbit\<close>.\<close>

definition sock_get :: "sock \<Rightarrow> char option \<times> sock" where
  "sock_get s =
     (if \<not> s_good s then (None, s\<lparr>s_gcount := 0\<rparr>)
      else case s_in s of
        [] \<Rightarrow> (None, s\<lparr>s_gcount := 0, s_good := False, s_timedout := s_timedout s \<or> s_tmo s\<rparr>)
      | c # cs \<Rightarrow> (Some c, s\<lparr>s_gcount := 1, s_in := cs\<rparr>))"

text \<open>
  \<open>read( buf, n )\<close>: None is a raised exception, else what was put in the buffer. An exception of
  the buffer passes through the stream, which sets \<open>badbit\<close> first.
\<close>

definition sock_read :: "nat \<Rightarrow> sock \<Rightarrow> string option \<times> sock" where
  "sock_read n s =
     (if \<not> s_good s then (Some [], s\<lparr>s_gcount := 0\<rparr>)
      else if s_rthrow s \<noteq> [] \<and> hd (s_rthrow s) then (None, s\<lparr>s_rthrow := tl (s_rthrow s), s_gcount := 0, s_good := False\<rparr>)
      else let s' = s\<lparr>s_rthrow := tl (s_rthrow s), s_in := drop n (s_in s),
                      s_gcount := min n (length (s_in s))\<rparr>
           in (Some (take n (s_in s)),
               if n \<le> length (s_in s) then s'
               else s'\<lparr>s_good := False, s_timedout := s_timedout s \<or> s_tmo s\<rparr>))"

text \<open>\<open>write( buf, n )\<close>: False is a raised exception; on a stream that is not good the call
  does nothing and returns.\<close>

definition sock_write :: "string \<Rightarrow> sock \<Rightarrow> bool \<times> sock" where
  "sock_write bs s =
     (if \<not> s_good s then (True, s)
      else let s' = s\<lparr>s_wev := tl (s_wev s)\<rparr>
           in case s_wev s of
                W_throw n # _ \<Rightarrow> (False, s'\<lparr>s_good := False, s_out := s_out s @ take n bs\<rparr>)
              | W_bad n # _ \<Rightarrow> (True, s'\<lparr>s_good := False, s_out := s_out s @ take n bs\<rparr>)
              | _ \<Rightarrow> (True, s'\<lparr>s_out := s_out s @ bs\<rparr>))"

text \<open>
  \<open>flush()\<close>: a failure, raised by the buffer or not, sets \<open>badbit\<close> and nothing else, as the sources
  set no mask of exceptions. So the call has no result. The peer has got at least the bytes counted
  here, and at most all that were handed over: a full buffer pushes bytes out by itself.
\<close>

definition sock_flush :: "sock \<Rightarrow> sock" where
  "sock_flush s =
     (if \<not> s_good s then s
      else let s' = s\<lparr>s_wev := tl (s_wev s)\<rparr>;
               part = (\<lambda>n. s'\<lparr>s_good := False, s_flushed := min (length (s_out s)) (s_flushed s + n)\<rparr>)
           in case s_wev s of
                W_throw n # _ \<Rightarrow> part n
              | W_bad n # _ \<Rightarrow> part n
              | _ \<Rightarrow> s'\<lparr>s_flushed := length (s_out s)\<rparr>)"

text \<open>
  \<open>( c = socket->get() ) > 0\<close> for a signed \<open>char c\<close>: end of file, a null byte and every
  byte from 128 on fail the test.
\<close>

definition positive :: "char \<Rightarrow> bool" where
  "positive c \<longleftrightarrow> 0 < (of_char c :: nat) \<and> of_char c < (128 :: nat)"

section \<open>What a reading routine may change\<close>

definition consumed :: "sock \<Rightarrow> sock \<Rightarrow> bool" where
  "consumed s s' \<longleftrightarrow>
     (\<exists>p. s_in s = p @ s_in s') \<and> s_out s' = s_out s \<and> s_flushed s' = s_flushed s \<and>
     s_wev s' = s_wev s \<and> s_junk s' = s_junk s \<and> s_tmo s' = s_tmo s \<and>
     (s_good s' \<longrightarrow> s_good s \<and> s_timedout s' = s_timedout s) \<and> (\<not> s_good s \<longrightarrow> s_in s' = s_in s) \<and>
     length (s_rthrow s') \<le> length (s_rthrow s)"

lemma consumed_refl [simp]: "consumed s s"
  by (simp add: consumed_def)

lemma consumed_trans:
  assumes "consumed s s'" and "consumed s' s''"
  shows "consumed s s''"
proof -
  obtain p q where "s_in s = p @ s_in s'" and "s_in s' = q @ s_in s''"
    using assms unfolding consumed_def by blast
  then have "s_in s = (p @ q) @ s_in s''" by simp
  then have "\<exists>r. s_in s = r @ s_in s''" by blast
  then show ?thesis
    using assms unfolding consumed_def
    by (elim conjE) (intro conjI; metis order_trans)
qed

lemma consumed_length: "consumed s s' \<Longrightarrow> length (s_in s') \<le> length (s_in s)"
  by (auto simp: consumed_def)

lemma consumed_out: "consumed s s' \<Longrightarrow> s_out s' = s_out s"
  by (simp add: consumed_def)

lemma consumed_get: "consumed s (snd (sock_get s))"
  by (auto simp: consumed_def sock_get_def split: list.splits)

lemma consumed_read: "consumed s (snd (sock_read n s))"
  by (auto simp: consumed_def sock_read_def Let_def intro: append_take_drop_id [symmetric])

locale stream_reader =
  fixes rd :: "sock \<Rightarrow> 'a \<times> sock"
  assumes consumes: "consumed s (snd (rd s))"
begin

lemma reader_out: "s_out (snd (rd s)) = s_out s"
  and reader_flushed: "s_flushed (snd (rd s)) = s_flushed s"
  and reader_junk: "s_junk (snd (rd s)) = s_junk s"
  and reader_tmo: "s_tmo (snd (rd s)) = s_tmo s"
  and reader_wev: "s_wev (snd (rd s)) = s_wev s"
  and reader_good: "s_good (snd (rd s)) \<Longrightarrow> s_good s"
  and reader_prefix: "\<exists>p. s_in s = p @ s_in (snd (rd s))"
  and reader_rthrow: "length (s_rthrow (snd (rd s))) \<le> length (s_rthrow s)"
  using consumes [of s] by (auto simp: consumed_def)

lemma reader_length: "length (s_in (snd (rd s))) \<le> length (s_in s)"
  using consumes by (rule consumed_length)

lemma then_reader:
  assumes "\<And>x s. consumed s (snd (rd' x s))"
  shows "consumed s (snd (case rd s of (x, s') \<Rightarrow> rd' x s'))"
  using consumes [of s] assms by (auto intro: consumed_trans split: prod.splits)

end

interpretation sget: stream_reader sock_get
  by unfold_locales (rule consumed_get)

interpretation sread: stream_reader "sock_read n" for n
  by unfold_locales (rule consumed_read)

section \<open>What a writing routine may change\<close>

definition emitted :: "sock \<Rightarrow> sock \<Rightarrow> bool" where
  "emitted s s' \<longleftrightarrow>
     (\<exists>w. s_out s' = s_out s @ w) \<and> s_in s' = s_in s \<and> s_gcount s' = s_gcount s \<and>
     s_rthrow s' = s_rthrow s \<and> s_junk s' = s_junk s \<and> s_tmo s' = s_tmo s \<and>
     s_timedout s' = s_timedout s \<and> (s_good s' \<longrightarrow> s_good s) \<and>
     (\<not> s_good s \<longrightarrow> s_out s' = s_out s) \<and> length (s_wev s') \<le> length (s_wev s)"

lemma emitted_refl [simp]: "emitted s s"
  by (simp add: emitted_def)

lemma emitted_trans: "emitted s s' \<Longrightarrow> emitted s' s'' \<Longrightarrow> emitted s s''"
  by (fastforce simp: emitted_def)

lemma emitted_write: "emitted s (snd (sock_write bs s))"
  by (auto simp: emitted_def sock_write_def Let_def split: list.splits wevent.splits)

lemma emitted_flush: "emitted s (sock_flush s)"
  by (auto simp: emitted_def sock_flush_def Let_def split: list.splits wevent.splits)

locale stream_writer =
  fixes wr :: "sock \<Rightarrow> 'a \<times> sock"
  assumes emits: "emitted s (snd (wr s))"
begin

lemma writer_in: "s_in (snd (wr s)) = s_in s"
  and writer_timedout: "s_timedout (snd (wr s)) = s_timedout s"
  and writer_good: "s_good (snd (wr s)) \<Longrightarrow> s_good s"
  and writer_dead: "\<not> s_good s \<Longrightarrow> s_out (snd (wr s)) = s_out s"
  and writer_prefix: "\<exists>w. s_out (snd (wr s)) = s_out s @ w"
  using emits [of s] by (auto simp: emitted_def)

lemma then_writer:
  assumes "\<And>x s. emitted s (snd (wr' x s))"
  shows "emitted s (snd (case wr s of (x, s') \<Rightarrow> wr' x s'))"
  using emits [of s] assms by (auto intro: emitted_trans split: prod.splits)

end

interpretation swrite: stream_writer "sock_write bs" for bs
  by unfold_locales (rule emitted_write)

section \<open>A connection that works\<close>

text \<open>No call of \<open>read\<close> raises; every call of \<open>write\<close> and of \<open>flush\<close> succeeds.\<close>

definition calm :: "sock \<Rightarrow> bool" where
  "calm s \<longleftrightarrow> s_good s \<and> \<not> (\<exists>b\<in>set (s_rthrow s). b) \<and> (\<forall>e\<in>set (s_wev s). e = W_ok)"

lemma calm_good: "calm s \<Longrightarrow> s_good s"
  by (simp add: calm_def)

lemma calm_updates [simp]:
  "calm (s\<lparr>s_in := i\<rparr>) = calm s" "calm (s\<lparr>s_gcount := g\<rparr>) = calm s"
  "calm (s\<lparr>s_out := ou\<rparr>) = calm s" "calm (s\<lparr>s_flushed := f\<rparr>) = calm s"
  by (simp_all add: calm_def)

lemma sock_get_Cons:
  "s_good s \<Longrightarrow> s_in s = c # cs \<Longrightarrow> sock_get s = (Some c, s\<lparr>s_gcount := 1, s_in := cs\<rparr>)"
  by (simp add: sock_get_def)

text \<open>Writing on a working connection appends, and it goes on working.\<close>

lemma sock_write_calm:
  assumes "calm s"
  shows "sock_write bs s = (True, s\<lparr>s_wev := tl (s_wev s), s_out := s_out s @ bs\<rparr>)"
    and "calm (s\<lparr>s_wev := tl (s_wev s), s_out := out\<rparr>)"
  using assms by (cases "s_wev s"; auto simp: calm_def sock_write_def Let_def)+

lemma sock_flush_calm:
  assumes "calm s"
  shows "sock_flush s = s\<lparr>s_wev := tl (s_wev s), s_flushed := length (s_out s)\<rparr>"
    and "calm (s\<lparr>s_wev := tl (s_wev s), s_flushed := n\<rparr>)"
  using assms by (cases "s_wev s"; auto simp: calm_def sock_flush_def Let_def)+

lemma sock_read_calm:
  assumes "calm s" and "s_in s = bs @ rest" and "length bs = n"
  shows "sock_read n s =
    (Some bs, s\<lparr>s_rthrow := tl (s_rthrow s), s_in := rest, s_gcount := n\<rparr>)"
    and "calm (s\<lparr>s_rthrow := tl (s_rthrow s), s_in := i, s_gcount := g\<rparr>)"
proof -
  have h: "\<not> (s_rthrow s \<noteq> [] \<and> hd (s_rthrow s))"
    using assms(1) by (cases "s_rthrow s") (auto simp: calm_def)
  show "sock_read n s =
    (Some bs, s\<lparr>s_rthrow := tl (s_rthrow s), s_in := rest, s_gcount := n\<rparr>)"
    unfolding sock_read_def Let_def if_not_P [OF h]
    using assms(2,3) calm_good [OF assms(1)] by simp
  show "calm (s\<lparr>s_rthrow := tl (s_rthrow s), s_in := i, s_gcount := g\<rparr>)"
    using assms(1) by (cases "s_rthrow s") (auto simp: calm_def)
qed

end
