(* ===== verification/IcapRead.thy ===== *)
theory IcapRead
  imports SockStream IcapText
begin

text \<open>
  Reading from a connection, from \<open>lib/icap/util.cpp\<close>: the two versions of \<open>read_line\<close> and
  \<open>read_data\<close>. The loops are recursive functions; each terminates because a round that goes
  on has consumed input (or, in \<open>read_data\<close>, one entry of the script of raising calls).
\<close>

section \<open>Lines\<close>

definition ICAP_BUFFER_SIZE :: int where
  "ICAP_BUFFER_SIZE = 1024"

lemma sock_get_Some: "sock_get s = (Some c, s') \<Longrightarrow> s_good s \<and> s_in s = c # s_in s'"
  by (auto simp: sock_get_def split: if_splits list.splits)

lemma sock_get_shorter: "(Some c, s') = sock_get s \<Longrightarrow> length (s_in s') < length (s_in s)"
  by (drule sym) (auto dest: sock_get_Some)

text \<open>
  \<open>read_line( socket, buf, buf_length, incl_endl )\<close>. The buffer is the list of the first
  \<open>i\<close> characters written, so \<open>i\<close> is its length; the result is the buffer up to the null
  byte stored last (no null byte is ever stored before it) and \<open>i\<close> is the count returned.
\<close>

function read_line_buf_loop :: "int \<Rightarrow> bool \<Rightarrow> string \<Rightarrow> char \<Rightarrow> sock \<Rightarrow> string \<times> sock" where
  "read_line_buf_loop buf_length incl_endl buf c_last s =
     (if int (length buf) < buf_length - 1 then
        (case sock_get s of
           (Some c, s') \<Rightarrow>
             if positive c then
               if c_last = CR \<and> c = LF then
                 (if incl_endl then buf @ [c] else butlast buf, s')
               else read_line_buf_loop buf_length incl_endl (buf @ [c]) c s'
             else (buf, s')
         | (None, s') \<Rightarrow> (buf, s'))
      else (buf, s))"
  by pat_completeness auto
termination
  by (relation "measure (\<lambda>(_, _, _, _, s). length (s_in s))") (auto dest: sock_get_shorter)

definition read_line_buf :: "int \<Rightarrow> bool \<Rightarrow> sock \<Rightarrow> (int \<times> string) \<times> sock" where
  "read_line_buf buf_length incl_endl s =
     (case read_line_buf_loop buf_length incl_endl [] (CHR 0x00) s of
        (buf, s') \<Rightarrow> ((int (length buf), buf), s'))"

text \<open>\<open>read_line( socket, incl_endl )\<close>, the version without a bound.\<close>

function read_line_loop :: "bool \<Rightarrow> string \<Rightarrow> char \<Rightarrow> sock \<Rightarrow> string \<times> sock" where
  "read_line_loop incl_endl line c_last s =
     (case sock_get s of
        (Some c, s') \<Rightarrow>
          if positive c then
            if c_last = CR \<and> c = LF then
              (if incl_endl then line @ [c] else take (length line - 1) line, s')
            else read_line_loop incl_endl (line @ [c]) c s'
          else (line, s')
      | (None, s') \<Rightarrow> (line, s'))"
  by pat_completeness auto
termination
  by (relation "measure (\<lambda>(_, _, _, s). length (s_in s))") (auto dest: sock_get_shorter)

definition read_line :: "bool \<Rightarrow> sock \<Rightarrow> string \<times> sock" where
  "read_line incl_endl s = read_line_loop incl_endl [] (CHR 0x00) s"

declare read_line_buf_loop.simps [simp del] read_line_loop.simps [simp del]

section \<open>Counted data\<close>

lemma sock_read_progress:
  assumes "sock_read n s = (r, s')"
  shows "r = None \<Longrightarrow> length (s_rthrow s') < length (s_rthrow s)"
    and "r = Some b \<Longrightarrow> s_good s' \<Longrightarrow> s_gcount s' = n \<and> length b = n"
    and "length (s_rthrow s') \<le> length (s_rthrow s)"
  using assms by (auto simp: sock_read_def Let_def split: if_splits)

function read_data_loop :: "int \<Rightarrow> string \<Rightarrow> sock \<Rightarrow> string \<times> sock" where
  "read_data_loop sz data s =
     (if 0 < sz then
        (case sock_read (nat (min sz ICAP_BUFFER_SIZE)) s of
           (None, s') \<Rightarrow> read_data_loop sz data s'
         | (Some buffer, s') \<Rightarrow>
             if \<not> s_good s' then (data, s')
             else read_data_loop (sz - int (s_gcount s')) (data @ take (s_gcount s') buffer) s')
      else (data, s))"
  by pat_completeness auto
termination
proof (relation "measure (\<lambda>(sz, data, s). nat sz + length (s_rthrow s))", goal_cases)
  case (2 sz data s r s')
  then show ?case using sock_read_progress(1) [of _ s r s'] by simp
next
  case (3 sz data s r s' buffer)
  let ?n = "nat (min sz ICAP_BUFFER_SIZE)"
  have n: "0 < ?n" using 3(1) by (simp add: ICAP_BUFFER_SIZE_def)
  have "s_gcount s' = ?n" and "length (s_rthrow s') \<le> length (s_rthrow s)"
    using 3 sock_read_progress(2,3) [of ?n s r s'] by (auto simp: sym)
  with n 3(1) show ?case by (auto simp: ICAP_BUFFER_SIZE_def)
qed simp

declare read_data_loop.simps [simp del]

definition read_data :: "int \<Rightarrow> sock \<Rightarrow> string \<times> sock" where
  "read_data sz s = read_data_loop sz [] s"

section \<open>Reading consumes, and only consumes\<close>

lemma consumed_get': "sock_get s = (x, s') \<Longrightarrow> consumed s s'"
  using consumed_get [of s] by simp

lemma consumed_read': "sock_read n s = (x, s') \<Longrightarrow> consumed s s'"
  using consumed_read [of s n] by simp

lemma read_line_buf_loop_consumed:
  "consumed s (snd (read_line_buf_loop buf_length incl_endl buf c_last s))"
proof (induction buf_length incl_endl buf c_last s rule: read_line_buf_loop.induct)
  case (1 buf_length incl_endl buf c_last s)
  have "consumed s (snd (read_line_buf_loop buf_length incl_endl (buf @ [c]) c s1))"
    if "int (length buf) < buf_length - 1" and get: "sock_get s = (Some c, s1)"
      and "positive c" and "\<not> (c_last = CR \<and> c = LF)" for c s1
    by (rule consumed_trans [OF consumed_get' [OF get]], rule 1 [OF that(1) get [symmetric] refl])
      (use that in auto)
  then show ?case
    by (subst read_line_buf_loop.simps)
      (auto split: prod.splits option.splits intro: consumed_get')
qed

lemma read_line_loop_consumed: "consumed s (snd (read_line_loop incl_endl line c_last s))"
proof (induction incl_endl line c_last s rule: read_line_loop.induct)
  case (1 incl_endl line c_last s)
  have "consumed s (snd (read_line_loop incl_endl (line @ [c]) c s1))"
    if get: "sock_get s = (Some c, s1)" and "positive c" and "\<not> (c_last = CR \<and> c = LF)" for c s1
    by (rule consumed_trans [OF consumed_get' [OF get]], rule 1 [OF get [symmetric] refl])
      (use that in auto)
  then show ?case
    by (subst read_line_loop.simps)
      (auto split: prod.splits option.splits intro: consumed_get')
qed

interpretation rlb: stream_reader "read_line_buf buf_length incl_endl" for buf_length incl_endl
  by unfold_locales
    (use read_line_buf_loop_consumed in \<open>auto simp: read_line_buf_def split: prod.splits,
      metis snd_conv\<close>)

interpretation rl: stream_reader "read_line incl_endl" for incl_endl
  by unfold_locales (simp add: read_line_def read_line_loop_consumed)

text \<open>
  What \<open>read_data\<close> returns is a prefix of the input of at most the size asked for; short
  only on a stream that went bad, and then whole buffers.
\<close>

lemma read_data_loop_prefix:
  assumes "read_data_loop sz data s = (data', s')"
  shows "consumed s s' \<and> (\<exists>q r. data' = data @ q \<and> s_in s = q @ r @ s_in s' \<and>
    (length q = nat sz \<and> r = [] \<or> length q < nat sz \<and> \<not> s_good s' \<and> 1024 dvd length q))"
  using assms
proof (induction sz data s arbitrary: data' s' rule: read_data_loop.induct)
  case (1 sz data s)
  let ?n = "nat (min sz ICAP_BUFFER_SIZE)"
  show ?case
  proof (cases "0 < sz")
    case False
    with 1 show ?thesis by (simp add: read_data_loop.simps [of sz])
  next
    case True
    obtain r s1 where rd: "sock_read ?n s = (r, s1)" by (cases "sock_read ?n s")
    have c1: "consumed s s1" using rd by (rule consumed_read')
    show ?thesis
    proof (cases r)
      case None
      then have same: "s_in s1 = s_in s"
        using rd by (auto simp: sock_read_def Let_def split: if_splits)
      have "read_data_loop sz data s1 = (data', s')"
        using "1.prems" True rd None by (simp add: read_data_loop.simps [of sz data s])
      from "1.IH"(1) [OF True rd [symmetric] None this] show ?thesis
        using same c1 consumed_trans by auto
    next
      case (Some b)
      show ?thesis
      proof (cases "s_good s1")
        case False
        then have "data' = data \<and> s' = s1"
          using "1.prems" True rd Some by (simp add: read_data_loop.simps [of sz data s])
        moreover obtain p where "s_in s = p @ s_in s1"
          using c1 by (auto simp: consumed_def)
        ultimately show ?thesis using False True c1 by auto
      next
        case good: True
        have n: "s_gcount s1 = ?n" "length b = ?n"
          using sock_read_progress(2) [OF rd Some good] by simp_all
        have b: "s_in s = b @ s_in s1"
          using rd good Some by (auto simp: sock_read_def Let_def split: if_splits)
        have "read_data_loop (sz - int ?n) (data @ b) s1 = (data', s')"
          using "1.prems" True rd Some good n by (simp add: read_data_loop.simps [of sz data s])
        with "1.IH"(2) [OF True rd [symmetric] Some] good n
        obtain q t where IH: "consumed s1 s'" "data' = data @ b @ q" "s_in s1 = q @ t @ s_in s'"
          "length q = nat (sz - int ?n) \<and> t = [] \<or>
            length q < nat (sz - int ?n) \<and> \<not> s_good s' \<and> 1024 dvd length q"
          by auto
        have "length (b @ q) = nat sz \<and> t = [] \<or>
            length (b @ q) < nat sz \<and> \<not> s_good s' \<and> 1024 dvd length (b @ q)"
          using IH(4) n True by (auto simp: ICAP_BUFFER_SIZE_def min_def split: if_splits)
        moreover have "s_in s = (b @ q) @ t @ s_in s'" "data' = data @ (b @ q)"
          using b IH(2,3) by simp_all
        ultimately show ?thesis using consumed_trans [OF c1 IH(1)] by blast
      qed
    qed
  qed
qed

lemma read_data_prefix:
  assumes "read_data sz s = (data, s')"
  shows "consumed s s'"
    and "\<exists>r. s_in s = data @ r @ s_in s' \<and>
      (length data = nat sz \<and> r = [] \<or> length data < nat sz \<and> \<not> s_good s' \<and> 1024 dvd length data)"
  using read_data_loop_prefix [of sz "[]" s data s'] assms by (auto simp: read_data_def)

interpretation rdata: stream_reader "read_data sz" for sz
  by unfold_locales (metis prod.collapse read_data_prefix(1))

section \<open>Reading from a connection that works\<close>

text \<open>A routine returns \<open>x\<close>, leaves \<open>rest\<close> unread, and the connection goes on working.\<close>

definition yields :: "'a \<times> sock \<Rightarrow> 'a \<Rightarrow> string \<Rightarrow> bool" where
  "yields r x rest \<longleftrightarrow> fst r = x \<and> s_in (snd r) = rest \<and> calm (snd r)"

lemma yieldsE:
  assumes "yields r x rest"
  obtains s' where "r = (x, s')" and "s_in s' = rest" and "calm s'"
  using assms by (cases r) (auto simp: yields_def)

text \<open>Text a line may carry: bytes the readers accept, and no line feed.\<close>

definition line_text :: "string \<Rightarrow> bool" where
  "line_text l \<longleftrightarrow> (\<forall>c\<in>set l. positive c \<and> c \<noteq> LF)"

lemma line_text_simps [simp]:
  "line_text []"
  "line_text (c # l) \<longleftrightarrow> positive c \<and> c \<noteq> LF \<and> line_text l"
  "line_text (l @ l') \<longleftrightarrow> line_text l \<and> line_text l'"
  by (auto simp: line_text_def)

lemma positive_CRLF [simp]: "positive CR" "positive LF"
  by (simp_all add: positive_def)

lemma read_line_loop_text:
  assumes "line_text l" and "s_good s" and "s_in s = l @ CRLF @ rest"
  shows "read_line_loop incl line c_last s =
    (line @ l @ (if incl then CRLF else []), s\<lparr>s_gcount := 1, s_in := rest\<rparr>)"
  using assms
proof (induction l arbitrary: line c_last s)
  case Nil
  let ?s1 = "s\<lparr>s_gcount := 1, s_in := LF # rest\<rparr>"
  have "read_line_loop incl line c_last s = read_line_loop incl (line @ [CR]) CR ?s1"
    using Nil by (subst read_line_loop.simps) (simp add: sock_get_Cons)
  also have "\<dots> = (line @ (if incl then CRLF else []), s\<lparr>s_gcount := 1, s_in := rest\<rparr>)"
    using Nil by (subst read_line_loop.simps) (simp add: sock_get_Cons)
  finally show ?case by simp
next
  case (Cons c l)
  let ?s1 = "s\<lparr>s_gcount := 1, s_in := l @ CRLF @ rest\<rparr>"
  have "read_line_loop incl line c_last s = read_line_loop incl (line @ [c]) c ?s1"
    using Cons.prems by (subst read_line_loop.simps) (simp add: sock_get_Cons)
  also have "\<dots> = (line @ (c # l) @ (if incl then CRLF else []),
      s\<lparr>s_gcount := 1, s_in := rest\<rparr>)"
    using Cons.prems Cons.IH [of ?s1 "line @ [c]" c] by simp
  finally show ?case .
qed

lemma read_line_text:
  assumes "line_text l" and "s_good s" and "s_in s = l @ CRLF @ rest"
  shows "read_line incl s =
    (l @ (if incl then CRLF else []), s\<lparr>s_gcount := 1, s_in := rest\<rparr>)"
  using read_line_loop_text [OF assms] by (simp add: read_line_def)

lemma read_line_yields:
  assumes "calm s" and "line_text l" and "s_in s = l @ CRLF @ rest"
  shows "yields (read_line incl s) (l @ (if incl then CRLF else [])) rest"
  using assms by (simp add: yields_def read_line_text calm_good)

lemma read_line_buf_loop_text:
  assumes "line_text l" and "s_good s" and "s_in s = l @ CRLF @ rest"
    and "int (length buf + length l + 2) < n"
  shows "read_line_buf_loop n incl buf c_last s =
    (buf @ l @ (if incl then CRLF else []), s\<lparr>s_gcount := 1, s_in := rest\<rparr>)"
  using assms
proof (induction l arbitrary: buf c_last s)
  case Nil
  let ?s1 = "s\<lparr>s_gcount := 1, s_in := LF # rest\<rparr>"
  have "read_line_buf_loop n incl buf c_last s = read_line_buf_loop n incl (buf @ [CR]) CR ?s1"
    using Nil by (subst read_line_buf_loop.simps) (simp add: sock_get_Cons)
  also have "\<dots> = (buf @ (if incl then CRLF else []), s\<lparr>s_gcount := 1, s_in := rest\<rparr>)"
    using Nil by (subst read_line_buf_loop.simps) (simp add: sock_get_Cons)
  finally show ?case by simp
next
  case (Cons c l)
  let ?s1 = "s\<lparr>s_gcount := 1, s_in := l @ CRLF @ rest\<rparr>"
  have "read_line_buf_loop n incl buf c_last s = read_line_buf_loop n incl (buf @ [c]) c ?s1"
    using Cons.prems by (subst read_line_buf_loop.simps) (simp add: sock_get_Cons)
  also have "\<dots> = (buf @ (c # l) @ (if incl then CRLF else []),
      s\<lparr>s_gcount := 1, s_in := rest\<rparr>)"
    using Cons.prems Cons.IH [of ?s1 "buf @ [c]" c] by simp
  finally show ?case .
qed

text \<open>A line that fills the buffer is cut: what is beyond stays in the stream.\<close>

lemma read_line_buf_loop_full:
  assumes "line_text l" and "s_good s" and "s_in s = l @ rest"
    and "int (length buf + length l) = n - 1"
  shows "read_line_buf_loop n incl buf c_last s =
    (buf @ l, if l = [] then s else s\<lparr>s_gcount := 1, s_in := rest\<rparr>)"
  using assms
proof (induction l arbitrary: buf c_last s)
  case Nil
  then show ?case by (subst read_line_buf_loop.simps) simp
next
  case (Cons c l)
  let ?s1 = "s\<lparr>s_gcount := 1, s_in := l @ rest\<rparr>"
  have "read_line_buf_loop n incl buf c_last s = read_line_buf_loop n incl (buf @ [c]) c ?s1"
    using Cons.prems by (subst read_line_buf_loop.simps) (simp add: sock_get_Cons)
  also have "\<dots> = (buf @ c # l, s\<lparr>s_gcount := 1, s_in := rest\<rparr>)"
    using Cons.prems Cons.IH [of ?s1 "buf @ [c]" c] by (cases l) auto
  finally show ?case by simp
qed

lemma read_data_loop_calm:
  assumes "calm s" and "s_in s = bs @ rest" and "length bs = nat sz"
  shows "yields (read_data_loop sz data s) (data @ bs) rest"
  using assms
proof (induction sz data s arbitrary: bs rule: read_data_loop.induct)
  case (1 sz data s)
  let ?n = "nat (min sz ICAP_BUFFER_SIZE)"
  show ?case
  proof (cases "0 < sz")
    case False
    with 1 show ?thesis by (simp add: read_data_loop.simps [of sz] yields_def)
  next
    case True
    let ?b = "take ?n bs" and ?bs' = "drop ?n bs"
    let ?s1 = "s\<lparr>s_rthrow := tl (s_rthrow s), s_in := ?bs' @ rest, s_gcount := ?n\<rparr>"
    have len: "length ?b = ?n" using "1.prems"(3) by (simp add: min_def)
    have sin: "s_in s = ?b @ ?bs' @ rest"
      using "1.prems"(2) by (metis append.assoc append_take_drop_id)
    have rd: "sock_read ?n s = (Some ?b, ?s1)"
      using sock_read_calm(1) [OF "1.prems"(1) sin len] .
    have calm1: "calm ?s1"
      using sock_read_calm(2) [OF "1.prems"(1) sin len] .
    have "read_data_loop sz data s = read_data_loop (sz - int ?n) (data @ ?b) ?s1"
      using True rd calm_good [OF calm1] by (simp add: read_data_loop.simps [of sz data s])
    moreover have "yields (read_data_loop (sz - int ?n) (data @ ?b) ?s1)
        ((data @ ?b) @ ?bs') rest"
      using "1.IH"(2) [OF True rd [symmetric] refl, of ?bs'] calm1 "1.prems"(3) len
      by (auto simp: calm_def nat_diff_distrib)
    ultimately show ?thesis by simp
  qed
qed

lemma read_data_calm:
  assumes "calm s" and "s_in s = bs @ rest" and "length bs = nat sz"
  shows "yields (read_data sz s) bs rest"
  using read_data_loop_calm [OF assms, of "[]"] by (simp add: read_data_def)

end
