(* ===== verification/IcapChunk.thy ===== *)
theory IcapChunk
  imports IcapRead
begin

text \<open>
  Chunked content, from \<open>lib/icap/util.cpp\<close>: chunk headers and chunks, the reader of a
  whole chunked body (\<open>read_chunked\<close>) and the reader of a request payload, which also
  detects the \<open>ieof\<close> extension (\<open>read_chunked_payload\<close>). \<open>chunk_text\<close> and \<open>chunked_text\<close>
  are the reference encoding the readers are proved to invert.
\<close>

section \<open>Chunks\<close>

record chunk_t =
  ck_size :: u32
  ck_extention :: string
  ck_data :: string

text \<open>The uninitialised \<open>dec\<close> of the call of \<open>hextodec\<close> made at this point of the input.\<close>

definition junk_here :: "sock \<Rightarrow> u32" where
  "junk_here s = s_junk s (length (s_in s))"

definition read_chunk_size :: "sock \<Rightarrow> u32 \<times> sock" where
  "read_chunk_size s =
     (case read_line False s of
        (line, s') \<Rightarrow> (hextodec (junk_here s') (split line '';'' ! 0), s'))"

definition read_chunk_header :: "chunk_t \<Rightarrow> sock \<Rightarrow> chunk_t \<times> sock" where
  "read_chunk_header chunk s =
     (case read_line False s of
        (line, s') \<Rightarrow>
          let chunk_header = split line '';''
          in if 0 < length chunk_header then
               let chunk1 = (if 0 < length (chunk_header ! 0)
                             then chunk\<lparr>ck_size := hextodec (junk_here s') (chunk_header ! 0)\<rparr>
                             else chunk);
                   chunk2 = (if length chunk_header = 2
                             then chunk1\<lparr>ck_extention := trim (chunk_header ! 1)\<rparr>
                             else chunk1)
               in (chunk2, s')
             else (chunk, s'))"

text \<open>\<open>read_data\<close> takes its size as an \<open>int\<close>, so an \<open>unsigned\<close> chunk size is converted.\<close>

definition read_chunk :: "sock \<Rightarrow> chunk_t \<times> sock" where
  "read_chunk s =
     (let chunk0 = \<lparr>ck_size = 0, ck_extention = [], ck_data = []\<rparr>
      in case read_chunk_header chunk0 s of
           (chunk, s1) \<Rightarrow>
             (case (if 0 < ck_size chunk
                    then (case read_data (sint (ck_size chunk)) s1 of
                            (data, s2) \<Rightarrow> (chunk\<lparr>ck_data := data\<rparr>, s2))
                    else (chunk, s1)) of
                (chunk', s3) \<Rightarrow> (chunk', snd (read_data 2 s3))))"

section \<open>Chunked bodies\<close>

lemma read_chunk_size_consumed: "consumed s (snd (read_chunk_size s))"
  using rl.consumes [of s False] by (auto simp: read_chunk_size_def split: prod.splits)

lemma read_chunk_header_consumed: "consumed s (snd (read_chunk_header chunk s))"
  using rl.consumes [of s False] by (auto simp: read_chunk_header_def Let_def split: prod.splits)

interpretation rcs: stream_reader read_chunk_size
  by unfold_locales (rule read_chunk_size_consumed)

interpretation rch: stream_reader "read_chunk_header chunk" for chunk
  by unfold_locales (rule read_chunk_header_consumed)

lemma read_chunk_header_data: "ck_data (fst (read_chunk_header chunk s)) = ck_data chunk"
  by (auto simp: read_chunk_header_def Let_def split: prod.splits)

text \<open>A chunk takes at least its data from the input.\<close>

lemma read_chunk_progress:
  assumes "read_chunk s = (chunk, s')"
  shows "consumed s s'" and "length (ck_data chunk) + length (s_in s') \<le> length (s_in s)"
proof -
  let ?init = "\<lparr>ck_size = 0, ck_extention = [], ck_data = []\<rparr> :: chunk_t"
  obtain c s1 where h: "read_chunk_header ?init s = (c, s1)"
    by (cases "read_chunk_header ?init s")
  have c1: "consumed s s1" and d1: "ck_data c = []"
    using rch.consumes [of s ?init] read_chunk_header_data [of ?init s] h by simp_all
  obtain data s2 where d: "read_data (sint (ck_size c)) s1 = (data, s2)"
    by (cases "read_data (sint (ck_size c)) s1")
  have c2: "consumed s1 s2" using rdata.consumes [of s1 "sint (ck_size c)"] d by simp
  obtain r where s1: "s_in s1 = data @ r @ s_in s2"
    using read_data_prefix(2) [OF d] by blast
  have "consumed s s' \<and> length (ck_data chunk) + length (s_in s') \<le> length (s_in s)"
  proof (cases "0 < ck_size c")
    case True
    then have "chunk = c\<lparr>ck_data := data\<rparr>" and s': "s' = snd (read_data 2 s2)"
      using assms h d by (auto simp: read_chunk_def Let_def)
    moreover have "consumed s2 s'" using rdata.consumes s' by simp
    ultimately show ?thesis
      using consumed_trans [OF c1 consumed_trans [OF c2, of s']] s1
        consumed_length [OF c1] consumed_length [of s2 s'] by simp
  next
    case False
    then have "chunk = c" and s': "s' = snd (read_data 2 s1)"
      using assms h by (auto simp: read_chunk_def Let_def)
    moreover have "consumed s1 s'" using rdata.consumes s' by simp
    ultimately show ?thesis
      using consumed_trans [OF c1, of s'] d1 consumed_length [of s s'] by simp
  qed
  then show "consumed s s'" and "length (ck_data chunk) + length (s_in s') \<le> length (s_in s)"
    by simp_all
qed

interpretation rck: stream_reader read_chunk
  by unfold_locales (metis prod.collapse read_chunk_progress(1))

text \<open>
  \<open>read_chunked\<close>. The check compares \<open>chunked_data.size() - offset\<close> (a \<open>size_t\<close>, with the
  \<open>unsigned\<close> \<open>offset\<close>) with the chunk size.
\<close>

function read_chunked_loop :: "string \<Rightarrow> sock \<Rightarrow> string \<times> sock" where
  "read_chunked_loop chunked_data s =
     (case read_chunk_size s of
        (chunk_size, s1) \<Rightarrow>
          if 0 < chunk_size then
            let offset = of_nat (length chunked_data) :: u32
            in case read_data (sint chunk_size) s1 of
                 (data, s2) \<Rightarrow>
                   let chunked_data' = chunked_data @ data
                   in if length chunked_data' - unat offset \<noteq> unat chunk_size
                      then (chunked_data', s2)
                      else read_chunked_loop chunked_data' (snd (read_data 2 s2))
          else (chunked_data, s1))"
  by pat_completeness auto

lemma chunked_offset:
  assumes "length data' - unat (of_nat (length data) :: u32) = unat (n :: u32)"
    and "0 < n" and "data' = data @ d"
  shows "d \<noteq> []"
proof
  assume "d = []"
  then have "unat n = length data - length data mod 2 ^ 32"
    using assms(1,3) by (simp add: unat_of_nat take_bit_eq_mod)
  then have "2 ^ 32 dvd unat n" by (simp add: dvd_minus_mod)
  moreover have "unat n < 2 ^ 32" using unsigned_less [of n] by simp
  moreover have "0 < unat n" using assms(2) by (simp add: unat_gt_0)
  ultimately show False by (meson nat_dvd_not_less)
qed

termination read_chunked_loop
proof (relation "measure (\<lambda>(data, s). length (s_in s))", goal_cases)
  case (2 data s n s1 off d s2 data')
  have d: "d \<noteq> []"
    using 2 by (intro chunked_offset [of data' data n]) auto
  obtain r where "s_in s1 = d @ r @ s_in s2"
    using read_data_prefix(2) [of "sint n" s1 d s2] 2 by auto
  with d have "length (s_in s2) < length (s_in s1)" by (cases d) auto
  moreover have "length (s_in s1) \<le> length (s_in s)"
    using rcs.reader_length [of s] 2(1) [symmetric] by simp
  moreover have "length (s_in (snd (read_data 2 s2))) \<le> length (s_in s2)"
    by (rule rdata.reader_length)
  ultimately show ?case by simp
qed simp

text \<open>\<open>while ( read_line( socket, true ).size() > 2 ) ;\<close>\<close>

lemma read_line_shorter:
  assumes "read_line incl s = (line, s')" and "line \<noteq> []"
  shows "length (s_in s') < length (s_in s)"
proof -
  have "s_good s \<and> s_in s \<noteq> []"
  proof (rule ccontr)
    assume "\<not> (s_good s \<and> s_in s \<noteq> [])"
    then have "fst (sock_get s) = None"
      by (auto simp: sock_get_def split: list.splits)
    then have "fst (read_line incl s) = []"
      unfolding read_line_def by (subst read_line_loop.simps) (auto split: prod.splits)
    with assms show False by simp
  qed
  then obtain c s1 where g: "sock_get s = (Some c, s1)" "length (s_in s1) < length (s_in s)"
    by (cases "s_in s") (auto simp: sock_get_def)
  have "length (s_in (snd (read_line_loop incl [] (CHR 0x00) s))) \<le> length (s_in s1)"
    using g(1) consumed_length [OF read_line_loop_consumed]
    by (subst read_line_loop.simps) auto
  with g(2) assms(1) show ?thesis by (simp add: read_line_def)
qed

function skip_trailer :: "sock \<Rightarrow> sock" where
  "skip_trailer s =
     (case read_line True s of
        (line, s') \<Rightarrow> if 2 < length line then skip_trailer s' else s')"
  by pat_completeness auto
termination
proof (relation "measure (\<lambda>s. length (s_in s))", goal_cases)
  case (2 s line s')
  then show ?case using read_line_shorter [of True s line s'] by (cases line) auto
qed simp

definition read_chunked :: "sock \<Rightarrow> string \<times> sock" where
  "read_chunked s =
     (case read_chunked_loop [] s of (chunked_data, s') \<Rightarrow> (chunked_data, skip_trailer s'))"

text \<open>\<open>read_chunked_payload\<close>: the loop returns the last chunk read, the payload and the state.\<close>

function payload_loop :: "string \<Rightarrow> sock \<Rightarrow> (chunk_t \<times> string) \<times> sock" where
  "payload_loop payload s =
     (case read_chunk s of
        (chunk, s') \<Rightarrow>
          let payload' = payload @ ck_data chunk
          in if length (ck_data chunk) \<noteq> unat (ck_size chunk) then ((chunk, payload'), s')
             else if 0 < ck_size chunk then payload_loop payload' s'
             else ((chunk, payload'), s'))"
  by pat_completeness auto
termination
proof (relation "measure (\<lambda>(p, s). length (s_in s))", goal_cases)
  case (2 payload s chunk s' payload')
  then have "0 < length (ck_data chunk)" by (simp add: unat_gt_0)
  with read_chunk_progress(2) [of s chunk s'] 2 show ?case by simp
qed simp

declare payload_loop.simps [simp del] read_chunked_loop.simps [simp del] skip_trailer.simps [simp del]

definition read_chunked_payload :: "string \<Rightarrow> sock \<Rightarrow> (bool \<times> string) \<times> sock" where
  "read_chunked_payload payload s =
     (case payload_loop payload s of
        ((chunk, payload'), s') \<Rightarrow> ((ck_extention chunk = ''ieof'', payload'), s'))"

lemma payload_loop_consumed: "consumed s (snd (payload_loop payload s))"
proof (induction payload s rule: payload_loop.induct)
  case (1 payload s)
  obtain chunk s1 where rc: "read_chunk s = (chunk, s1)" by (cases "read_chunk s")
  have c1: "consumed s s1" using rc by (rule read_chunk_progress(1))
  from 1 [OF rc [symmetric] refl] consumed_trans [OF c1] c1 rc show ?case
    by (subst payload_loop.simps) (simp add: Let_def)
qed

lemma read_chunked_payload_loop:
  "snd (read_chunked_payload payload s) = snd (payload_loop payload s)"
  by (simp add: read_chunked_payload_def split: prod.splits)

interpretation rcp: stream_reader "read_chunked_payload payload" for payload
  by unfold_locales (simp add: read_chunked_payload_loop payload_loop_consumed)

section \<open>The encoding the readers invert\<close>

text \<open>
  One chunk as it stands on the wire: a size text, an extension text (empty, or starting
  with a semicolon), the data. Any size text that \<open>hextodec\<close> reads as the data's length is
  taken, not only the canonical one.
\<close>

type_synonym wire_chunk = "string \<times> string \<times> string"

definition ext_ok :: "string \<Rightarrow> bool" where
  "ext_ok ext \<longleftrightarrow> line_text ext \<and> (ext = [] \<or> hd ext = CHR '';'')"

definition size_ok :: "string \<Rightarrow> nat \<Rightarrow> bool" where
  "size_ok hx n \<longleftrightarrow> line_text hx \<and> CHR '';'' \<notin> set hx \<and> dropWhile is_space hx \<noteq> [] \<and>
     hextodec 0 hx = of_nat n \<and> n < 2 ^ 31"

fun chunk_ok :: "wire_chunk \<Rightarrow> bool" where
  "chunk_ok (hx, ext, data) \<longleftrightarrow> ext_ok ext \<and> data \<noteq> [] \<and> size_ok hx (length data)"

fun chunk_text :: "wire_chunk \<Rightarrow> string" where
  "chunk_text (hx, ext, data) = hx @ ext @ CRLF @ data @ CRLF"

definition chunk_data :: "wire_chunk list \<Rightarrow> string" where
  "chunk_data cs = concat (map (\<lambda>(hx, ext, data). data) cs)"

text \<open>The extension \<open>read_chunk_header\<close> stores: the only one, trimmed; else none.\<close>

definition chunk_extension :: "string \<Rightarrow> string" where
  "chunk_extension ext =
     (case ext of [] \<Rightarrow> [] | _ # e \<Rightarrow> if CHR '';'' \<in> set e then [] else trim e)"

lemma hextodec_junk: "dropWhile is_space hx \<noteq> [] \<Longrightarrow> hextodec junk hx = hextodec 0 hx"
  unfolding hextodec_def Let_def by (simp only: if_False)

lemma size_ok_nonempty: "size_ok hx n \<Longrightarrow> hx \<noteq> []"
  by (auto simp: size_ok_def)

lemma size_ok_dectohex:
  assumes "n < 2 ^ 31"
  shows "size_ok (dectohex (of_nat n)) n"
proof -
  let ?s = "dectohex (of_nat n)"
  have s: "?s \<noteq> []" "\<forall>c\<in>set ?s. digit_val 16 c \<noteq> None"
    using printed_digits [of 16 "unat (of_nat n :: u32)"] by (simp_all add: dectohex_def)
  have "positive c \<and> c \<noteq> LF \<and> c \<noteq> CHR '';''" if "c \<in> set ?s" for c
  proof -
    have "digit_val 16 c \<noteq> None" using s(2) that by blast
    from digit_val_not_special [OF this] show ?thesis by (simp add: positive_def)
  qed
  then have "line_text ?s \<and> CHR '';'' \<notin> set ?s"
    by (auto simp: line_text_def)
  moreover have "dropWhile is_space ?s = ?s"
    using read_printed(1) [OF s, of "[]"] by simp
  moreover have "hextodec 0 ?s = of_nat n"
    using hextodec_printed [of "[]" 0 "of_nat n"] by simp
  ultimately show ?thesis using assms s(1) by (simp add: size_ok_def)
qed

lemma split_chunk_line:
  assumes "CHR '';'' \<notin> set hx" and "ext_ok ext"
  shows "split (hx @ ext) '';'' ! 0 = hx"
    and "length (split (hx @ ext) '';'') = 2 \<longleftrightarrow> ext \<noteq> [] \<and> CHR '';'' \<notin> set (tl ext)"
    and "ext \<noteq> [] \<Longrightarrow> CHR '';'' \<notin> set (tl ext) \<Longrightarrow> split (hx @ ext) '';'' ! 1 = tl ext"
proof -
  have hx: "\<forall>c\<in>set hx. c \<notin> set '';''" using assms(1) by auto
  have e1: "length (split e '';'') = 1 \<longleftrightarrow> CHR '';'' \<notin> set e" for e
  proof
    assume l: "length (split e '';'') = 1"
    show "CHR '';'' \<notin> set e"
    proof
      assume "CHR '';'' \<in> set e"
      then obtain a b where "e = a @ CHR '';'' # b" "CHR '';'' \<notin> set a"
        by (meson split_list_first)
      then have "split e '';'' = a # split b '';''"
        by (auto intro!: split_append)
      with l show False by simp
    qed
  next
    assume "CHR '';'' \<notin> set e"
    then have "split e '';'' = [e]" by (intro split_none) auto
    then show "length (split e '';'') = 1" by simp
  qed
  show "split (hx @ ext) '';'' ! 0 = hx"
    and "length (split (hx @ ext) '';'') = 2 \<longleftrightarrow> ext \<noteq> [] \<and> CHR '';'' \<notin> set (tl ext)"
    and "ext \<noteq> [] \<Longrightarrow> CHR '';'' \<notin> set (tl ext) \<Longrightarrow> split (hx @ ext) '';'' ! 1 = tl ext"
  proof (atomize (full), cases ext)
    case Nil
    then show "split (hx @ ext) '';'' ! 0 = hx \<and>
        (length (split (hx @ ext) '';'') = 2) = (ext \<noteq> [] \<and> CHR '';'' \<notin> set (tl ext)) \<and>
        (ext \<noteq> [] \<longrightarrow> CHR '';'' \<notin> set (tl ext) \<longrightarrow> split (hx @ ext) '';'' ! 1 = tl ext)"
      using split_none [OF hx] by simp
  next
    case (Cons c e)
    with assms(2) have "split (hx @ ext) '';'' = hx # split e '';''"
      by (simp add: ext_ok_def split_append [OF hx])
    moreover have "CHR '';'' \<notin> set e \<Longrightarrow> split e '';'' = [e]"
      by (intro split_none) auto
    ultimately show "split (hx @ ext) '';'' ! 0 = hx \<and>
        (length (split (hx @ ext) '';'') = 2) = (ext \<noteq> [] \<and> CHR '';'' \<notin> set (tl ext)) \<and>
        (ext \<noteq> [] \<longrightarrow> CHR '';'' \<notin> set (tl ext) \<longrightarrow> split (hx @ ext) '';'' ! 1 = tl ext)"
      using Cons e1 [of e] by auto
  qed
qed

section \<open>Reading back what the encoding says\<close>

lemma read_chunk_header_yields:
  assumes "calm s" and "size_ok hx n" and "ext_ok ext" and "s_in s = hx @ ext @ CRLF @ rest"
  shows "yields (read_chunk_header \<lparr>ck_size = 0, ck_extention = [], ck_data = d\<rparr> s)
    \<lparr>ck_size = of_nat n, ck_extention = chunk_extension ext, ck_data = d\<rparr> rest"
proof -
  have l: "line_text (hx @ ext)" using assms(2,3) by (auto simp: size_ok_def ext_ok_def)
  have "s_in s = (hx @ ext) @ CRLF @ rest" using assms(4) by simp
  from read_line_text [OF l calm_good [OF assms(1)] this, of False]
  have r: "read_line False s = (hx @ ext, s\<lparr>s_gcount := 1, s_in := rest\<rparr>)" by simp
  have semi: "CHR '';'' \<notin> set hx" using assms(2) by (simp add: size_ok_def)
  note sp = split_chunk_line [OF semi assms(3)]
  have h: "hextodec j hx = of_nat n" for j
    using hextodec_junk [of hx j] assms(2) by (simp add: size_ok_def)
  have e: "(if length (split (hx @ ext) '';'') = 2 then trim (split (hx @ ext) '';'' ! 1) else [])
      = chunk_extension ext"
    using sp(2,3) by (cases ext) (auto simp: chunk_extension_def)
  show ?thesis
    using r sp(1) h e size_ok_nonempty [OF assms(2)] assms(1)
    by (cases "length (split (hx @ ext) '';'') = 2")
      (auto simp: read_chunk_header_def Let_def yields_def)
qed

text \<open>The two bytes after the data are skipped unseen, whatever they are.\<close>

lemma read_chunk_yields_any:
  assumes "calm s" and "chunk_ok (hx, ext, data)"
    and "s_in s = hx @ ext @ CRLF @ data @ e @ rest" and "length e = 2"
  shows "yields (read_chunk s)
    \<lparr>ck_size = of_nat (length data), ck_extention = chunk_extension ext, ck_data = data\<rparr> rest"
proof -
  let ?init = "\<lparr>ck_size = 0, ck_extention = [], ck_data = []\<rparr> :: chunk_t"
  let ?c = "\<lparr>ck_size = of_nat (length data), ck_extention = chunk_extension ext, ck_data = []\<rparr>"
  have sz: "size_ok hx (length data)" and data: "data \<noteq> []" and ext: "ext_ok ext"
    using assms(2) by auto
  have n: "length data < 2 ^ 31" using sz by (simp add: size_ok_def)
  have sint: "sint (of_nat (length data) :: u32) = int (length data)"
    using n by (rule sint_of_nat_small)
  have un: "unat (of_nat (length data) :: u32) = length data"
    using n by (intro unat_of_nat_small) simp
  then have pos: "0 < (of_nat (length data) :: u32)"
    using data by (metis length_0_conv unat_0 unat_gt_0 word_neq_0_conv)
  obtain s1 where s1: "read_chunk_header ?init s = (?c, s1)" "s_in s1 = data @ e @ rest" "calm s1"
    using read_chunk_header_yields [OF assms(1) sz ext assms(3), of "[]"] by (rule yieldsE)
  have "yields (read_data (int (length data)) s1) data (e @ rest)"
    using read_data_calm [OF s1(3,2), of "int (length data)"] by simp
  then obtain s2 where s2: "read_data (int (length data)) s1 = (data, s2)"
      "s_in s2 = e @ rest" "calm s2"
    by (rule yieldsE)
  have "yields (read_data 2 s2) e rest"
    using read_data_calm [OF s2(3,2), of 2] assms(4) by simp
  then show ?thesis
    using s1(1) s2(1) sint pos by (simp add: read_chunk_def Let_def yields_def)
qed

lemma read_chunk_yields:
  assumes "calm s" and "chunk_ok (hx, ext, data)"
    and "s_in s = chunk_text (hx, ext, data) @ rest"
  shows "yields (read_chunk s)
    \<lparr>ck_size = of_nat (length data), ck_extention = chunk_extension ext, ck_data = data\<rparr> rest"
  using read_chunk_yields_any [OF assms(1,2), of CRLF rest] assms(3) by simp

lemma read_last_chunk_yields:
  assumes "calm s" and "size_ok hx 0" and "ext_ok ext"
    and "s_in s = hx @ ext @ CRLF @ e @ rest" and "length e = 2"
  shows "yields (read_chunk s) \<lparr>ck_size = 0, ck_extention = chunk_extension ext, ck_data = []\<rparr> rest"
proof -
  let ?c = "\<lparr>ck_size = 0, ck_extention = chunk_extension ext, ck_data = []\<rparr> :: chunk_t"
  have "yields (read_chunk_header \<lparr>ck_size = 0, ck_extention = [], ck_data = []\<rparr> s) ?c (e @ rest)"
    using read_chunk_header_yields [OF assms(1-4), of "[]"] by simp
  then obtain s1 where s1: "read_chunk_header \<lparr>ck_size = 0, ck_extention = [], ck_data = []\<rparr> s = (?c, s1)"
      "s_in s1 = e @ rest" "calm s1"
    by (rule yieldsE)
  then show ?thesis
    using read_data_calm [of s1 e rest 2] assms(5) by (simp add: read_chunk_def Let_def yields_def)
qed

lemma payload_loop_yields:
  assumes "calm s" and "\<forall>c\<in>set cs. chunk_ok c" and "size_ok hx 0" and "ext_ok ext"
    and "s_in s = concat (map chunk_text cs) @ hx @ ext @ CRLF @ CRLF @ rest"
  shows "yields (payload_loop payload s)
    (\<lparr>ck_size = 0, ck_extention = chunk_extension ext, ck_data = []\<rparr>, payload @ chunk_data cs) rest"
  using assms
proof (induction cs arbitrary: payload s)
  case Nil
  then have "yields (read_chunk s) \<lparr>ck_size = 0, ck_extention = chunk_extension ext, ck_data = []\<rparr> rest"
    by (intro read_last_chunk_yields [where e = CRLF]) auto
  then show ?case
    by (subst payload_loop.simps) (auto simp: yields_def chunk_data_def Let_def split: prod.splits)
next
  case (Cons c cs)
  obtain h e d where c: "c = (h, e, d)" by (cases c) auto
  let ?rest = "concat (map chunk_text cs) @ hx @ ext @ CRLF @ CRLF @ rest"
  let ?c = "\<lparr>ck_size = of_nat (length d), ck_extention = chunk_extension e, ck_data = d\<rparr>"
  have "yields (read_chunk s) ?c ?rest"
    using Cons.prems c by (intro read_chunk_yields) auto
  then obtain s1 where s1: "read_chunk s = (?c, s1)" "s_in s1 = ?rest" "calm s1"
    by (rule yieldsE)
  have un: "unat (of_nat (length d) :: u32) = length d"
    using Cons.prems(2) c by (intro unat_of_nat_small) (auto simp: size_ok_def)
  then have "0 < (of_nat (length d) :: u32)"
    using Cons.prems(2) c by (metis chunk_ok.simps length_0_conv list.set_intros(1) unat_0 word_gt_0)
  then have "payload_loop payload s = payload_loop (payload @ d) s1"
    using s1(1) un by (subst payload_loop.simps) simp
  moreover have "yields (payload_loop (payload @ d) s1)
    (\<lparr>ck_size = 0, ck_extention = chunk_extension ext, ck_data = []\<rparr>, (payload @ d) @ chunk_data cs) rest"
    using Cons.prems s1 by (intro Cons.IH) auto
  ultimately show ?case by (simp add: chunk_data_def c)
qed

lemma read_chunked_payload_yields:
  assumes "calm s" and "\<forall>c\<in>set cs. chunk_ok c" and "size_ok hx 0" and "ext_ok ext"
    and "s_in s = concat (map chunk_text cs) @ hx @ ext @ CRLF @ CRLF @ rest"
  shows "yields (read_chunked_payload payload s)
    (chunk_extension ext = ''ieof'', payload @ chunk_data cs) rest"
  using payload_loop_yields [OF assms, of payload]
  by (auto simp: read_chunked_payload_def yields_def split: prod.splits)

text \<open>The same for \<open>read_chunked\<close>, which also skips trailer lines after the last chunk.\<close>

lemma read_chunk_size_yields:
  assumes "calm s" and "size_ok hx n" and "ext_ok ext" and "s_in s = hx @ ext @ CRLF @ rest"
  shows "yields (read_chunk_size s) (of_nat n) rest"
proof -
  have l: "line_text (hx @ ext)" using assms(2,3) by (auto simp: size_ok_def ext_ok_def)
  have "s_in s = (hx @ ext) @ CRLF @ rest" using assms(4) by simp
  from read_line_text [OF l calm_good [OF assms(1)] this, of False]
  have r: "read_line False s = (hx @ ext, s\<lparr>s_gcount := 1, s_in := rest\<rparr>)" by simp
  have "split (hx @ ext) '';'' ! 0 = hx"
    using assms(2,3) by (intro split_chunk_line) (auto simp: size_ok_def)
  moreover have "hextodec j hx = of_nat n" for j
    using hextodec_junk [of hx j] assms(2) by (simp add: size_ok_def)
  ultimately show ?thesis
    using r assms(1) by (simp add: read_chunk_size_def yields_def)
qed

lemma skip_trailer_yields:
  assumes "calm s" and "\<forall>t\<in>set ts. line_text t \<and> t \<noteq> []"
    and "s_in s = concat (map (\<lambda>t. t @ CRLF) ts) @ CRLF @ rest"
  shows "s_in (skip_trailer s) = rest \<and> calm (skip_trailer s)"
  using assms
proof (induction ts arbitrary: s)
  case Nil
  then show ?case
    using read_line_text [of "[]" s rest True] calm_good [of s]
    by (subst (1 2) skip_trailer.simps) simp
next
  case (Cons t ts)
  let ?rest = "concat (map (\<lambda>t. t @ CRLF) ts) @ CRLF @ rest"
  have "read_line True s = (t @ CRLF, s\<lparr>s_gcount := 1, s_in := ?rest\<rparr>)"
    using read_line_text [of t s ?rest True] Cons.prems calm_good [of s] by simp
  moreover have "2 < length (t @ CRLF)" using Cons.prems(2) by (cases t) auto
  ultimately have "skip_trailer s = skip_trailer (s\<lparr>s_gcount := 1, s_in := ?rest\<rparr>)"
    by (subst skip_trailer.simps) simp
  with Cons show ?case by simp
qed

lemma read_chunked_loop_yields:
  assumes "calm s" and "\<forall>c\<in>set cs. chunk_ok c" and "size_ok hx 0" and "ext_ok ext"
    and "s_in s = concat (map chunk_text cs) @ hx @ ext @ CRLF @ rest"
    and "length acc + length (chunk_data cs) < 2 ^ 32"
  shows "yields (read_chunked_loop acc s) (acc @ chunk_data cs) rest"
  using assms
proof (induction cs arbitrary: acc s)
  case Nil
  then have "yields (read_chunk_size s) (of_nat 0) rest"
    by (intro read_chunk_size_yields) auto
  then show ?case
    by (subst read_chunked_loop.simps) (auto simp: yields_def chunk_data_def split: prod.splits)
next
  case (Cons c cs)
  obtain h e d where c: "c = (h, e, d)" by (cases c) auto
  let ?rest = "concat (map chunk_text cs) @ hx @ ext @ CRLF @ rest"
  have ok: "size_ok h (length d)" "ext_ok e" "d \<noteq> []" using Cons.prems(2) c by auto
  have n: "length d < 2 ^ 31" using ok(1) by (simp add: size_ok_def)
  have un: "unat (of_nat (length d) :: u32) = length d"
    using n by (intro unat_of_nat_small) simp
  then have pos: "0 < (of_nat (length d) :: u32)"
    using ok(3) by (metis length_0_conv unat_0 word_gt_0)
  have "yields (read_chunk_size s) (of_nat (length d)) (d @ CRLF @ ?rest)"
    using Cons.prems c ok by (intro read_chunk_size_yields) auto
  then obtain s1 where s1: "read_chunk_size s = (of_nat (length d), s1)"
      "s_in s1 = d @ CRLF @ ?rest" "calm s1" by (rule yieldsE)
  have "yields (read_data (sint (of_nat (length d) :: u32)) s1) d (CRLF @ ?rest)"
    using s1 n by (intro read_data_calm) (auto simp: sint_of_nat_small)
  then obtain s2 where s2: "read_data (sint (of_nat (length d) :: u32)) s1 = (d, s2)"
      "s_in s2 = CRLF @ ?rest" "calm s2" by (rule yieldsE)
  have "yields (read_data 2 s2) CRLF ?rest"
    using s2 by (intro read_data_calm) auto
  then obtain s3 where s3: "read_data 2 s2 = (CRLF, s3)" "s_in s3 = ?rest" "calm s3"
    by (rule yieldsE)
  have acc: "unat (of_nat (length acc) :: u32) = length acc"
    using Cons.prems(6) by (intro unat_of_nat_small) simp
  have "read_chunked_loop acc s = read_chunked_loop (acc @ d) s3"
    using s1(1) s2(1) s3(1) pos un acc by (subst read_chunked_loop.simps) (simp add: Let_def)
  moreover have "yields (read_chunked_loop (acc @ d) s3) ((acc @ d) @ chunk_data cs) rest"
    using Cons.prems s3 c by (intro Cons.IH) (auto simp: chunk_data_def)
  ultimately show ?case by (simp add: chunk_data_def c)
qed

lemma read_chunked_yields:
  assumes "calm s" and "\<forall>c\<in>set cs. chunk_ok c" and "size_ok hx 0" and "ext_ok ext"
    and "\<forall>t\<in>set ts. line_text t \<and> t \<noteq> []"
    and "s_in s = concat (map chunk_text cs) @ hx @ ext @ CRLF @
      concat (map (\<lambda>t. t @ CRLF) ts) @ CRLF @ rest"
    and "length (chunk_data cs) < 2 ^ 32"
  shows "yields (read_chunked s) (chunk_data cs) rest"
proof -
  obtain s1 where "read_chunked_loop [] s = (chunk_data cs, s1)"
      "s_in s1 = concat (map (\<lambda>t. t @ CRLF) ts) @ CRLF @ rest" "calm s1"
    using read_chunked_loop_yields [OF assms(1-4,6), of "[]"] assms(7) by (auto elim: yieldsE)
  then show ?thesis
    using skip_trailer_yields [OF _ assms(5), of s1 rest] by (simp add: read_chunked_def yields_def)
qed

end
