(* ===== verification/IcapSend.thy ===== *)
theory IcapSend
  imports IcapChunk
begin

text \<open>
  Writing to a connection, from \<open>lib/icap/util.cpp\<close>: \<open>send_line\<close>, \<open>send_data\<close> and
  \<open>send_chunked\<close>. The result of each is the boolean the source returns; a write that raises
  ends the routine with false, a write on a dead stream goes unnoticed.
\<close>

section \<open>Lines and data\<close>

definition send_line :: "string \<Rightarrow> sock \<Rightarrow> bool \<times> sock" where
  "send_line line s =
     (case sock_write line s of
        (ok, s1) \<Rightarrow> if \<not> ok then (False, s1) else sock_write CRLF s1)"

definition send_data :: "string \<Rightarrow> sock \<Rightarrow> bool \<times> sock" where
  "send_data data s = sock_write data s"

section \<open>send_chunked\<close>

text \<open>
  The do-while loop; True is "left by the loop condition or by break", False the early
  \<open>return false\<close>. \<open>offset\<close> is an \<open>unsigned int\<close>, \<open>chunks\<close> an \<open>int\<close>.
\<close>

function send_chunked_loop :: "string \<Rightarrow> u32 \<Rightarrow> int \<Rightarrow> sock \<Rightarrow> bool \<times> sock" where
  "send_chunked_loop data offset chunks s =
     (let chunked_data = substr data (unat offset) (Some (nat ICAP_BUFFER_SIZE))
      in if length chunked_data \<le> 0 then (True, s)
         else
           let offset' = offset + of_nat (length chunked_data)
           in case send_line (dectohex (of_nat (length chunked_data))) s of
                (ok, s1) \<Rightarrow>
                  if \<not> ok then (False, s1)
                  else case send_data chunked_data s1 of
                    (ok', s2) \<Rightarrow>
                      if \<not> ok' then (False, s2)
                      else let chunks' = chunks - 1
                           in if 0 < chunks' then send_chunked_loop data offset' chunks' s2
                              else (True, s2))"
  by pat_completeness auto
termination
  by (relation "measure (\<lambda>(_, _, chunks, _). nat chunks)") auto

declare send_chunked_loop.simps [simp del]

definition send_chunked :: "string \<Rightarrow> sock \<Rightarrow> bool \<times> sock" where
  "send_chunked data s =
     (let chunks = (if ICAP_BUFFER_SIZE < int (length data)
                    then int (length data) div ICAP_BUFFER_SIZE else 0)
      in case send_chunked_loop data 0 chunks s of
           (ok, s1) \<Rightarrow>
             if \<not> ok then (False, s1)
             else send_data (CRLF @ ''0'' @ CRLF @ CRLF) s1)"

section \<open>Writing appends\<close>

lemma send_line_emitted: "emitted s (snd (send_line line s))"
  unfolding send_line_def
  by (rule swrite.then_writer) (simp add: swrite.emits)

interpretation sline: stream_writer "send_line line" for line
  by unfold_locales (rule send_line_emitted)

interpretation sdata: stream_writer "send_data data" for data
  by unfold_locales (simp add: send_data_def swrite.emits)

lemma send_chunked_loop_emitted: "emitted s (snd (send_chunked_loop data offset chunks s))"
proof (induction data offset chunks s rule: send_chunked_loop.induct)
  case (1 data offset chunks s)
  let ?c = "substr data (unat offset) (Some (nat ICAP_BUFFER_SIZE))"
  obtain ok s1 where s1: "send_line (dectohex (of_nat (length ?c))) s = (ok, s1)"
    by (cases "send_line (dectohex (of_nat (length ?c))) s")
  obtain ok' s2 where s2: "send_data ?c s1 = (ok', s2)" by (cases "send_data ?c s1")
  have e1: "emitted s s1" using sline.emits [of s] s1 by (metis snd_conv)
  have e2: "emitted s s2" using emitted_trans [OF e1] sdata.emits [of s1] s2 by (metis snd_conv)
  have "emitted s (snd (send_chunked_loop data (offset + of_nat (length ?c)) (chunks - 1) s2))"
    if "\<not> length ?c \<le> 0" and "ok" and "ok'" and "0 < chunks - 1"
    using emitted_trans [OF e2 1 [OF refl _ refl s1 [symmetric] _ s2 [symmetric] _ refl]] that
    by simp
  with e1 e2 s1 s2 show ?case
    by (subst send_chunked_loop.simps) (auto simp: Let_def)
qed

interpretation schunked: stream_writer "send_chunked data" for data
proof unfold_locales
  fix s
  let ?chunks = "if ICAP_BUFFER_SIZE < int (length data)
    then int (length data) div ICAP_BUFFER_SIZE else 0"
  obtain ok s1 where l: "send_chunked_loop data 0 ?chunks s = (ok, s1)"
    by (cases "send_chunked_loop data 0 ?chunks s")
  have e: "emitted s s1" using send_chunked_loop_emitted [of s data 0 ?chunks] l by simp
  show "emitted s (snd (send_chunked data s))"
    using e emitted_trans [OF e sdata.emits]
    by (simp only: send_chunked_def Let_def l prod.case) (cases ok; simp)
qed

section \<open>What stands on the wire\<close>

lemma send_line_calm:
  assumes "calm s"
  shows "\<exists>s'. send_line line s = (True, s') \<and> calm s' \<and> s_out s' = s_out s @ line @ CRLF"
proof -
  let ?s1 = "s\<lparr>s_wev := tl (s_wev s), s_out := s_out s @ line\<rparr>"
  have "sock_write line s = (True, ?s1)" and c: "calm ?s1"
    using sock_write_calm [OF assms] by auto
  then show ?thesis
    using sock_write_calm [OF c, of CRLF] by (simp add: send_line_def)
qed

lemma send_data_calm:
  assumes "calm s"
  shows "\<exists>s'. send_data data s = (True, s') \<and> calm s' \<and> s_out s' = s_out s @ data"
  using sock_write_calm [OF assms, of data] by (simp add: send_data_def)

text \<open>The chunks \<open>send_chunked\<close> writes: size line and data, with nothing between chunks.\<close>

fun sent_chunks :: "nat \<Rightarrow> string \<Rightarrow> string" where
  "sent_chunks 0 data = []"
| "sent_chunks (Suc k) data =
     (if data = [] then []
      else dectohex (of_nat (length (take 1024 data))) @ CRLF @ take 1024 data @
        sent_chunks k (drop 1024 data))"

lemma send_chunked_loop_calm:
  assumes "calm s" and "length data < 2 ^ 32" and "unat offset \<le> length data"
    and "max 1 (nat chunks) = k"
    and "unat offset + 1024 * (k - 1) < length data \<or> k = 1"
  shows "\<exists>s'. send_chunked_loop data offset chunks s = (True, s') \<and> calm s' \<and>
    s_out s' = s_out s @ sent_chunks k (drop (unat offset) data)"
  using assms
proof (induction data offset chunks s arbitrary: k rule: send_chunked_loop.induct)
  case (1 data offset chunks s)
  let ?c = "substr data (unat offset) (Some (nat ICAP_BUFFER_SIZE))"
  let ?o = "offset + of_nat (length ?c)"
  have c: "?c = take 1024 (drop (unat offset) data)"
    by (simp add: substr_def ICAP_BUFFER_SIZE_def)
  obtain j where k: "k = Suc j" using "1.prems"(4) by (cases k) auto
  show ?case
  proof (cases "drop (unat offset) data = []")
    case True
    then have "send_chunked_loop data offset chunks s = (True, s)"
      using c by (subst send_chunked_loop.simps) (simp add: Let_def)
    with True "1.prems"(1) k show ?thesis by simp
  next
    case False
    then have nz: "\<not> length ?c \<le> 0" using c by simp
    obtain s1 where s1: "send_line (dectohex (of_nat (length ?c))) s = (True, s1)" "calm s1"
        "s_out s1 = s_out s @ dectohex (of_nat (length ?c)) @ CRLF"
      using send_line_calm [OF "1.prems"(1)] by blast
    obtain s2 where s2: "send_data ?c s1 = (True, s2)" "calm s2" "s_out s2 = s_out s1 @ ?c"
      using send_data_calm [OF s1(2)] by blast
    have out2: "s_out s2 = s_out s @ dectohex (of_nat (length ?c)) @ CRLF @ ?c"
      using s1(3) s2(3) by simp
    show ?thesis
    proof (cases "0 < chunks - 1")
      case False
      then have "send_chunked_loop data offset chunks s = (True, s2)"
        using nz s1(1) s2(1) by (subst send_chunked_loop.simps) (simp add: Let_def)
      moreover have "j = 0" using False "1.prems"(4) k by simp
      ultimately show ?thesis
        using \<open>drop (unat offset) data \<noteq> []\<close> out2 s2(2) k c by simp
    next
      case True
      then have full: "length ?c = 1024" and j: "max 1 (nat (chunks - 1)) = j"
        and lim: "unat offset + 1024 * j < length data"
        using "1.prems"(4,5) k c by (auto simp: max_def split: if_splits)
      have o: "unat ?o = unat offset + 1024"
        using full lim j "1.prems"(2) by (simp add: unat_word_ariths)
      have "\<exists>s'. send_chunked_loop data ?o (chunks - 1) s2 = (True, s') \<and> calm s' \<and>
          s_out s' = s_out s2 @ sent_chunks j (drop (unat ?o) data)"
        using lim j o "1.prems"(2) s2(2)
        by (intro "1.IH" [OF refl nz refl s1(1) [symmetric] _ s2(1) [symmetric] _ refl True])
          (auto simp: max_def split: if_splits)
      moreover have "send_chunked_loop data offset chunks s
          = send_chunked_loop data ?o (chunks - 1) s2"
        using nz s1(1) s2(1) True by (subst send_chunked_loop.simps) (simp add: Let_def)
      ultimately show ?thesis
        using \<open>drop (unat offset) data \<noteq> []\<close> out2 k c o by (auto simp: add.commute)
    qed
  qed
qed

text \<open>The number of chunks the loop writes: the size divided by 1024, at least one.\<close>

definition chunks_sent :: "nat \<Rightarrow> nat" where
  "chunks_sent n = max 1 (n div 1024)"

lemma chunks_sent_lim: "0 < n \<Longrightarrow> 1024 * (chunks_sent n - 1) < n"
  by (auto simp: chunks_sent_def max_def)

lemma send_chunked_calm:
  assumes "calm s" and "length data < 2 ^ 32"
  shows "\<exists>s'. send_chunked data s = (True, s') \<and> calm s' \<and>
    s_out s' = s_out s @ sent_chunks (chunks_sent (length data)) data @ CRLF @ ''0'' @ CRLF @ CRLF"
proof -
  let ?chunks = "if ICAP_BUFFER_SIZE < int (length data)
    then int (length data) div ICAP_BUFFER_SIZE else 0"
  have k: "max 1 (nat ?chunks) = chunks_sent (length data)"
    by (auto simp: ICAP_BUFFER_SIZE_def chunks_sent_def nat_div_distrib)
  obtain s1 where s1: "send_chunked_loop data 0 ?chunks s = (True, s1)" "calm s1"
      "s_out s1 = s_out s @ sent_chunks (chunks_sent (length data)) data"
    using send_chunked_loop_calm [OF assms(1,2), of 0 ?chunks] k chunks_sent_lim [of "length data"]
    by (cases "data = []") (auto simp: chunks_sent_def)
  obtain s2 where "send_data (CRLF @ ''0'' @ CRLF @ CRLF) s1 = (True, s2)" "calm s2"
      "s_out s2 = s_out s1 @ CRLF @ ''0'' @ CRLF @ CRLF"
    using send_data_calm [OF s1(2)] by blast
  with s1 show ?thesis
    by (simp only: send_chunked_def Let_def prod.case simp_thms if_False) simp
qed

text \<open>A body of at most one buffer goes out as one well-formed chunk and the last chunk.\<close>

lemma sent_one_chunk:
  assumes "data \<noteq> []" and "length data \<le> 1024"
  shows "sent_chunks (chunks_sent (length data)) data @ CRLF =
    chunk_text (dectohex (of_nat (length data)), [], data)"
proof -
  have "chunks_sent (length data) = 1"
    using assms by (auto simp: chunks_sent_def max_def)
  with assms show ?thesis by simp
qed

text \<open>A larger body: what follows the first 1024 bytes is not the \<open>CRLF\<close> a chunk ends with.\<close>

lemma sent_first_chunk:
  assumes "data \<noteq> []"
  obtains tail where "sent_chunks (chunks_sent (length data)) data =
    dectohex (of_nat (length (take 1024 data))) @ CRLF @ take 1024 data @ tail"
    and "tail = sent_chunks (chunks_sent (length data) - 1) (drop 1024 data)"
proof -
  obtain k where "chunks_sent (length data) = Suc k"
    by (cases "chunks_sent (length data)") (auto simp: chunks_sent_def max_def split: if_splits)
  with assms that show thesis by simp
qed

section \<open>Reading back what was sent\<close>

lemma size_ok_0: "size_ok ''0'' 0"
  using size_ok_dectohex [of 0] by (simp add: dectohex_0)

lemma read_back_well_formed:
  assumes "calm r" and "data \<noteq> []" and "length data < 2 ^ 31"
    and "s_in r = chunk_text (dectohex (of_nat (length data)), [], data) @ ''0'' @ CRLF @ CRLF @ rest"
  shows "yields (read_chunked_payload payload r) (False, payload @ data) rest"
  using read_chunked_payload_yields [OF assms(1), of "[(dectohex (of_nat (length data)), [], data)]"
      "''0''" "[]" rest payload] assms size_ok_0 size_ok_dectohex [OF assms(3)]
  by (simp add: ext_ok_def chunk_data_def chunk_extension_def)

lemma sent_chunks_long:
  assumes "2048 \<le> length data"
  obtains d2 tail where "length d2 = 1024"
    and "sent_chunks (chunks_sent (length data)) data =
      ''400'' @ CRLF @ take 1024 data @ ''400'' @ CRLF @ d2 @ tail"
proof -
  have "2 \<le> length data div 1024" using assms by (simp add: less_eq_div_iff_mult_less_eq)
  then obtain k where k: "chunks_sent (length data) = Suc (Suc k)"
    by (metis One_nat_def Suc_1 chunks_sent_def max.absorb2 le_Suc_ex add_Suc
        le_trans one_le_numeral plus_1_eq_Suc)
  let ?d2 = "take 1024 (drop 1024 data)"
  have len: "length (take 1024 data) = 1024" "length ?d2 = 1024" "data \<noteq> []" "drop 1024 data \<noteq> []"
    using assms by auto
  have "sent_chunks (chunks_sent (length data)) data =
      ''400'' @ CRLF @ take 1024 data @ ''400'' @ CRLF @ ?d2 @ sent_chunks k (drop 1024 (drop 1024 data))"
    unfolding k sent_chunks.simps if_not_P [OF len(3)] if_not_P [OF len(4)] len(1,2)
    by (simp add: dectohex_1024)
  with len(2) show thesis by (rule that)
qed

text \<open>
  Whatever the size of a body, reading back what \<open>send_chunked\<close> wrote gives its first 1024
  bytes: a body of 1025 to 2047 bytes is cut before it is sent, and in a longer one the
  second chunk is not separated from the first.
\<close>

lemma send_read_back:
  assumes "calm s" and "s_out s = []" and "data \<noteq> []" and "length data < 2 ^ 32"
    and "calm r" and "s_in r = s_out (snd (send_chunked data s)) @ rest"
  shows "fst (read_chunked_payload payload r) = (False, payload @ take 1024 data)"
proof -
  have wire: "s_in r = sent_chunks (chunks_sent (length data)) data @ CRLF @ ''0'' @ CRLF @ CRLF @ rest"
    using send_chunked_calm [OF assms(1,4)] assms(2,6) by auto
  show ?thesis
  proof (cases "length data < 2048")
    case True
    let ?d = "take 1024 data"
    have "chunks_sent (length data) = 1" using True by (auto simp: chunks_sent_def max_def)
    then have "s_in r = chunk_text (dectohex (of_nat (length ?d)), [], ?d) @ ''0'' @ CRLF @ CRLF @ rest"
      using wire assms(3) by simp
    moreover have "?d \<noteq> []" and "length ?d < 2 ^ 31" using assms(3) by simp_all
    ultimately show ?thesis
      using read_back_well_formed [OF assms(5), of ?d rest payload] by (simp add: yields_def)
  next
    case False
    let ?d = "take 1024 data"
    have "2048 \<le> length data" using False by simp
    then obtain d2 tail where d2: "length d2 = 1024"
      and sent: "sent_chunks (chunks_sent (length data)) data =
        ''400'' @ CRLF @ ?d @ ''400'' @ CRLF @ d2 @ tail"
      by (rule sent_chunks_long)
    let ?rest = "drop 2 d2 @ tail @ CRLF @ ''0'' @ CRLF @ CRLF @ rest"
    have len: "length ?d = 1024" using False by simp
    have hx: "size_ok ''400'' 1024"
      using size_ok_dectohex [of 1024] by (simp add: dectohex_1024)
    have "take 2 d2 @ ?rest = d2 @ tail @ CRLF @ ''0'' @ CRLF @ CRLF @ rest"
      by (metis append.assoc append_take_drop_id)
    then have in1: "s_in r = ''400'' @ [] @ CRLF @ ?d @ ''40'' @
        (''0'' @ [] @ CRLF @ take 2 d2 @ ?rest)"
      unfolding wire sent by simp
    have "chunk_ok (''400'', [], ?d)" using hx len by (auto simp: ext_ok_def)
    from read_chunk_yields_any [OF assms(5) this in1]
    obtain r1 where r1: "read_chunk r = (\<lparr>ck_size = 1024, ck_extention = [], ck_data = ?d\<rparr>, r1)"
        "s_in r1 = ''0'' @ [] @ CRLF @ take 2 d2 @ ?rest" "calm r1"
      using len by (auto simp: chunk_extension_def elim: yieldsE)
    from read_last_chunk_yields [OF r1(3) size_ok_0 _ r1(2)]
    obtain r2 where r2: "read_chunk r1 = (\<lparr>ck_size = 0, ck_extention = [], ck_data = []\<rparr>, r2)"
      using d2 by (auto simp: chunk_extension_def ext_ok_def elim: yieldsE)
    have "payload_loop payload r = payload_loop (payload @ ?d) r1"
      using r1(1) len by (subst payload_loop.simps) simp
    moreover have "fst (payload_loop (payload @ ?d) r1) =
        (\<lparr>ck_size = 0, ck_extention = [], ck_data = []\<rparr>, payload @ ?d)"
      using r2 by (subst payload_loop.simps) simp
    ultimately show ?thesis
      by (cases "payload_loop (payload @ ?d) r1") (auto simp: read_chunked_payload_def)
  qed
qed

end
