(* ===== verification/IcapProtocol.thy ===== *)
theory IcapProtocol
  imports IcapMessage IcapSend
begin

text \<open>
  Reading a request and writing a response: \<open>read_req_header\<close>, \<open>read_req_data\<close>,
  \<open>read_req_continue_data\<close>, \<open>send_headers\<close> and \<open>send_response\<close> of \<open>lib/icap/util.cpp\<close>.
\<close>

section \<open>Reading a request\<close>

lemma read_line_buf_shorter:
  assumes "((n, buffer), s') = read_line_buf bl incl s" and "0 < n"
  shows "length (s_in s') < length (s_in s)"
proof -
  have b: "read_line_buf_loop bl incl [] (CHR 0x00) s = (buffer, s')" "0 < length buffer"
    using assms by (auto simp: read_line_buf_def split: prod.splits)
  obtain r s1 where get: "sock_get s = (r, s1)" by (cases "sock_get s")
  show ?thesis
  proof (cases r)
    case None
    with b get show ?thesis
      by (subst (asm) read_line_buf_loop.simps) (auto split: if_splits)
  next
    case (Some c)
    then have s1: "length (s_in s1) < length (s_in s)"
      using get sock_get_shorter [of c s1 s] by simp
    have "s' = s1 \<or> read_line_buf_loop bl incl ([] @ [c]) c s1 = (buffer, s')"
      using b get Some by (subst (asm) read_line_buf_loop.simps) (auto split: if_splits)
    then have "length (s_in s') \<le> length (s_in s1)"
      using consumed_length [OF read_line_buf_loop_consumed [of s1 bl incl "[] @ [c]" c]] by auto
    with s1 show ?thesis by simp
  qed
qed

text \<open>The loop of \<open>read_req_header\<close>: lines are joined until one of at most two characters.\<close>

function read_header_lines :: "string \<Rightarrow> sock \<Rightarrow> string \<times> sock" where
  "read_header_lines data s =
     (case read_line_buf ICAP_BUFFER_SIZE True s of
        ((n, buffer), s') \<Rightarrow> if 2 < n then read_header_lines (data @ buffer) s' else (data, s'))"
  by pat_completeness auto
termination
  by (relation "measure (\<lambda>(_, s). length (s_in s))") (auto dest: read_line_buf_shorter)

declare read_header_lines.simps [simp del]

definition read_req_header :: "sock \<Rightarrow> request_header \<times> sock" where
  "read_req_header s =
     (case read_header_lines [] s of (data, s') \<Rightarrow> (new_request_header data, s'))"

text \<open>One entity of the payload read, by its name.\<close>

definition read_part :: "string \<Rightarrow> int \<Rightarrow> payload_t \<Rightarrow> sock \<Rightarrow> payload_t \<times> sock" where
  "read_part entity data_length payload s =
     (if entity = ''req-hdr'' then
        (case read_data data_length s of (d, s') \<Rightarrow> (payload\<lparr>req_header := d\<rparr>, s'))
      else if entity = ''req-body'' then
        (case read_data data_length s of (d, s') \<Rightarrow> (payload\<lparr>req_body := d\<rparr>, s'))
      else if entity = ''res-hdr'' then
        (case read_data data_length s of (d, s') \<Rightarrow> (payload\<lparr>res_header := d\<rparr>, s'))
      else if entity = ''res-body'' then
        (case read_data data_length s of (d, s') \<Rightarrow> (payload\<lparr>res_body := d\<rparr>, s'))
      else (payload, s))"

text \<open>The chunked entity that ends a payload; what is read is appended.\<close>

definition read_body :: "string \<Rightarrow> payload_t \<Rightarrow> sock \<Rightarrow> payload_t \<times> sock" where
  "read_body entity payload s =
     (if entity = ''req-body'' then
        (case read_chunked_payload (req_body payload) s of
           ((ie, d), s') \<Rightarrow> (payload\<lparr>req_body := d, ieof := ie\<rparr>, s'))
      else if entity = ''res-body'' then
        (case read_chunked_payload (res_body payload) s of
           ((ie, d), s') \<Rightarrow> (payload\<lparr>res_body := d, ieof := ie\<rparr>, s'))
      else (payload, s))"

text \<open>The loop of \<open>read_req_data\<close> over the sorted Encapsulated entities.\<close>

fun read_parts :: "encapsulated_header_data_t list \<Rightarrow> payload_t \<Rightarrow> sock \<Rightarrow> payload_t \<times> sock" where
  "read_parts [] payload s = (payload, s)"
| "read_parts [(entity, data_offset)] payload s =
     (if data_offset < 0 then (payload, s) else read_body entity payload s)"
| "read_parts ((entity, data_offset) # (next, next_offset) # idx) payload s =
     (if data_offset < 0 then read_parts ((next, next_offset) # idx) payload s
      else
        let data_length = next_offset - data_offset
        in case (if 0 < data_length then read_part entity data_length payload s
                 else (payload, s)) of
             (payload', s') \<Rightarrow> read_parts ((next, next_offset) # idx) payload' s')"

definition read_req_data :: "request \<Rightarrow> sock \<Rightarrow> (bool \<times> request) \<times> sock" where
  "read_req_data rq s =
     (case read_parts (sort_encapsulated_header (q_header rq)) empty_payload s of
        (payload, s') \<Rightarrow> ((True, set_request_payload payload rq), s'))"

definition read_req_continue_data :: "request \<Rightarrow> sock \<Rightarrow> (bool \<times> request) \<times> sock" where
  "read_req_continue_data rq s =
     (let sorted_encaps_header = sort_encapsulated_header (q_header rq)
      in if 0 < length sorted_encaps_header then
           (case read_body (fst (last sorted_encaps_header)) (q_payload rq) s of
              (payload, s') \<Rightarrow> ((True, set_request_payload payload rq), s'))
         else ((False, rq), s))"

section \<open>Writing a response\<close>

fun send_header_lines :: "(string \<times> string) list \<Rightarrow> sock \<Rightarrow> bool \<times> sock" where
  "send_header_lines [] s = (True, s)"
| "send_header_lines ((key, value) # hs) s =
     (case send_line (key @ '': '' @ value) s of
        (ok, s') \<Rightarrow> if \<not> ok then (False, s') else send_header_lines hs s')"

definition send_headers :: "'a header_scheme \<Rightarrow> sock \<Rightarrow> bool \<times> sock" where
  "send_headers h s =
     (case send_header_lines (h_headers h) s of
        (ok, s1) \<Rightarrow>
          if \<not> ok then (False, s1)
          else case send_line (''Encapsulated: '' @ encapsulated_header_str h) s1 of
            (ok', s2) \<Rightarrow> if \<not> ok' then (False, s2) else send_data CRLF s2)"

text \<open>A part of the payload is sent when it is not empty; whether that works is not looked at.\<close>

definition send_part :: "(string \<Rightarrow> sock \<Rightarrow> bool \<times> sock) \<Rightarrow> string \<Rightarrow> sock \<Rightarrow> sock" where
  "send_part send data s = (if 0 < length data then snd (send data s) else s)"

definition send_payload :: "payload_t \<Rightarrow> sock \<Rightarrow> sock" where
  "send_payload payload s =
     send_part send_chunked (res_body payload)
       (send_part send_data (res_header payload)
         (send_part send_chunked (req_body payload)
           (send_part send_data (req_header payload) s)))"

definition status_line :: "response_header \<Rightarrow> string" where
  "status_line h =
     rs_protocol (sh_response h) @ '' '' @ itoa (status_code (rs_status (sh_response h))) @ '' '' @
       response_status (rs_status (sh_response h))"

definition send_response :: "response \<Rightarrow> sock \<Rightarrow> bool \<times> sock" where
  "send_response rs s =
     (case send_line (status_line (r_header rs)) s of
        (ok, s1) \<Rightarrow>
          case (if ok then send_headers (r_header rs) s1 else (False, s1)) of
            (r_success, s2) \<Rightarrow>
              (r_success,
               sock_flush (if r_success then send_payload (r_payload rs) s2 else s2)))"

section \<open>Reading only consumes, writing only appends\<close>

lemma read_header_lines_consumed: "consumed s (snd (read_header_lines data s))"
proof (induction data s rule: read_header_lines.induct)
  case (1 data s)
  obtain n b s1 where r: "read_line_buf ICAP_BUFFER_SIZE True s = ((n, b), s1)"
    by (metis prod.exhaust)
  have "consumed s s1" using rlb.consumes [of s ICAP_BUFFER_SIZE True] r by simp
  then show ?case
    using 1 [OF r [symmetric]] r consumed_trans
    by (subst read_header_lines.simps) auto
qed

interpretation rqh: stream_reader read_req_header
  by unfold_locales
    (simp add: read_req_header_def split: prod.splits, metis read_header_lines_consumed snd_conv)

interpretation rpart: stream_reader "read_part entity n payload" for entity n payload
  by unfold_locales (auto simp: read_part_def intro: rdata.then_reader)

interpretation rbody: stream_reader "read_body entity payload" for entity payload
proof unfold_locales
  fix s
  have "consumed s s'" if "read_chunked_payload p s = (x, s')" for p x s'
    using rcp.consumes [of s p] that by simp
  then show "consumed s (snd (read_body entity payload s))"
    by (auto simp: read_body_def split: prod.splits)
qed

lemma read_parts_consumed: "consumed s (snd (read_parts ps payload s))"
proof (induction ps payload s rule: read_parts.induct)
  case (2 e off payload s)
  show ?case by (simp add: rbody.consumes)
next
  case (3 e off e2 off2 ps payload s)
  show ?case
  proof (cases "off < 0")
    case True
    with 3(1) show ?thesis by simp
  next
    case False
    obtain p' s' where r: "(if 0 < off2 - off then read_part e (off2 - off) payload s else (payload, s))
        = (p', s')" by fastforce
    then have "consumed s s'"
      using rpart.consumes [of s e "off2 - off" payload] by (auto split: if_splits)
    with 3(2) [OF False refl r [symmetric]] False r show ?thesis
      by (simp add: Let_def consumed_trans)
  qed
qed simp

interpretation rqd: stream_reader "read_req_data rq" for rq
  by unfold_locales
    (simp add: read_req_data_def split: prod.splits, metis read_parts_consumed snd_conv)

interpretation rqc: stream_reader "read_req_continue_data rq" for rq
  by unfold_locales
    (auto simp: read_req_continue_data_def Let_def intro: rbody.then_reader)

lemma send_header_lines_emitted: "emitted s (snd (send_header_lines hs s))"
proof (induction hs s rule: send_header_lines.induct)
  case (2 k v hs s)
  obtain ok s' where r: "send_line (k @ '': '' @ v) s = (ok, s')" by fastforce
  then have "emitted s s'" using sline.emits [of s "k @ '': '' @ v"] by simp
  with 2 r show ?case by (auto intro: emitted_trans)
qed simp

interpretation shdrs: stream_writer "send_headers h" for h
proof unfold_locales
  fix s
  obtain ok s1 where r: "send_header_lines (h_headers h) s = (ok, s1)" by fastforce
  then have e1: "emitted s s1" using send_header_lines_emitted [of s "h_headers h"] by simp
  have "emitted s1 (snd (case send_line l s1 of (ok', s2) \<Rightarrow> if \<not> ok' then (False, s2) else send_data CRLF s2))" for l
    by (rule sline.then_writer) (simp add: sdata.emits)
  with e1 r show "emitted s (snd (send_headers h s))"
    by (auto simp: send_headers_def intro: emitted_trans)
qed

lemma send_part_emitted:
  "emitted s0 s \<Longrightarrow> (\<And>s. emitted s (snd (send data s))) \<Longrightarrow> emitted s0 (send_part send data s)"
  by (auto simp: send_part_def intro: emitted_trans)

lemma send_payload_emitted: "emitted s (send_payload payload s)"
  unfolding send_payload_def
  by (intro send_part_emitted emitted_refl sdata.emits schunked.emits)

interpretation sresp: stream_writer "send_response rs" for rs
proof unfold_locales
  fix s
  obtain ok s1 where r: "send_line (status_line (r_header rs)) s = (ok, s1)" by fastforce
  obtain b s2 where r2: "(if ok then send_headers (r_header rs) s1 else (False, s1)) = (b, s2)"
    by fastforce
  have "emitted s s1" using sline.emits [of s "status_line (r_header rs)"] r by simp
  moreover have "emitted s1 s2" using shdrs.emits [of s1 "r_header rs"] r2 by (auto split: if_splits)
  ultimately have "emitted s s2" by (rule emitted_trans)
  then have "emitted s (if b then send_payload (r_payload rs) s2 else s2)"
    using emitted_trans send_payload_emitted by auto
  then show "emitted s (snd (send_response rs s))"
    using r r2 emitted_trans [OF _ emitted_flush] by (simp add: send_response_def)
qed

end
