(* ===== verification/Modifier.thy ===== *)
theory Modifier
  imports IcapProtocol
begin

text \<open>
  The interface of a content modifier, \<open>bitz::Modifier\<close> (\<open>src/bitz/modifier.h\<close>), the shared
  library a module is loaded from, and the module \<open>modules/echo\<close>. The world \<open>'w\<close> is whatever a
  module keeps outside the request; \<open>env_t\<close> is what constructing a response reads from
  outside (the clock) or leaves unset (the flag \<open>ieof\<close>).
\<close>

section \<open>The interface\<close>

record env_t =
  e_clock :: clock
  e_junk :: bool

text \<open>
  An object of a class derived from \<open>Modifier\<close>: its two virtual functions get the request by
  pointer, so they may change it; the destructor is virtual too.
\<close>

type_synonym 'w answer = "request \<Rightarrow> 'w \<Rightarrow> (response \<times> request) \<times> 'w"

record 'w modifier =
  md_modify :: "'w answer"
  md_preview :: "'w answer"
  md_delete :: "'w \<Rightarrow> 'w"

type_synonym 'w create_t = "'w \<Rightarrow> 'w modifier \<times> 'w"

type_synonym 'w destroy_t = "'w modifier \<Rightarrow> 'w \<Rightarrow> 'w"

text \<open>A shared library as \<open>dlsym\<close> sees it: a symbol is there or it is not.\<close>

record 'w library =
  lib_create :: "'w create_t option"
  lib_destroy :: "'w destroy_t option"

text \<open>\<open>symbols_t\<close>: the handle of \<open>dlopen\<close> (None is the null pointer) and the two functions.\<close>

record 'w symbols_t =
  sy_modifier :: "'w library option"
  sy_create :: "'w create_t"
  sy_destroy :: "'w destroy_t"

text \<open>One use of a module: an object is created, asked, and destroyed.\<close>

definition ask_modifier :: "('w modifier \<Rightarrow> 'w answer) \<Rightarrow> 'w symbols_t \<Rightarrow> 'w answer" where
  "ask_modifier virtual symbols rq w =
     (case sy_create symbols w of
        (md, w1) \<Rightarrow>
          case virtual md rq w1 of
            (answer, w2) \<Rightarrow> (answer, sy_destroy symbols md w2))"

section \<open>What a module owes the server\<close>

text \<open>
  A module keeps an invariant of requests and answers with a well-formed response header. The
  request handler and the worker rely on no more than that.
\<close>

definition request_inv :: "request \<Rightarrow> bool" where
  "request_inv rq \<longleftrightarrow> header_ok (q_header rq)"

definition response_inv :: "response \<Rightarrow> bool" where
  "response_inv rs \<longleftrightarrow> header_ok (r_header rs)"

locale modifier_contract =
  fixes ask :: "'w answer"
  assumes answers: "request_inv rq \<Longrightarrow> ask rq w = ((rs, rq'), w') \<Longrightarrow> response_inv rs \<and> request_inv rq'"
begin

lemma answer_response: "request_inv rq \<Longrightarrow> response_inv (fst (fst (ask rq w)))"
  and answer_request: "request_inv rq \<Longrightarrow> request_inv (snd (fst (ask rq w)))"
  using answers [of rq w] by (metis prod.collapse)+

end

text \<open>Asking through freshly created objects keeps the contract.\<close>

definition symbols_ok :: "'w symbols_t \<Rightarrow> bool" where
  "symbols_ok sy \<longleftrightarrow>
     (\<forall>w. modifier_contract (md_preview (fst (sy_create sy w))) \<and>
          modifier_contract (md_modify (fst (sy_create sy w))))"

lemma ask_modifier_contract:
  assumes "\<And>w. modifier_contract (virtual (fst (sy_create sy w)))"
  shows "modifier_contract (ask_modifier virtual sy)"
proof unfold_locales
  fix rq w rs rq' w'
  assume inv: "request_inv rq" and ask: "ask_modifier virtual sy rq w = ((rs, rq'), w')"
  obtain md w1 where c: "sy_create sy w = (md, w1)" by fastforce
  obtain w2 where r: "virtual md rq w1 = ((rs, rq'), w2)"
    using ask c by (auto simp: ask_modifier_def split: prod.splits)
  have md: "modifier_contract (virtual md)" using assms [of w] c by simp
  show "response_inv rs \<and> request_inv rq'"
    by (rule modifier_contract.answers [OF md inv r])
qed

lemma new_response_inv [simp]: "response_inv (new_response cl j st)"
  by (simp add: response_inv_def new_response_def new_response_header_ok)

lemma set_response_payload_inv [simp]: "response_inv rs \<Longrightarrow> response_inv (set_response_payload p rs)"
  by (simp add: response_inv_def set_response_payload_def update_encapsulated_ok)

lemma set_request_payload_inv [simp]: "request_inv rq \<Longrightarrow> request_inv (set_request_payload p rq)"
  by (simp add: request_inv_def set_request_payload_def update_encapsulated_ok)

section \<open>The module echo\<close>

text \<open>
  \<open>Echo::modify\<close>: the payload of the answer is a local whose flag \<open>ieof\<close> is never set. The
  request part is only copied for REQMOD.
\<close>

definition echo_modify :: "env_t \<Rightarrow> request \<Rightarrow> response" where
  "echo_modify ev rq =
     (let payload = empty_payload\<lparr>ieof := e_junk ev\<rparr>;
          payload =
            (if method_of (q_header rq) = ''REQMOD''
             then payload\<lparr>req_header := req_header (q_payload rq), req_body := req_body (q_payload rq)\<rparr>
             else payload);
          payload =
            payload\<lparr>res_header := res_header (q_payload rq), res_body := res_body (q_payload rq)\<rparr>
      in set_response_payload payload (new_response (e_clock ev) (e_junk ev) OK))"

definition echo_preview :: "env_t \<Rightarrow> request \<Rightarrow> response" where
  "echo_preview ev rq = new_response (e_clock ev) (e_junk ev) CONTINUE"

text \<open>The object and the library, over a world that has a clock to read.\<close>

definition echo :: "('w \<Rightarrow> env_t \<times> 'w) \<Rightarrow> 'w modifier" where
  "echo tick =
     \<lparr>md_modify = (\<lambda>rq w. case tick w of (ev, w') \<Rightarrow> ((echo_modify ev rq, rq), w')),
      md_preview = (\<lambda>rq w. case tick w of (ev, w') \<Rightarrow> ((echo_preview ev rq, rq), w')),
      md_delete = (\<lambda>w. w)\<rparr>"

definition echo_library :: "('w \<Rightarrow> env_t \<times> 'w) \<Rightarrow> 'w library" where
  "echo_library tick =
     \<lparr>lib_create = Some (\<lambda>w. (echo tick, w)), lib_destroy = Some md_delete\<rparr>"

interpretation echo_m: modifier_contract "md_modify (echo tick)" for tick :: "'w \<Rightarrow> env_t \<times> 'w"
  by unfold_locales (auto simp: echo_def echo_modify_def Let_def split: prod.splits)

interpretation echo_p: modifier_contract "md_preview (echo tick)" for tick :: "'w \<Rightarrow> env_t \<times> 'w"
  by unfold_locales (auto simp: echo_def echo_preview_def split: prod.splits)

lemma echo_modify_payload:
  "r_payload (echo_modify ev rq) =
    (if method_of (q_header rq) = ''REQMOD'' then (q_payload rq)\<lparr>ieof := e_junk ev\<rparr>
     else (q_payload rq)\<lparr>ieof := e_junk ev, req_header := [], req_body := []\<rparr>)"
  by (simp add: echo_modify_def set_response_payload_def empty_payload_def Let_def)

lemma echo_modify_status: "rs_status (sh_response (r_header (echo_modify ev rq))) = OK"
proof -
  have "sh_response (update_encapsulated p h) = sh_response h" for p and h :: response_header
    by (simp add: update_encapsulated_def split: prod.splits)
  then show ?thesis
    by (simp add: echo_modify_def set_response_payload_def new_response_def response_header_fields(5) Let_def)
qed

end
