(* ===== verification/RequestHandler.thy ===== *)
theory RequestHandler
  imports Config Modifier
begin

text \<open>
  \<open>bitz::RequestHandler\<close> (\<open>src/bitz/request_handler.cpp\<close>, \<open>request_handler.h\<close>): loading the
  modules of a method, and processing a request through them. \<open>dlopen\<close> is the argument
  \<open>linker\<close>; \<open>tick\<close> draws a reading of the clock from the world. Logging is not modelled.
\<close>

section \<open>Loading modules\<close>

type_synonym 'w linker = "string \<Rightarrow> 'w library option"

record 'w handler_t =
  hn_name :: string
  hn_symbols :: "'w symbols_t"

record 'w request_handler =
  hd_method :: string
  hd_handlers :: "'w handler_t list"

definition load_modifier :: "'w linker \<Rightarrow> string \<Rightarrow> 'w symbols_t \<Rightarrow> bool \<times> 'w symbols_t" where
  "load_modifier linker file symbols =
     (let symbols = symbols\<lparr>sy_modifier := linker file\<rparr>
      in case linker file of
           None \<Rightarrow> (False, symbols)
         | Some lib \<Rightarrow>
             case lib_create lib of
               None \<Rightarrow> (False, symbols)
             | Some create \<Rightarrow>
                 let symbols = symbols\<lparr>sy_create := create\<rparr>
                 in case lib_destroy lib of
                      None \<Rightarrow> (False, symbols)
                    | Some destroy \<Rightarrow> (True, symbols\<lparr>sy_destroy := destroy\<rparr>))"

text \<open>One entry of the array; \<open>junk\<close> is the content \<open>new handler_t[ n ]\<close> leaves.\<close>

definition load_handler :: "'w linker \<Rightarrow> 'w symbols_t \<Rightarrow> modules_config_t \<Rightarrow> 'w handler_t" where
  "load_handler linker junk m =
     (case load_modifier linker (mc_module m) junk of
        (ok, symbols) \<Rightarrow> \<lparr>hn_name = (if ok then mc_name m else []), hn_symbols = symbols\<rparr>)"

text \<open>
  \<open>load_modules\<close>: the first configuration entry of the method counts. None: the count is not
  the one of the array, so the process reads what is not there or dies in \<open>new\<close>.
\<close>

fun load_modules :: "'w linker \<Rightarrow> 'w symbols_t \<Rightarrow> string \<Rightarrow> req_handlers_config_t list \<Rightarrow>
    'w handler_t list option" where
  "load_modules linker junk mth [] = Some []"
| "load_modules linker junk mth (e # es) =
     (if rc_name e = mth then
        if 0 < rc_modules_count e then
          (case rc_modules e of
             None \<Rightarrow> None
           | Some ms \<Rightarrow>
               if sint (rc_modules_count e) < 0 \<or> length ms < unat (rc_modules_count e) then None
               else Some (map (load_handler linker junk) (take (unat (rc_modules_count e)) ms)))
        else Some []
      else load_modules linker junk mth es)"

definition new_request_handler :: "'w linker \<Rightarrow> 'w symbols_t \<Rightarrow> config_t \<Rightarrow> string \<Rightarrow>
    'w request_handler option" where
  "new_request_handler linker junk c mth =
     map_option (\<lambda>hs. \<lparr>hd_method = mth, hd_handlers = hs\<rparr>)
       (load_modules linker junk mth (c_req_handlers c))"

text \<open>What \<open>cleanup_modules\<close> passes to \<open>dlclose\<close>, in order; None is the null pointer.\<close>

definition cleanup_modules :: "'w request_handler \<Rightarrow> 'w library option list" where
  "cleanup_modules rh = map (\<lambda>h. sy_modifier (hn_symbols h)) (hd_handlers rh)"

section \<open>Processing a request\<close>

abbreviation status_of :: "response \<Rightarrow> status_t" where
  "status_of rs \<equiv> rs_status (sh_response (r_header rs))"

definition preview_continue :: "response \<Rightarrow> request \<Rightarrow> sock \<Rightarrow> (bool \<times> request) \<times> sock" where
  "preview_continue rs rq s =
     (if ieof (q_payload rq) then ((False, rq), s)
      else case send_response rs s of
        (ok, s1) \<Rightarrow> if ok then read_req_continue_data rq s1 else ((False, rq), s1))"

type_synonym 'w tick = "'w \<Rightarrow> env_t \<times> 'w"

definition server_error :: "'w tick \<Rightarrow> 'w \<Rightarrow> response \<times> 'w" where
  "server_error tick w =
     (case tick w of (ev, w') \<Rightarrow> (new_response (e_clock ev) (e_junk ev) SERVER_ERROR, w'))"

text \<open>The loop of \<open>process_preview\<close>; the first argument is the variable \<open>response\<close>.\<close>

fun process_preview_loop :: "'w tick \<Rightarrow> response option \<Rightarrow> 'w handler_t list \<Rightarrow> request \<Rightarrow> sock \<Rightarrow> 'w \<Rightarrow>
    (response option \<times> request) \<times> sock \<times> 'w" where
  "process_preview_loop tick rs [] rq s w = ((rs, rq), s, w)"
| "process_preview_loop tick rs (h # hs) rq s w =
     (if hn_name h = [] then process_preview_loop tick rs hs rq s w
      else case ask_modifier md_preview (hn_symbols h) rq w of
        ((rs', rq'), w1) \<Rightarrow>
          if status_of rs' = NO_CONTENT \<or> status_of rs' = OK then ((Some rs', rq'), s, w1)
          else if status_of rs' = CONTINUE then
            (case preview_continue rs' rq' s of
               ((continue_status, rq''), s1) \<Rightarrow>
                 if continue_status then ((None, rq''), s1, w1)
                 else case server_error tick w1 of (err, w2) \<Rightarrow> ((Some err, rq''), s1, w2))
          else process_preview_loop tick (Some rs') hs rq' s w1)"

definition process_preview :: "'w tick \<Rightarrow> 'w request_handler \<Rightarrow> request \<Rightarrow> sock \<Rightarrow> 'w \<Rightarrow>
    (response option \<times> request) \<times> sock \<times> 'w" where
  "process_preview tick rh rq s w = process_preview_loop tick None (hd_handlers rh) rq s w"

fun process_modify_loop :: "response option \<Rightarrow> 'w handler_t list \<Rightarrow> request \<Rightarrow> 'w \<Rightarrow>
    (response option \<times> request) \<times> 'w" where
  "process_modify_loop rs [] rq w = ((rs, rq), w)"
| "process_modify_loop rs (h # hs) rq w =
     (if hn_name h = [] then process_modify_loop rs hs rq w
      else case ask_modifier md_modify (hn_symbols h) rq w of
        ((rs', rq'), w1) \<Rightarrow>
          if status_of rs' = OK then ((Some rs', rq'), w1)
          else process_modify_loop (Some rs') hs rq' w1)"

definition process_modify :: "'w request_handler \<Rightarrow> request \<Rightarrow> 'w \<Rightarrow> (response option \<times> request) \<times> 'w" where
  "process_modify rh rq w = process_modify_loop None (hd_handlers rh) rq w"

text \<open>
  The response, and the request header as the modules left it: it belongs to the caller, who
  goes on reading it.
\<close>

definition process :: "'w tick \<Rightarrow> 'w request_handler \<Rightarrow> request_header \<Rightarrow> sock \<Rightarrow> 'w \<Rightarrow>
    (response \<times> request_header) \<times> sock \<times> 'w" where
  "process tick rh hdr s w =
     (case read_req_data (new_request hdr) s of
        ((read, rq), s1) \<Rightarrow>
          if \<not> read then (case server_error tick w of (err, w') \<Rightarrow> ((err, q_header rq), s1, w'))
          else
            case (if 0 \<le> preview_size rq then process_preview tick rh rq s1 w else ((None, rq), s1, w)) of
              ((rs, rq1), s2, w1) \<Rightarrow>
                case (case rs of
                        None \<Rightarrow> process_modify rh rq1 w1
                      | Some r \<Rightarrow> ((Some r, rq1), w1)) of
                  ((rs', rq2), w2) \<Rightarrow>
                    case rs' of
                      Some r \<Rightarrow> ((r, q_header rq2), s2, w2)
                    | None \<Rightarrow>
                        (case server_error tick w2 of (err, w3) \<Rightarrow> ((err, q_header rq2), s2, w3)))"

section \<open>Loading, and what is loaded\<close>

text \<open>A module counts as loaded when its name is kept.\<close>

definition loaded :: "'w handler_t list \<Rightarrow> 'w handler_t list" where
  "loaded hs = filter (\<lambda>h. hn_name h \<noteq> []) hs"

lemma load_modifier_ok:
  "fst (load_modifier linker file symbols) \<longleftrightarrow>
    (\<exists>lib c d. linker file = Some lib \<and> lib_create lib = Some c \<and> lib_destroy lib = Some d \<and>
      snd (load_modifier linker file symbols) = \<lparr>sy_modifier = Some lib, sy_create = c, sy_destroy = d\<rparr>)"
  by (auto simp: load_modifier_def Let_def split: option.splits)

lemma load_modules_some:
  assumes "\<forall>e\<in>set es. entry_ok e \<and> unat (rc_modules_count e) < 2 ^ 31"
  shows "\<exists>hs. load_modules linker junk mth es = Some hs \<and>
    (case find (\<lambda>e. rc_name e = mth) es of
       None \<Rightarrow> hs = []
     | Some e \<Rightarrow> hs = map (load_handler linker junk) (case rc_modules e of None \<Rightarrow> [] | Some ms \<Rightarrow> ms))"
  using assms
proof (induction es)
  case (Cons e es)
  show ?case
  proof (cases "rc_name e = mth")
    case True
    have e: "entry_ok e" "unat (rc_modules_count e) < 2 ^ 31" using Cons.prems by auto
    have "sint (rc_modules_count e) = int (unat (rc_modules_count e))"
      using sint_of_nat_small [OF e(2)] by simp
    with True e show ?thesis
      by (auto simp: entry_ok_def unat_eq_zero word_gt_0 split: option.splits)
  next
    case False
    with Cons show ?thesis by auto
  qed
qed simp

section \<open>Modify: the first OK, else the last answer\<close>

text \<open>The answers the loaded modules would give one after another.\<close>

fun modify_answers :: "'w handler_t list \<Rightarrow> request \<Rightarrow> 'w \<Rightarrow> ((response \<times> request) \<times> 'w) list" where
  "modify_answers [] rq w = []"
| "modify_answers (h # hs) rq w =
     (case ask_modifier md_modify (hn_symbols h) rq w of
        ((rs, rq'), w') \<Rightarrow> ((rs, rq'), w') # modify_answers hs rq' w')"

lemma process_modify_answers:
  "process_modify_loop rs hs rq w =
    (let as = modify_answers (loaded hs) rq w;
         pick = (\<lambda>((r, q), v). ((Some r, q), v))
     in case find (\<lambda>((r, q), v). status_of r = OK) as of
          Some a \<Rightarrow> pick a
        | None \<Rightarrow> if as = [] then ((rs, rq), w) else pick (last as))"
proof (induction rs hs rq w rule: process_modify_loop.induct)
  case (2 rs h hs rq w)
  show ?case
  proof (cases "hn_name h = []")
    case True
    with 2(1) show ?thesis by (simp add: loaded_def)
  next
    case False
    obtain r q v where a: "ask_modifier md_modify (hn_symbols h) rq w = ((r, q), v)"
      by (metis prod.exhaust)
    show ?thesis
    proof (cases "status_of r = OK")
      case True
      with False a show ?thesis by (simp add: loaded_def Let_def)
    next
      case notok: False
      let ?as = "modify_answers (loaded hs) q v"
      have "process_modify_loop rs (h # hs) rq w = process_modify_loop (Some r) hs q v"
        using False a notok by simp
      moreover have "modify_answers (loaded (h # hs)) rq w = ((r, q), v) # ?as"
        using False a by (simp add: loaded_def)
      ultimately show ?thesis
        using 2(2) [OF False a [symmetric] refl notok] notok
        by (cases "find (\<lambda>((r, q), v). status_of r = OK) ?as") (simp_all add: Let_def)
    qed
  qed
qed (simp add: loaded_def)

lemma process_modify_none: "loaded hs = [] \<Longrightarrow> process_modify_loop rs hs rq w = ((rs, rq), w)"
  by (simp add: process_modify_answers Let_def)

lemma process_preview_none: "loaded hs = [] \<Longrightarrow> process_preview_loop tick rs hs rq s w = ((rs, rq), s, w)"
  by (induction hs) (auto simp: loaded_def split: if_splits)

section \<open>Preview: the first decisive answer\<close>

fun preview_answers :: "'w handler_t list \<Rightarrow> request \<Rightarrow> 'w \<Rightarrow> ((response \<times> request) \<times> 'w) list" where
  "preview_answers [] rq w = []"
| "preview_answers (h # hs) rq w =
     (case ask_modifier md_preview (hn_symbols h) rq w of
        ((rs, rq'), w') \<Rightarrow> ((rs, rq'), w') # preview_answers hs rq' w')"

definition decisive :: "response \<Rightarrow> bool" where
  "decisive rs \<longleftrightarrow> status_of rs \<in> {NO_CONTENT, OK, CONTINUE}"

text \<open>What a decisive answer leads to.\<close>

definition preview_outcome :: "'w tick \<Rightarrow> response \<Rightarrow> request \<Rightarrow> sock \<Rightarrow> 'w \<Rightarrow>
    (response option \<times> request) \<times> sock \<times> 'w" where
  "preview_outcome tick rs rq s w =
     (if status_of rs \<noteq> CONTINUE then ((Some rs, rq), s, w)
      else case preview_continue rs rq s of
        ((ok, rq'), s') \<Rightarrow>
          if ok then ((None, rq'), s', w)
          else case server_error tick w of (err, w') \<Rightarrow> ((Some err, rq'), s', w'))"

lemma process_preview_answers:
  "process_preview_loop tick rs hs rq s w =
    (let as = preview_answers (loaded hs) rq w
     in case find (\<lambda>((r, q), v). decisive r) as of
          Some ((r, q), v) \<Rightarrow> preview_outcome tick r q s v
        | None \<Rightarrow> if as = [] then ((rs, rq), s, w)
                  else (case last as of ((r, q), v) \<Rightarrow> ((Some r, q), s, v)))"
proof (induction tick rs hs rq s w rule: process_preview_loop.induct)
  case (2 tick rs h hs rq s w)
  show ?case
  proof (cases "hn_name h = []")
    case True
    with 2(1) show ?thesis by (simp add: loaded_def)
  next
    case False
    obtain r q v where a: "ask_modifier md_preview (hn_symbols h) rq w = ((r, q), v)"
      by (metis prod.exhaust)
    let ?as = "preview_answers (loaded hs) q v"
    have as: "preview_answers (loaded (h # hs)) rq w = ((r, q), v) # ?as"
      using False a by (simp add: loaded_def)
    show ?thesis
    proof (cases "decisive r")
      case True
      then have "process_preview_loop tick rs (h # hs) rq s w = preview_outcome tick r q s v"
        using False a by (auto simp: decisive_def preview_outcome_def split: prod.splits)
      with True as show ?thesis by (simp add: Let_def)
    next
      case notdec: False
      then have n: "\<not> (status_of r = NO_CONTENT \<or> status_of r = OK)" "status_of r \<noteq> CONTINUE"
        by (auto simp: decisive_def)
      then have "process_preview_loop tick rs (h # hs) rq s w =
          process_preview_loop tick (Some r) hs q s v"
        using False a by simp
      with 2(2) [OF False a [symmetric] refl n] notdec as show ?thesis
        by (cases "find (\<lambda>((r, q), v). decisive r) ?as") (simp_all add: Let_def)
    qed
  qed
qed (simp add: loaded_def)

section \<open>Well-formed answers\<close>

definition handlers_ok :: "'w handler_t list \<Rightarrow> bool" where
  "handlers_ok hs \<longleftrightarrow> (\<forall>h\<in>set (loaded hs). symbols_ok (hn_symbols h))"

lemma handlers_ok_Cons:
  "handlers_ok (h # hs) \<Longrightarrow> handlers_ok hs \<and> (hn_name h \<noteq> [] \<longrightarrow> symbols_ok (hn_symbols h))"
  by (auto simp: handlers_ok_def loaded_def)

lemma symbols_ok_ask:
  assumes "symbols_ok sy"
  shows "modifier_contract (ask_modifier md_modify sy)" and "modifier_contract (ask_modifier md_preview sy)"
  using assms by (auto simp: symbols_ok_def intro: ask_modifier_contract)

text \<open>The answers of modules that keep the contract are well-formed, and so is the request.\<close>

lemma modify_answers_inv:
  assumes "\<forall>h\<in>set hs. symbols_ok (hn_symbols h)" and "request_inv rq"
    and "((r, q), v) \<in> set (modify_answers hs rq w)"
  shows "response_inv r \<and> request_inv q"
  using assms
proof (induction hs arbitrary: rq w)
  case (Cons h hs)
  obtain r1 q1 v1 where a: "ask_modifier md_modify (hn_symbols h) rq w = ((r1, q1), v1)"
    by (metis prod.exhaust)
  have sy: "symbols_ok (hn_symbols h)" using Cons.prems(1) by simp
  have i: "response_inv r1 \<and> request_inv q1"
    by (rule modifier_contract.answers [OF symbols_ok_ask(1) [OF sy] Cons.prems(2) a])
  with Cons.IH [of q1 v1] Cons.prems(1,3) a show ?case by auto
qed simp

lemma preview_answers_inv:
  assumes "\<forall>h\<in>set hs. symbols_ok (hn_symbols h)" and "request_inv rq"
    and "((r, q), v) \<in> set (preview_answers hs rq w)"
  shows "response_inv r \<and> request_inv q"
  using assms
proof (induction hs arbitrary: rq w)
  case (Cons h hs)
  obtain r1 q1 v1 where a: "ask_modifier md_preview (hn_symbols h) rq w = ((r1, q1), v1)"
    by (metis prod.exhaust)
  have sy: "symbols_ok (hn_symbols h)" using Cons.prems(1) by simp
  have i: "response_inv r1 \<and> request_inv q1"
    by (rule modifier_contract.answers [OF symbols_ok_ask(2) [OF sy] Cons.prems(2) a])
  with Cons.IH [of q1 v1] Cons.prems(1,3) a show ?case by auto
qed simp

lemma find_SomeD: "find P xs = Some x \<Longrightarrow> x \<in> set xs \<and> P x"
  by (metis find_Some_iff nth_mem)

lemma process_modify_inv:
  assumes "handlers_ok (hd_handlers rh)" and "request_inv rq"
    and "process_modify rh rq w = ((Some r, q), v)"
  shows "response_inv r"
proof -
  let ?as = "modify_answers (loaded (hd_handlers rh)) rq w"
  have "((r, q), v) \<in> set ?as"
  proof (cases "find (\<lambda>((r, q), v). status_of r = OK) ?as")
    case None
    with assms(3) have "?as \<noteq> []" "last ?as = ((r, q), v)"
      by (auto simp: process_modify_def process_modify_answers Let_def split: if_splits prod.splits)
    then show ?thesis by (metis last_in_set)
  next
    case (Some a)
    with assms(3) have "a = ((r, q), v)"
      by (auto simp: process_modify_def process_modify_answers Let_def split: prod.splits)
    with find_SomeD [OF Some] show ?thesis by simp
  qed
  with modify_answers_inv assms(1,2) show ?thesis by (metis handlers_ok_def)
qed

lemma server_error_inv: "server_error tick w = (r, w') \<Longrightarrow> response_inv r"
  by (auto simp: server_error_def split: prod.splits)

lemma read_req_data_inv: "request_inv rq \<Longrightarrow> request_inv (snd (fst (read_req_data rq s)))"
  by (simp add: read_req_data_def split: prod.splits)

lemma read_req_continue_inv: "request_inv rq \<Longrightarrow> request_inv (snd (fst (read_req_continue_data rq s)))"
  by (simp add: read_req_continue_data_def Let_def split: prod.splits)

lemma preview_continue_inv: "request_inv rq \<Longrightarrow> request_inv (snd (fst (preview_continue rs rq s)))"
  by (auto simp: preview_continue_def read_req_continue_inv split: prod.splits)

lemma preview_outcome_inv:
  assumes "response_inv r" and "request_inv q"
    and "preview_outcome tick r q s v = ((rs, q'), s', v')"
  shows "request_inv q' \<and> (\<forall>r'. rs = Some r' \<longrightarrow> response_inv r')"
proof -
  obtain ok q1 s1 where c: "preview_continue r q s = ((ok, q1), s1)" by (metis prod.exhaust)
  have "request_inv q1" using preview_continue_inv [OF assms(2), of r s] c by simp
  with assms c server_error_inv show ?thesis
    by (auto simp: preview_outcome_def split: if_splits prod.splits)
qed

lemma process_preview_inv:
  assumes "handlers_ok (hd_handlers rh)" and "request_inv rq"
    and "process_preview tick rh rq s w = ((rs, q), s', v)"
  shows "request_inv q \<and> (\<forall>r. rs = Some r \<longrightarrow> response_inv r)"
proof -
  let ?as = "preview_answers (loaded (hd_handlers rh)) rq w"
  note pv = assms(3) [unfolded process_preview_def process_preview_answers Let_def]
  note inv = preview_answers_inv [of "loaded (hd_handlers rh)", OF _ assms(2)]
  show ?thesis
  proof (cases "find (\<lambda>((r, q), v). decisive r) ?as")
    case None
    show ?thesis
    proof (cases "?as = []")
      case True
      with None pv assms(2) show ?thesis by auto
    next
      case False
      obtain r1 q1 v1 where l: "last ?as = ((r1, q1), v1)" by (metis prod.exhaust)
      then have "((r1, q1), v1) \<in> set ?as" using False by (metis last_in_set)
      then have "response_inv r1 \<and> request_inv q1"
        using inv [of r1 q1 v1 w] assms(1) by (simp add: handlers_ok_def)
      with None False pv l show ?thesis by auto
    qed
  next
    case (Some a)
    obtain r1 q1 v1 where a: "a = ((r1, q1), v1)" by (metis prod.exhaust)
    have "((r1, q1), v1) \<in> set ?as" using find_SomeD [OF Some] a by simp
    then have i: "response_inv r1" "request_inv q1"
      using inv [of r1 q1 v1 w] assms(1) by (simp_all add: handlers_ok_def)
    have "preview_outcome tick r1 q1 s v1 = ((rs, q), s', v)" using pv Some a by simp
    then show ?thesis by (rule preview_outcome_inv [OF i])
  qed
qed

lemma process_modify_request_inv:
  assumes "handlers_ok (hd_handlers rh)" and "request_inv rq"
    and "process_modify rh rq w = ((rs, q), v)"
  shows "request_inv q"
proof -
  let ?as = "modify_answers (loaded (hd_handlers rh)) rq w"
  have mem: "request_inv q1" if "((r1, q1), v1) \<in> set ?as" for r1 q1 v1
    using modify_answers_inv [OF _ assms(2) that] assms(1) by (simp add: handlers_ok_def)
  note m = assms(3) [unfolded process_modify_def process_modify_answers Let_def]
  show ?thesis
  proof (cases "find (\<lambda>((r, q), v). status_of r = OK) ?as")
    case None
    show ?thesis
    proof (cases "?as = []")
      case True
      with None m assms(2) show ?thesis by simp
    next
      case False
      obtain r1 q1 v1 where l: "last ?as = ((r1, q1), v1)" by (metis prod.exhaust)
      then have "((r1, q1), v1) \<in> set ?as" using False by (metis last_in_set)
      with mem None False m l show ?thesis by auto
    qed
  next
    case (Some a)
    obtain r1 q1 v1 where a: "a = ((r1, q1), v1)" by (metis prod.exhaust)
    have "((r1, q1), v1) \<in> set ?as" using find_SomeD [OF Some] a by simp
    with mem Some m a show ?thesis by auto
  qed
qed

text \<open>The run of \<open>process\<close> after the request data, as one equation.\<close>

lemma process_steps:
  assumes "read_req_data (new_request hdr) s = ((b, rq), s1)"
    and "(if 0 \<le> preview_size rq then process_preview tick rh rq s1 w else ((None, rq), s1, w))
      = ((rs, q1), s2, w1)"
    and "(case rs of None \<Rightarrow> process_modify rh q1 w1 | Some r \<Rightarrow> ((Some r, q1), w1)) = ((rs', q2), w2)"
  shows "process tick rh hdr s w =
    (case rs' of Some r \<Rightarrow> ((r, q_header q2), s2, w2)
     | None \<Rightarrow> (case server_error tick w2 of (err, w3) \<Rightarrow> ((err, q_header q2), s2, w3)))"
proof -
  have "\<not> b \<longleftrightarrow> False" using assms(1) by (auto simp: read_req_data_def split: prod.splits)
  then show ?thesis by (simp only: process_def assms prod.case if_False)
qed

lemma process_inv:
  assumes "handlers_ok (hd_handlers rh)" and "header_ok hdr"
  shows "response_inv (fst (fst (process tick rh hdr s w)))"
    and "header_ok (snd (fst (process tick rh hdr s w)))"
proof -
  obtain b rq s1 where d: "read_req_data (new_request hdr) s = ((b, rq), s1)" by (metis prod.exhaust)
  have "request_inv (new_request hdr)" using assms(2) by (simp add: request_inv_def new_request_def)
  then have rq: "request_inv rq" using read_req_data_inv [of "new_request hdr" s] d by simp
  obtain rs q1 s2 w1 where p: "(if 0 \<le> preview_size rq then process_preview tick rh rq s1 w
      else ((None, rq), s1, w)) = ((rs, q1), s2, w1)" by (metis prod.exhaust)
  then have q1: "request_inv q1" and r: "rs = Some r \<Longrightarrow> response_inv r" for r
    using process_preview_inv [OF assms(1) rq, of tick s1 w] rq by (auto split: if_splits)
  obtain rs' q2 w2 where m: "(case rs of None \<Rightarrow> process_modify rh q1 w1
      | Some r \<Rightarrow> ((Some r, q1), w1)) = ((rs', q2), w2)" by (metis prod.exhaust)
  have r': "request_inv q2 \<and> (\<forall>r'. rs' = Some r' \<longrightarrow> response_inv r')"
  proof (cases rs)
    case None
    then have pm: "process_modify rh q1 w1 = ((rs', q2), w2)" using m by simp
    show ?thesis
      using process_modify_inv [OF assms(1) q1, of w1] process_modify_request_inv [OF assms(1) q1 pm] pm
      by blast
  next
    case (Some r0)
    then show ?thesis using m r [of r0] q1 by auto
  qed
  note eq = process_steps [OF d p m]
  show "response_inv (fst (fst (process tick rh hdr s w)))"
    unfolding eq using r' server_error_inv [of tick w2]
    by (cases rs'; cases "server_error tick w2") auto
  show "header_ok (snd (fst (process tick rh hdr s w)))"
    unfolding eq using r' by (cases rs'; cases "server_error tick w2") (auto simp: request_inv_def)
qed

section \<open>What is written before the response\<close>

text \<open>Without a preview nothing is written.\<close>

lemma process_no_preview:
  assumes "read_req_data (new_request hdr) s = ((True, rq), s1)" and "preview_size rq < 0"
  shows "fst (snd (process tick rh hdr s w)) = s1"
  using assms by (auto simp: process_def split: option.splits prod.splits)

text \<open>Input is consumed and output appended, with a preview too.\<close>

definition advanced :: "sock \<Rightarrow> sock \<Rightarrow> bool" where
  "advanced s s' \<longleftrightarrow> (\<exists>p. s_in s = p @ s_in s') \<and> (\<exists>o'. s_out s' = s_out s @ o')"

lemma advanced_trans: "advanced s s' \<Longrightarrow> advanced s' s'' \<Longrightarrow> advanced s s''"
  by (fastforce simp: advanced_def)

lemma advanced_consumed: "consumed s s' \<Longrightarrow> advanced s s'"
  by (auto simp: advanced_def consumed_def)

lemma advanced_emitted: "emitted s s' \<Longrightarrow> advanced s s'"
  by (auto simp: advanced_def emitted_def)

lemma advanced_refl [simp]: "advanced s s"
  by (simp add: advanced_def)

lemma preview_continue_advanced: "advanced s (snd (preview_continue rs rq s))"
proof -
  obtain ok s1 where r: "send_response rs s = (ok, s1)" by fastforce
  then have "advanced s s1" using sresp.emits [of s rs] advanced_emitted by simp
  then show ?thesis
    using r rqc.consumes [of s1 rq] advanced_trans advanced_consumed
    by (auto simp: preview_continue_def)
qed

lemma process_preview_advanced: "advanced s (fst (snd (process_preview_loop tick rs hs rq s w)))"
proof (induction tick rs hs rq s w rule: process_preview_loop.induct)
  case (2 tick rs h hs rq s w)
  show ?case
  proof (cases "hn_name h = []")
    case False
    obtain r q v where a: "ask_modifier md_preview (hn_symbols h) rq w = ((r, q), v)"
      by (metis prod.exhaust)
    have "advanced s (snd (preview_continue r q s))" by (rule preview_continue_advanced)
    with 2(2) [OF False a [symmetric] refl] a False show ?thesis
      by (auto split: prod.splits)
  qed (use 2(1) in simp)
qed simp

lemma process_advanced: "advanced s (fst (snd (process tick rh hdr s w)))"
proof -
  obtain b rq s1 where d: "read_req_data (new_request hdr) s = ((b, rq), s1)" by (metis prod.exhaust)
  have a1: "advanced s s1" using rqd.consumes [of s "new_request hdr"] d advanced_consumed by simp
  obtain rs q1 s2 w1 where p: "(if 0 \<le> preview_size rq then process_preview tick rh rq s1 w
      else ((None, rq), s1, w)) = ((rs, q1), s2, w1)" by (metis prod.exhaust)
  have "advanced s1 s2"
    using p process_preview_advanced [of s1 tick None "hd_handlers rh" rq w]
    by (auto simp: process_preview_def split: if_splits)
  then have a2: "advanced s s2" using a1 advanced_trans by blast
  obtain rs' q2 w2 where m: "(case rs of None \<Rightarrow> process_modify rh q1 w1
      | Some r \<Rightarrow> ((Some r, q1), w1)) = ((rs', q2), w2)" by (metis prod.exhaust)
  show ?thesis
    unfolding process_steps [OF d p m] using a2
    by (cases rs'; cases "server_error tick w2") auto
qed

end
