(* ===== verification/Worker.thy ===== *)
theory Worker
  imports RequestHandler
begin

text \<open>
  \<open>bitz::Worker\<close> (\<open>src/bitz/worker.cpp\<close>), the OPTIONS handler
  (\<open>src/bitz/options_request_handler.cpp\<close>), and the handler functions of \<open>src/bitz/util.cpp\<close>.
  Accepting a connection and setting its timeout are the socket library's: arguments.
\<close>

section \<open>The OPTIONS handler\<close>

text \<open>\<open>OptionsRequestHandler\<close> adds the vector \<open>_methods\<close>.\<close>

record 'w options_handler = "'w request_handler" +
  hd_methods :: "string list"

definition register_handler :: "string \<Rightarrow> 'w options_handler \<Rightarrow> 'w options_handler" where
  "register_handler mth h = h\<lparr>hd_methods := hd_methods h @ [mth]\<rparr>"

text \<open>\<open>_methods.at( 0 )\<close> on an empty vector raises in a function that must not: None.\<close>

definition options_process :: "'w tick \<Rightarrow> 'w options_handler \<Rightarrow> 'w \<Rightarrow> (response \<times> 'w) option" where
  "options_process tick h w =
     (case tick w of
        (ev, w') \<Rightarrow>
          case hd_methods h of
            [] \<Rightarrow> None
          | m # _ \<Rightarrow>
              let header = new_response_header (e_clock ev) OK;
                  header = attach ''Methods'' m header;
                  header = attach ''Options-TTL'' ''3600'' header;
                  header = attach ''Allow'' ''204'' header
              in Some (new_response_from (e_clock ev) (Some header), w'))"

section \<open>The table of handlers\<close>

text \<open>The map holds pointers to the base class; the virtual \<open>process\<close> picks by the object.\<close>

datatype 'w any_handler =
    Options_handler "'w options_handler"
  | Mod_handler "'w request_handler"

type_synonym 'w req_handlers = "(string, 'w any_handler) smap"

definition handler_process :: "'w tick \<Rightarrow> 'w any_handler \<Rightarrow> request_header \<Rightarrow> sock \<Rightarrow> 'w \<Rightarrow>
    ((response \<times> request_header) \<times> sock \<times> 'w) option" where
  "handler_process tick h hdr s w =
     (case h of
        Options_handler oh \<Rightarrow>
          map_option (\<lambda>(rs, w'). ((rs, hdr), s, w')) (options_process tick oh w)
      | Mod_handler rh \<Rightarrow> Some (process tick rh hdr s w))"

definition find_req_handler :: "'w req_handlers \<Rightarrow> string \<Rightarrow> 'w any_handler option" where
  "find_req_handler req_handlers req_method = smap_find req_method req_handlers"

text \<open>\<open>load_req_handlers\<close>; None when loading the modules of a handler goes wrong.\<close>

definition load_req_handlers :: "'w linker \<Rightarrow> 'w symbols_t \<Rightarrow> config_t \<Rightarrow> 'w req_handlers option" where
  "load_req_handlers linker junk c =
     (case new_request_handler linker junk c ''OPTIONS'' of
        None \<Rightarrow> None
      | Some op \<Rightarrow>
          case new_request_handler linker junk c ''REQMOD'' of
            None \<Rightarrow> None
          | Some reqmod \<Rightarrow>
              case new_request_handler linker junk c ''RESPMOD'' of
                None \<Rightarrow> None
              | Some respmod \<Rightarrow>
                  let options_handler = request_handler.extend op \<lparr>hd_methods = []\<rparr>;
                      options_handler = register_handler (hd_method reqmod) options_handler;
                      options_handler = register_handler (hd_method respmod) options_handler
                  in Some (smap_set ''RESPMOD'' (Mod_handler respmod)
                       (smap_set ''REQMOD'' (Mod_handler reqmod)
                         (smap_set ''OPTIONS'' (Options_handler options_handler) []))))"

text \<open>\<open>delete_req_handlers\<close>, and the destructor of the worker: the keys deleted, in order.\<close>

definition delete_req_handlers :: "'w req_handlers \<Rightarrow> string list" where
  "delete_req_handlers req_handlers = filter (\<lambda>k. k \<noteq> ''OPTIONS'') (map fst req_handlers)"

definition delete_worker :: "'w req_handlers \<Rightarrow> string list" where
  "delete_worker req_handlers = delete_req_handlers req_handlers @ [''OPTIONS'']"

section \<open>Serving a client\<close>

definition keep_alive :: "request_header \<Rightarrow> bool" where
  "keep_alive hdr \<longleftrightarrow> header_value ''Connection'' hdr = ''keep-alive''"

definition not_allowed :: "'w tick \<Rightarrow> 'w \<Rightarrow> response \<times> 'w" where
  "not_allowed tick w =
     (case tick w of
        (ev, w') \<Rightarrow>
          (new_response_from (e_clock ev) (Some (new_response_header (e_clock ev) NOT_ALLOWED)), w'))"

text \<open>The response to a request that was read: from its handler, or 405.\<close>

definition respond :: "'w tick \<Rightarrow> 'w req_handlers \<Rightarrow> request_header \<Rightarrow> sock \<Rightarrow> 'w \<Rightarrow>
    ((response \<times> request_header) \<times> sock \<times> 'w) option" where
  "respond tick hs hdr s w =
     (case find_req_handler hs (method_of hdr) of
        Some h \<Rightarrow> handler_process tick h hdr s w
      | None \<Rightarrow> (case not_allowed tick w of (rs, w') \<Rightarrow> Some ((rs, hdr), s, w')))"

definition set_connection :: "request_header \<Rightarrow> response \<Rightarrow> response" where
  "set_connection hdr rs =
     (if keep_alive hdr
      then rs\<lparr>r_header := attach ''Connection'' ''keep-alive'' (r_header rs)\<rparr> else rs)"

text \<open>
  \<open>serve_client\<close>: None is the death of the process. The counter is an \<open>unsigned int\<close>; the
  loop ends because it goes on only with a counter that is not zero.
\<close>

function serve_client :: "'w tick \<Rightarrow> 'w req_handlers \<Rightarrow> sock \<Rightarrow> u32 \<Rightarrow> 'w \<Rightarrow> (u32 \<times> sock \<times> 'w) option" where
  "serve_client tick hs s max_requests w =
     (case read_req_header s of
        (hdr, s1) \<Rightarrow>
          if s_timedout s1 then Some (max_requests - 1, s1, w)
          else case respond tick hs hdr s1 w of
            None \<Rightarrow> None
          | Some ((rs, hdr'), s2, w1) \<Rightarrow>
              case send_response (set_connection hdr' rs) s2 of
                (_, s3) \<Rightarrow>
                  if 0 < max_requests - 1 \<and> keep_alive hdr'
                  then serve_client tick hs s3 (max_requests - 1) w1
                  else Some (max_requests - 1, s3, w1))"
  by pat_completeness auto
termination
proof (relation "measure (\<lambda>(_, _, _, m, _). unat (m - 1))", goal_cases)
  case (2 tick hs s m w hdr s1 a rs hdr' b s2 w1 c d s3)
  then have "m - 1 \<noteq> 0" by auto
  then show ?case using unat_dec [of "m - 1"] by (simp add: unat_gt_0)
qed simp

declare serve_client.simps [simp del]

lemma serve_client_less:
  assumes "serve_client tick hs s m w = Some (m', s', w')" and "0 < m"
  shows "m' < m"
  using assms
proof (induction tick hs s m w rule: serve_client.induct)
  case (1 tick hs s m w)
  have dec: "m - 1 < m"
    using 1(3) unat_dec [of m] by (simp add: word_less_nat_alt unat_gt_0)
  obtain hdr s1 where r: "read_req_header s = (hdr, s1)" by fastforce
  note step0 = 1(2) [unfolded serve_client.simps [of tick hs s m w] r prod.case]
  show ?case
  proof (cases "s_timedout s1 \<or> respond tick hs hdr s1 w = None")
    case True
    with step0 dec show ?thesis by (auto split: if_splits)
  next
    case False
    then obtain rs hdr' s2 w1 where p: "respond tick hs hdr s1 w = Some ((rs, hdr'), s2, w1)" by auto
    obtain ok s3 where sd: "send_response (set_connection hdr' rs) s2 = (ok, s3)" by fastforce
    note step = step0 [unfolded p option.case prod.case sd]
    show ?thesis
    proof (cases "0 < m - 1 \<and> keep_alive hdr'")
      case True
      then have rec: "serve_client tick hs s3 (m - 1) w1 = Some (m', s', w')" using step False by simp
      have "m' < m - 1"
        using 1(1) [OF r [symmetric] _ p refl refl refl sd [symmetric] True rec] False True by simp
      then show ?thesis using dec by simp
    next
      case no: False
      then show ?thesis using step False dec by (simp split: if_splits)
    qed
  qed
qed

section \<open>The worker's loop\<close>

text \<open>
  \<open>Worker::run\<close>: the connections it closes, in order. A connection that could not be accepted,
  or whose timeout could not be set, costs one request.
\<close>

function run :: "'w tick \<Rightarrow> ('w \<Rightarrow> sock option \<times> 'w) \<Rightarrow> (u32 \<Rightarrow> sock \<Rightarrow> sock option) \<Rightarrow> 'w req_handlers \<Rightarrow>
    u32 \<Rightarrow> u32 \<Rightarrow> 'w \<Rightarrow> (sock list \<times> 'w) option" where
  "run tick accept timeout hs max_requests comm_timeout w =
     (if 0 < max_requests then
        case accept w of
          (client, w1) \<Rightarrow>
            case (case client of
                    None \<Rightarrow> None
                  | Some s \<Rightarrow> if 0 < comm_timeout then timeout comm_timeout s else Some s) of
              None \<Rightarrow> run tick accept timeout hs (max_requests - 1) comm_timeout w1
            | Some s \<Rightarrow>
                case serve_client tick hs s max_requests w1 of
                  None \<Rightarrow> None
                | Some (max_requests', s', w2) \<Rightarrow>
                    map_option (\<lambda>(closed, w'). (s' # closed, w'))
                      (run tick accept timeout hs max_requests' comm_timeout w2)
      else Some ([], w))"
  by pat_completeness auto
termination
proof (relation "measure (\<lambda>(_, _, _, _, m, _, _). unat m)", goal_cases)
  case (2 tick accept timeout hs m comm w client w1)
  then show ?case using unat_dec [of m] by (simp add: unat_gt_0)
next
  case (3 tick accept timeout hs m comm w client w1 s a m' b s' w2)
  then have "serve_client tick hs s m w1 = Some (m', s', w2)" by simp
  from serve_client_less [OF this] 3 show ?case by (simp add: word_less_nat_alt)
qed simp

declare run.simps [simp del]

text \<open>Every connection costs at least one request.\<close>

lemma run_connections:
  "run tick accept timeout hs m comm w = Some (closed, w') \<Longrightarrow> length closed \<le> unat m"
proof (induction tick accept timeout hs m comm w arbitrary: closed w' rule: run.induct)
  case (1 tick accept timeout hs m comm w)
  show ?case
  proof (cases "0 < m")
    case False
    with 1(3) show ?thesis by (subst (asm) run.simps) simp
  next
    case m: True
    obtain client w1 where a: "accept w = (client, w1)" by fastforce
    let ?c = "case client of None \<Rightarrow> None | Some s \<Rightarrow> if 0 < comm then timeout comm s else Some s"
    note step = 1(3) [unfolded run.simps [of tick accept timeout hs m comm w] if_P [OF m] a prod.case]
    have dec: "unat (m - 1) < unat m" using m unat_dec [of m] by (simp add: unat_gt_0)
    show ?thesis
    proof (cases ?c)
      case None
      with step have "run tick accept timeout hs (m - 1) comm w1 = Some (closed, w')" by simp
      from 1(1) [OF m a [symmetric] None this] dec show ?thesis by simp
    next
      case (Some s)
      with step obtain m1 s1 w2 where sc: "serve_client tick hs s m w1 = Some (m1, s1, w2)"
        by (auto split: option.splits)
      with step Some obtain cl where r: "run tick accept timeout hs m1 comm w2 = Some (cl, w')"
          and cl: "closed = s1 # cl" by auto
      have "length cl \<le> unat m1"
        by (rule 1(2) [OF m a [symmetric] Some sc refl refl r])
      moreover have "unat m1 < unat m"
        using serve_client_less [OF sc m] by (simp add: word_less_nat_alt)
      ultimately show ?thesis using cl by simp
    qed
  qed
qed

section \<open>One exchange\<close>

lemma serve_client_timeout:
  assumes "read_req_header s = (hdr, s1)" and "s_timedout s1"
  shows "serve_client tick hs s m w = Some (m - 1, s1, w)"
  using assms by (subst serve_client.simps) simp

lemma serve_client_step:
  assumes "read_req_header s = (hdr, s1)" and "\<not> s_timedout s1"
    and "respond tick hs hdr s1 w = Some ((rs, hdr'), s2, w1)"
    and "send_response (set_connection hdr' rs) s2 = (ok, s3)"
  shows "serve_client tick hs s m w =
    (if 0 < m - 1 \<and> keep_alive hdr' then serve_client tick hs s3 (m - 1) w1
     else Some (m - 1, s3, w1))"
  using assms by (subst serve_client.simps) simp

section \<open>The loaded table\<close>

definition table_ok :: "'w req_handlers \<Rightarrow> bool" where
  "table_ok hs \<longleftrightarrow>
     (\<forall>h\<in>snd ` set hs.
        case h of
          Options_handler oh \<Rightarrow> hd_methods oh \<noteq> []
        | Mod_handler rh \<Rightarrow> handlers_ok (hd_handlers rh))"

lemma find_req_handler_ok:
  assumes "table_ok hs" and "find_req_handler hs mth = Some h"
  shows "(case h of Options_handler oh \<Rightarrow> hd_methods oh \<noteq> []
    | Mod_handler rh \<Rightarrow> handlers_ok (hd_handlers rh))"
proof -
  have "(mth, h) \<in> set hs"
    using assms(2) by (auto simp: find_req_handler_def smap_find_map_of dest: map_of_SomeD)
  then have "h \<in> snd ` set hs" by force
  with assms(1) show ?thesis unfolding table_ok_def by blast
qed

text \<open>A request always gets a response, well-formed when the modules keep their contract.\<close>

lemma respond_inv:
  assumes "table_ok hs" and "header_ok hdr"
  shows "\<exists>rs hdr' s' w'. respond tick hs hdr s w = Some ((rs, hdr'), s', w') \<and>
    response_inv rs \<and> header_ok hdr'"
proof (cases "find_req_handler hs (method_of hdr)")
  case None
  then show ?thesis
    using assms(2)
    by (auto simp: respond_def not_allowed_def new_response_from_def response_inv_def
        new_response_header_ok split: prod.splits)
next
  case (Some h)
  note ok = find_req_handler_ok [OF assms(1) Some]
  show ?thesis
  proof (cases h)
    case (Options_handler oh)
    with ok obtain m ms where "hd_methods oh = m # ms" by (cases "hd_methods oh") auto
    with Some Options_handler assms(2) show ?thesis
      by (auto simp: respond_def handler_process_def options_process_def new_response_from_def
          response_inv_def new_response_header_ok attach_ok Let_def split: prod.splits)
  next
    case (Mod_handler rh)
    with ok have "handlers_ok (hd_handlers rh)" by simp
    note inv = process_inv [OF this assms(2), of tick s w]
    obtain rs hdr' s' w' where "process tick rh hdr s w = ((rs, hdr'), s', w')" by (metis prod.exhaust)
    with inv Some Mod_handler show ?thesis by (simp add: respond_def handler_process_def)
  qed
qed

lemma serve_client_total:
  assumes "table_ok hs"
  shows "serve_client tick hs s m w \<noteq> None"
  using assms
proof (induction tick hs s m w rule: serve_client.induct)
  case (1 tick hs s m w)
  obtain hdr s1 where r: "read_req_header s = (hdr, s1)" by fastforce
  have "header_ok hdr"
    using r new_request_header_ok by (auto simp: read_req_header_def split: prod.splits)
  then obtain rs hdr' s2 w1 where p: "respond tick hs hdr s1 w = Some ((rs, hdr'), s2, w1)"
    using respond_inv [OF 1(2)] by blast
  obtain ok s3 where sd: "send_response (set_connection hdr' rs) s2 = (ok, s3)" by fastforce
  show ?case
  proof (cases "s_timedout s1")
    case True
    then show ?thesis using serve_client_timeout [OF r True, of tick hs m w] by simp
  next
    case False
    have "serve_client tick hs s3 (m - 1) w1 \<noteq> None" if "0 < m - 1 \<and> keep_alive hdr'"
      using 1(1) [OF r [symmetric] False p refl refl refl sd [symmetric] that 1(2)] .
    then show ?thesis using serve_client_step [OF r False p sd] by simp
  qed
qed

lemma run_total:
  assumes "table_ok hs"
  shows "run tick accept timeout hs m comm w \<noteq> None"
  using assms
proof (induction tick accept timeout hs m comm w rule: run.induct)
  case (1 tick accept timeout hs m comm w)
  obtain client w1 where a: "accept w = (client, w1)" by fastforce
  let ?c = "case client of None \<Rightarrow> None | Some s \<Rightarrow> if 0 < comm then timeout comm s else Some s"
  show ?case
  proof (cases "0 < m")
    case False
    then show ?thesis by (subst run.simps) simp
  next
    case m: True
    show ?thesis
    proof (cases ?c)
      case None
      with 1(1) [OF m a [symmetric] None 1(3)] m a show ?thesis by (subst run.simps) simp
    next
      case (Some s)
      obtain m1 s1 w2 where sc: "serve_client tick hs s m w1 = Some (m1, s1, w2)"
        using serve_client_total [OF 1(3), of tick s m w1] by (metis not_None_eq prod.exhaust)
      with 1(2) [OF m a [symmetric] Some sc refl refl 1(3)] m a Some show ?thesis
        by (subst run.simps) simp
    qed
  qed
qed

text \<open>
  Loading with a configuration whose counts are right, from libraries that keep the contract,
  gives a table the server can run on.
\<close>

definition config_ok :: "config_t \<Rightarrow> bool" where
  "config_ok c \<longleftrightarrow>
     (\<forall>e\<in>set (c_req_handlers c). entry_ok e \<and> unat (rc_modules_count e) < 2 ^ 31)"

definition linker_ok :: "'w linker \<Rightarrow> bool" where
  "linker_ok linker \<longleftrightarrow>
     (\<forall>file lib create w. linker file = Some lib \<longrightarrow> lib_create lib = Some create \<longrightarrow>
        modifier_contract (md_preview (fst (create w))) \<and> modifier_contract (md_modify (fst (create w))))"

lemma load_handler_ok:
  assumes "linker_ok linker" and "hn_name (load_handler linker junk m) \<noteq> []"
  shows "symbols_ok (hn_symbols (load_handler linker junk m))"
proof -
  obtain ok sy where l: "load_modifier linker (mc_module m) junk = (ok, sy)" by fastforce
  then have ok using assms(2) by (auto simp: load_handler_def split: if_splits)
  then obtain lib c d where "linker (mc_module m) = Some lib" "lib_create lib = Some c"
      "sy = \<lparr>sy_modifier = Some lib, sy_create = c, sy_destroy = d\<rparr>"
    using load_modifier_ok [of linker "mc_module m" junk] l by auto
  with assms(1) l show ?thesis
    by (auto simp: load_handler_def symbols_ok_def linker_ok_def)
qed

lemma new_request_handler_ok:
  assumes "config_ok c" and "linker_ok linker"
  shows "\<exists>rh. new_request_handler linker junk c mth = Some rh \<and> hd_method rh = mth \<and>
    handlers_ok (hd_handlers rh)"
proof -
  obtain hs where hs: "load_modules linker junk mth (c_req_handlers c) = Some hs"
      "case find (\<lambda>e. rc_name e = mth) (c_req_handlers c) of
       None \<Rightarrow> hs = []
     | Some e \<Rightarrow> hs = map (load_handler linker junk) (case rc_modules e of None \<Rightarrow> [] | Some ms \<Rightarrow> ms)"
    using load_modules_some [of "c_req_handlers c" linker junk mth] assms(1)
    unfolding config_ok_def by blast
  have "h \<in> load_handler linker junk ` UNIV" if "h \<in> set hs" for h
    using hs(2) that by (auto split: option.splits)
  then have "handlers_ok hs"
    using load_handler_ok [OF assms(2)] by (fastforce simp: handlers_ok_def loaded_def)
  with hs(1) show ?thesis by (simp add: new_request_handler_def)
qed

lemma load_req_handlers_ok:
  assumes "config_ok c" and "linker_ok linker"
  shows "\<exists>hs. load_req_handlers linker junk c = Some hs \<and> table_ok hs \<and> smap_ok hs \<and>
    map fst hs = [''OPTIONS'', ''REQMOD'', ''RESPMOD''] \<and>
    (\<exists>oh. find_req_handler hs ''OPTIONS'' = Some (Options_handler oh) \<and>
      hd_methods oh = [''REQMOD'', ''RESPMOD''])"
proof -
  note ld = new_request_handler_ok [OF assms, of junk]
  obtain a where a: "new_request_handler linker junk c ''OPTIONS'' = Some a" using ld by blast
  obtain b where b: "new_request_handler linker junk c ''REQMOD'' = Some b" "hd_method b = ''REQMOD''"
      "handlers_ok (hd_handlers b)" using ld by blast
  obtain d where d: "new_request_handler linker junk c ''RESPMOD'' = Some d" "hd_method d = ''RESPMOD''"
      "handlers_ok (hd_handlers d)" using ld by blast
  let ?o = "request_handler.extend a \<lparr>hd_methods = [''REQMOD'', ''RESPMOD'']\<rparr>"
  have "load_req_handlers linker junk c = Some [(''OPTIONS'', Options_handler ?o),
      (''REQMOD'', Mod_handler b), (''RESPMOD'', Mod_handler d)]"
    using a b(1,2) d(1,2)
    by (simp add: load_req_handlers_def register_handler_def Let_def request_handler.defs)
  moreover have "hd_methods ?o = [''REQMOD'', ''RESPMOD'']" by (simp add: request_handler.defs)
  ultimately show ?thesis
    using b(3) d(3) by (auto simp: table_ok_def find_req_handler_def smap_ok_def)
qed

text \<open>Every handler of the table is deleted, and deleted once.\<close>

lemma delete_worker_keys:
  assumes "smap_ok hs" and "''OPTIONS'' \<in> fst ` set hs"
  shows "mset (delete_worker hs) = mset (map fst hs)"
proof -
  have "distinct (map fst hs)" using assms(1) by (simp add: smap_ok_def strict_sorted_iff)
  moreover have "''OPTIONS'' \<in> set (map fst hs)" using assms(2) by simp
  moreover have "filter (\<lambda>k. k \<noteq> ''OPTIONS'') ks = removeAll ''OPTIONS'' ks" for ks
    by (induction ks) auto
  ultimately show ?thesis
    by (simp add: delete_worker_def delete_req_handlers_def distinct_remove1_removeAll [symmetric])
qed

end
