(* ===== verification/IcapExchange.thy ===== *)
theory IcapExchange
  imports IcapProtocol
begin

text \<open>
  What the reading and writing routines of \<open>lib/icap/util.cpp\<close> do on a working connection: a
  reference encoding of requests and what reading one gives, and the bytes of a response.
\<close>

section \<open>Header lines\<close>

definition lines_text :: "string list \<Rightarrow> string" where
  "lines_text ls = concat (map (\<lambda>l. l @ CRLF) ls)"

lemma lines_text_simps [simp]:
  "lines_text [] = []" "lines_text (l # ls) = l @ CRLF @ lines_text ls"
  by (simp_all add: lines_text_def)

text \<open>A line that fits the buffer of \<open>read_req_header\<close>.\<close>

definition header_line :: "string \<Rightarrow> bool" where
  "header_line l \<longleftrightarrow> line_text l \<and> l \<noteq> [] \<and> CR \<notin> set l \<and> length l \<le> 1021"

lemma read_line_buf_yields:
  assumes "calm s" and "line_text l" and "length l \<le> 1020 + 1" and "s_in s = l @ CRLF @ rest"
  shows "yields (read_line_buf ICAP_BUFFER_SIZE True s) (int (length l + 2), l @ CRLF) rest"
  using assms read_line_buf_loop_text [of l s rest "[]" ICAP_BUFFER_SIZE True "CHR 0x00"]
    calm_good [of s]
  by (auto simp: read_line_buf_def yields_def ICAP_BUFFER_SIZE_def)

lemma read_header_lines_yields:
  assumes "calm s" and "\<forall>l\<in>set ls. header_line l" and "s_in s = lines_text ls @ CRLF @ rest"
  shows "yields (read_header_lines data s) (data @ lines_text ls) rest"
  using assms
proof (induction ls arbitrary: data s)
  case Nil
  then have "yields (read_line_buf ICAP_BUFFER_SIZE True s) (2, CRLF) rest"
    using read_line_buf_yields [of s "[]" rest] by simp
  then show ?case
    by (subst read_header_lines.simps) (auto simp: yields_def split: prod.splits)
next
  case (Cons l ls)
  let ?rest = "lines_text ls @ CRLF @ rest"
  have "yields (read_line_buf ICAP_BUFFER_SIZE True s) (int (length l + 2), l @ CRLF) ?rest"
    using Cons.prems by (intro read_line_buf_yields) (auto simp: header_line_def)
  then obtain s1 where s1: "read_line_buf ICAP_BUFFER_SIZE True s = ((int (length l + 2), l @ CRLF), s1)"
      "s_in s1 = ?rest" "calm s1" by (rule yieldsE)
  have "2 < int (length l + 2)" using Cons.prems(2) by (cases l) (auto simp: header_line_def)
  then have "read_header_lines data s = read_header_lines (data @ l @ CRLF) s1"
    using s1(1) by (subst read_header_lines.simps) simp
  moreover have "yields (read_header_lines (data @ l @ CRLF) s1) ((data @ l @ CRLF) @ lines_text ls) rest"
    using Cons.prems s1 by (intro Cons.IH) auto
  ultimately show ?case by simp
qed

lemma read_req_header_yields:
  assumes "calm s" and "\<forall>l\<in>set ls. header_line l" and "s_in s = lines_text ls @ CRLF @ rest"
  shows "yields (read_req_header s) (new_request_header (lines_text ls)) rest"
  using read_header_lines_yields [OF assms, of "[]"]
  by (auto simp: read_req_header_def yields_def split: prod.splits)

text \<open>A line that fills the buffer exactly: the end of that line is taken for the empty line.\<close>

lemma read_req_header_full_line:
  assumes "calm s" and "line_text l" and "length l = 1023" and "s_in s = l @ CRLF @ rest"
  shows "yields (read_req_header s) (new_request_header l) rest"
proof -
  let ?s1 = "s\<lparr>s_gcount := 1, s_in := CRLF @ rest\<rparr>"
  have "read_line_buf_loop ICAP_BUFFER_SIZE True [] (CHR 0x00) s = ([] @ l, ?s1)"
    using read_line_buf_loop_full [OF assms(2) calm_good [OF assms(1)] assms(4),
        of "[]" ICAP_BUFFER_SIZE True "CHR 0x00"] assms(3)
    by (cases l) (auto simp: ICAP_BUFFER_SIZE_def)
  then have "read_line_buf ICAP_BUFFER_SIZE True s = ((1023, l), ?s1)"
    using assms(3) by (simp add: read_line_buf_def)
  then have "read_header_lines [] s = read_header_lines l ?s1"
    by (subst read_header_lines.simps) simp
  moreover have "yields (read_header_lines l ?s1) (l @ lines_text []) rest"
    using assms(1) by (intro read_header_lines_yields) auto
  ultimately show ?thesis by (auto simp: read_req_header_def yields_def split: prod.splits)
qed

section \<open>Parsing a header\<close>

lemma attach_line_Nil [simp]: "attach_line [] h = h"
  by (simp add: attach_line_def split_pieces)

lemma pieces_lines:
  assumes "\<forall>l\<in>set ls. CR \<notin> set l \<and> LF \<notin> set l"
  shows "pieces (\<lambda>c. c \<in> set CRLF) (lines_text ls) = concat (map (\<lambda>l. [l, []]) ls) @ [[]]"
  using assms
proof (induction ls)
  case (Cons l ls)
  have "pieces (\<lambda>c. c \<in> set CRLF) (l @ CR # LF # lines_text ls) =
      l # pieces (\<lambda>c. c \<in> set CRLF) (LF # lines_text ls)"
    using Cons.prems by (intro pieces_append) auto
  with Cons show ?case by simp
qed simp

lemma fold_attach_lines: "fold attach_line (concat (map (\<lambda>l. [l, []]) ls) @ [[]]) h = fold attach_line ls h"
  by (induction ls arbitrary: h) simp_all

definition raw_request_header :: "request_t \<Rightarrow> string \<Rightarrow> request_header" where
  "raw_request_header rq raw = header.extend new_header \<lparr>rh_request = rq, rh_raw_data = raw\<rparr>"

lemma new_request_header_lines:
  assumes "\<forall>l\<in>set (rl # ls). header_line l"
  shows "new_request_header (lines_text (rl # ls)) =
    fold attach_line ls
      (raw_request_header
        (read_request_line rl \<lparr>rq_method = [], rq_uri = [], rq_protocol = ''ICAP/1.0''\<rparr>)
        (lines_text (rl # ls)))"
proof -
  have "\<forall>l\<in>set (rl # ls). CR \<notin> set l \<and> LF \<notin> set l"
    using assms by (auto simp: header_line_def line_text_def)
  then have p: "pieces (\<lambda>c. c \<in> set CRLF) (lines_text (rl # ls)) =
      rl # [] # concat (map (\<lambda>l. [l, []]) ls) @ [[]]"
    by (subst pieces_lines) auto
  show ?thesis
    unfolding new_request_header_pieces Let_def p raw_request_header_def
    using fold_attach_lines by simp
qed

text \<open>A word of the request line.\<close>

definition token :: "string \<Rightarrow> bool" where
  "token t \<longleftrightarrow> t \<noteq> [] \<and> (\<forall>c\<in>set t. positive c \<and> \<not> is_space c)"

lemma token_line: "token t \<Longrightarrow> line_text t \<and> CR \<notin> set t \<and> t \<noteq> [] \<and> CHR '' '' \<notin> set t"
  by (auto simp: token_def line_text_def is_space_def)

lemma read_request_line_tokens:
  assumes "token m" and "token u" and "token p"
  shows "read_request_line (m @ '' '' @ u @ '' '' @ p) rq =
    \<lparr>rq_method = m, rq_uri = u, rq_protocol = p\<rparr>"
proof -
  have "trimmed (m @ '' '' @ u @ '' '' @ p)"
    using assms by (auto simp: trimmed_def token_def)
  moreover have "split (m @ CHR '' '' # u @ CHR '' '' # p) '' '' = [m, u, p]"
    using assms token_line by (subst split_append; auto)+ (auto intro!: split_none)
  ultimately show ?thesis by (simp add: read_request_line_def trim_id)
qed

text \<open>A header field as a client writes it; neither part may hold a colon.\<close>

definition field_ok :: "string \<times> string \<Rightarrow> bool" where
  "field_ok kv \<longleftrightarrow> trimmed (fst kv) \<and> trimmed (snd kv) \<and>
     CHR '':'' \<notin> set (fst kv) \<and> CHR '':'' \<notin> set (snd kv)"

definition field_line :: "string \<times> string \<Rightarrow> string" where
  "field_line kv = fst kv @ '': '' @ snd kv"

lemma attach_field_line:
  assumes "field_ok kv"
  shows "attach_line (field_line kv) h = attach (fst kv) (snd kv) h"
proof -
  have "split (fst kv @ CHR '':'' # '' '' @ snd kv) '':'' = [fst kv, '' '' @ snd kv]"
    using assms by (subst split_append) (auto simp: field_ok_def intro!: split_none)
  moreover have "trim ('' '' @ snd kv) = snd kv" "trim (snd kv) = snd kv"
    using assms trim_pad [of "snd kv" "'' ''" "[]"] trim_id
    by (auto simp: field_ok_def is_space_def)
  ultimately show ?thesis
    by (simp add: attach_line_def field_line_def attach_def Let_def)
qed

lemma field_with_colon:
  assumes "CHR '':'' \<notin> set k" and "CHR '':'' \<in> set v"
  shows "attach_line (field_line (k, v)) h = h"
proof -
  obtain a b where v: "v = a @ CHR '':'' # b" "CHR '':'' \<notin> set a"
    using assms(2) by (meson split_list_first)
  have c: "\<forall>x\<in>set k. x \<notin> set '':''" "\<forall>x\<in>set ('' '' @ a). x \<notin> set '':''"
    using assms(1) v(2) by auto
  have "split (k @ CHR '':'' # ('' '' @ a) @ CHR '':'' # b) '':'' = k # ('' '' @ a) # split b '':''"
    using split_append [of k "'':''" "CHR '':''" "('' '' @ a) @ CHR '':'' # b", OF c(1)]
      split_append [of "'' '' @ a" "'':''" "CHR '':''" b, OF c(2)] by simp
  then have "split (field_line (k, v)) '':'' = k # ('' '' @ a) # split b '':''"
    by (simp add: field_line_def v(1))
  then have "length (split (field_line (k, v)) '':'') \<noteq> 2" by simp
  then show ?thesis by (simp add: attach_line_def Let_def)
qed

lemma fold_attach_fields:
  assumes "\<forall>kv\<in>set kvs. field_ok kv"
  shows "fold attach_line (map field_line kvs) h = fold (\<lambda>(k, v). attach k v) kvs h"
  using assms by (induction kvs arbitrary: h) (auto simp: attach_field_line split: prod.splits)

lemma header_value_attach_fields:
  assumes "\<forall>kv\<in>set kvs. field_ok kv" and "k \<noteq> ''Encapsulated''"
  shows "header_value k (fold (\<lambda>(k, v). attach k v) kvs h) =
    (case map_of (rev kvs) k of Some v \<Rightarrow> v | None \<Rightarrow> header_value k h)"
  using assms
proof (induction kvs rule: rev_induct)
  case (snoc kv kvs)
  obtain a v where kv: "kv = (a, v)" by (cases kv)
  have t: "trim a = a" "trim v = v" using snoc.prems kv by (auto simp: field_ok_def trim_id)
  show ?case
  proof (cases "a = ''Encapsulated''")
    case True
    then have "header_value k (attach a v (fold (\<lambda>(k, v). attach k v) kvs h)) =
        header_value k (fold (\<lambda>(k, v). attach k v) kvs h)"
      using t by (simp add: attach_def)
    with snoc True kv show ?thesis by simp
  next
    case False
    with snoc kv t show ?thesis by (simp add: header_value_attach)
  qed
qed simp

lemma fold_attach_request [simp]:
  "rh_request (fold (\<lambda>(k, v). attach k v) kvs h) = rh_request h"
  "rh_raw_data (fold (\<lambda>(k, v). attach k v) kvs h) = rh_raw_data h"
  by (induction kvs arbitrary: h) auto

text \<open>The Encapsulated offsets come from the last Encapsulated fields; others leave them.\<close>

lemma fold_attach_encapsulated:
  assumes "\<forall>kv\<in>set kvs. field_ok kv \<and> fst kv \<noteq> ''Encapsulated''"
  shows "h_encapsulated (fold (\<lambda>(k, v). attach k v) kvs h) = h_encapsulated h"
  using assms
proof (induction kvs arbitrary: h)
  case (Cons kv kvs)
  obtain a v where kv: "kv = (a, v)" by (cases kv)
  then have "trim a = a" "a \<noteq> ''Encapsulated''" using Cons.prems by (auto simp: field_ok_def trim_id)
  with Cons kv show ?case by (simp add: attach_encapsulated_same)
qed simp

lemma attach_entities_field:
  assumes "ps \<noteq> []" and "entities_ok ps" and "enc_ok (h_encapsulated h)"
  shows "attach ''Encapsulated'' (entities_text ps) h =
    h\<lparr>h_encapsulated := fold (\<lambda>(k, v). smap_set k v) ps (h_encapsulated h)\<rparr>"
proof -
  have "trim ''Encapsulated'' = ''Encapsulated''"
    by (rule trim_id) (simp add: trimmed_def is_space_def)
  then show ?thesis
    using attach_entities_text [OF assms]
    by (simp add: attach_def attach_encapsulated_def trim_entities_text [OF assms(2)])
qed

text \<open>
  A request as a client writes it: the request line, fields, and the Encapsulated field last,
  which a request that encapsulates nothing may leave out.
\<close>

definition request_lines :: "request_t \<Rightarrow> (string \<times> string) list \<Rightarrow>
    encapsulated_header_data_t list \<Rightarrow> string list" where
  "request_lines rq kvs ps =
     (rq_method rq @ '' '' @ rq_uri rq @ '' '' @ rq_protocol rq) #
       map field_line kvs @ (if ps = [] then [] else [field_line (''Encapsulated'', entities_text ps)])"

definition request_ok :: "request_t \<Rightarrow> (string \<times> string) list \<Rightarrow>
    encapsulated_header_data_t list \<Rightarrow> bool" where
  "request_ok rq kvs ps \<longleftrightarrow>
     token (rq_method rq) \<and> token (rq_uri rq) \<and> token (rq_protocol rq) \<and>
     (\<forall>kv\<in>set kvs. field_ok kv \<and> fst kv \<noteq> ''Encapsulated'') \<and> entities_ok ps \<and>
     (\<forall>l\<in>set (request_lines rq kvs ps). header_line l)"

lemma field_ok_entities: "entities_ok ps \<Longrightarrow> CHR '':'' \<notin> set (entities_text ps)"
proof -
  assume ok: "entities_ok ps"
  have colon: "CHR '':'' \<notin> set (entity_text p)" if "p \<in> set ps" for p
  proof -
    have p: "fst p \<in> set entities" "0 \<le> snd p"
      using ok that by (cases p, auto simp: entities_ok_def)+
    then obtain n where n: "snd p = int n" using nonneg_int_cases by blast
    have "\<forall>c\<in>set (itoa (int n)). digit_val 16 c \<noteq> None"
      using printed_digits(2) [of 10 n] by (simp add: itoa_def)
    moreover have "digit_val 16 (CHR '':'') = None" by code_simp
    ultimately have "CHR '':'' \<notin> set (itoa (snd p))" using n by metis
    with p(1) show ?thesis by (auto simp: entity_text_def entities_def)
  qed
  then show ?thesis by (cases ps) (auto simp: entities_text_def)
qed

lemma attach_entities_line:
  assumes "entities_ok ps"
  shows "attach_line (field_line (''Encapsulated'', entities_text ps)) h = attach ''Encapsulated'' (entities_text ps) h"
proof -
  have "split (''Encapsulated'' @ CHR '':'' # '' '' @ entities_text ps) '':'' =
      [''Encapsulated'', '' '' @ entities_text ps]"
    using field_ok_entities [OF assms] by (subst split_append) (auto intro!: split_none)
  moreover have "trim ('' '' @ entities_text ps) = trim (entities_text ps)"
    using trim_pad [of "entities_text ps" "'' ''" "[]"] trimmed_trim [of "entities_text ps"]
      trim_entities_text [OF assms] by (simp add: is_space_def)
  ultimately show ?thesis by (simp add: attach_line_def field_line_def attach_def)
qed

lemma parse_request:
  assumes "request_ok rq kvs ps"
  defines "h \<equiv> new_request_header (lines_text (request_lines rq kvs ps))"
  shows "rh_request h = rq"
    and "k \<noteq> ''Encapsulated'' \<Longrightarrow>
      header_value k h = (case map_of (rev kvs) k of Some v \<Rightarrow> v | None \<Rightarrow> [])"
    and "h_encapsulated h = fold (\<lambda>(k, v). smap_set k v) ps init_encapsulated"
proof -
  let ?raw = "lines_text (request_lines rq kvs ps)"
  let ?h = "raw_request_header rq ?raw"
  let ?hk = "fold (\<lambda>(k, v). attach k v) kvs ?h"
  note ok = assms(1) [unfolded request_ok_def]
  have rl: "read_request_line (rq_method rq @ '' '' @ rq_uri rq @ '' '' @ rq_protocol rq) r = rq" for r
    using read_request_line_tokens ok by simp
  have h: "h = fold attach_line (map field_line kvs @
      (if ps = [] then [] else [field_line (''Encapsulated'', entities_text ps)])) ?h"
    using new_request_header_lines [OF ok [THEN conjunct2, THEN conjunct2, THEN conjunct2, THEN conjunct2,
      THEN conjunct2, unfolded request_lines_def]]
    unfolding h_def request_lines_def rl by simp
  have enc: "h_encapsulated ?hk = init_encapsulated"
    using ok by (simp add: fold_attach_encapsulated raw_request_header_def header.defs new_header_def)
  have h': "h = ?hk\<lparr>h_encapsulated := fold (\<lambda>(k, v). smap_set k v) ps init_encapsulated\<rparr>"
  proof (cases "ps = []")
    case True
    have "?hk = ?hk\<lparr>h_encapsulated := h_encapsulated ?hk\<rparr>" by simp
    then show ?thesis using h ok enc True by (simp add: fold_attach_fields)
  next
    case False
    then have "h = attach ''Encapsulated'' (entities_text ps) ?hk"
      using h ok by (simp add: attach_entities_line fold_attach_fields)
    then show ?thesis using attach_entities_field [of ps ?hk] ok enc_ok_init enc False by simp
  qed
  show "h_encapsulated h = fold (\<lambda>(k, v). smap_set k v) ps init_encapsulated" using h' by simp
  have "rh_request ?hk = rq" by (simp add: raw_request_header_def header.defs)
  then show "rh_request h = rq" using h' by simp
  have "header_value k ?h = []" by (simp add: header_value_def raw_request_header_def header.defs new_header_def)
  moreover have "header_value k h = header_value k ?hk" using h' by (simp add: header_value_def)
  ultimately show "header_value k h = (case map_of (rev kvs) k of Some v \<Rightarrow> v | None \<Rightarrow> [])"
    if "k \<noteq> ''Encapsulated''"
    using header_value_attach_fields [of kvs k ?h] ok that by (cases "map_of (rev kvs) k") auto
qed

section \<open>Reading a payload\<close>

lemma read_parts_skip:
  assumes "\<forall>p\<in>set ns. snd p < 0" and "ps \<noteq> []"
  shows "read_parts (ns @ ps) payload s = read_parts ps payload s"
  using assms
proof (induction ns)
  case (Cons n ns)
  obtain e v where n: "n = (e, v)" by (cases n)
  obtain e2 v2 r where "ns @ ps = (e2, v2) # r"
    using Cons.prems(2) by (cases "ns @ ps") auto
  with Cons n show ?case by simp
qed simp

text \<open>The payload with one of its parts set.\<close>

definition put_part :: "string \<Rightarrow> string \<Rightarrow> payload_t \<Rightarrow> payload_t" where
  "put_part entity d payload =
     (if entity = ''req-hdr'' then payload\<lparr>req_header := d\<rparr>
      else if entity = ''req-body'' then payload\<lparr>req_body := d\<rparr>
      else if entity = ''res-hdr'' then payload\<lparr>res_header := d\<rparr>
      else if entity = ''res-body'' then payload\<lparr>res_body := d\<rparr> else payload)"

lemma read_part_yields:
  assumes "calm s" and "s_in s = d @ rest" and "entity \<in> {''req-hdr'', ''req-body'', ''res-hdr'', ''res-body''}"
  shows "yields (read_part entity (int (length d)) payload s) (put_part entity d payload) rest"
proof -
  have "yields (read_data (int (length d)) s) d rest"
    using assms(1,2) by (intro read_data_calm) auto
  then obtain s1 where "read_data (int (length d)) s = (d, s1)" "s_in s1 = rest" "calm s1"
    by (rule yieldsE)
  with assms(3) show ?thesis by (auto simp: read_part_def put_part_def yields_def)
qed

lemma read_parts_section:
  assumes "calm s" and "s_in s = d @ rest" and "d \<noteq> []" and "0 \<le> off"
    and "off2 = off + int (length d)"
    and "entity \<in> {''req-hdr'', ''req-body'', ''res-hdr'', ''res-body''}"
  obtains s1 where "read_parts ((entity, off) # (e2, off2) # ps) payload s =
      read_parts ((e2, off2) # ps) (put_part entity d payload) s1"
    and "s_in s1 = rest" and "calm s1"
proof -
  have "yields (read_part entity (int (length d)) payload s) (put_part entity d payload) rest"
    using assms by (intro read_part_yields) auto
  then obtain s1 where "read_part entity (int (length d)) payload s = (put_part entity d payload, s1)"
      "s_in s1 = rest" "calm s1" by (rule yieldsE)
  with assms(3-5) that show thesis by simp
qed

text \<open>A chunked body as a client writes it.\<close>

definition body_text :: "wire_chunk list \<Rightarrow> string \<Rightarrow> string \<Rightarrow> string" where
  "body_text cs hx ext = concat (map chunk_text cs) @ hx @ ext @ CRLF @ CRLF"

definition body_ok :: "wire_chunk list \<Rightarrow> string \<Rightarrow> string \<Rightarrow> bool" where
  "body_ok cs hx ext \<longleftrightarrow> (\<forall>c\<in>set cs. chunk_ok c) \<and> size_ok hx 0 \<and> ext_ok ext"

lemma read_body_yields:
  assumes "calm s" and "body_ok cs hx ext" and "s_in s = body_text cs hx ext @ rest"
  shows "yields (read_body ''req-body'' payload s)
      (payload\<lparr>req_body := req_body payload @ chunk_data cs, ieof := chunk_extension ext = ''ieof''\<rparr>) rest"
    and "yields (read_body ''res-body'' payload s)
      (payload\<lparr>res_body := res_body payload @ chunk_data cs, ieof := chunk_extension ext = ''ieof''\<rparr>) rest"
proof -
  have "yields (read_chunked_payload p s) (chunk_extension ext = ''ieof'', p @ chunk_data cs) rest" for p
    using assms by (intro read_chunked_payload_yields [of s cs hx ext rest p])
      (auto simp: body_ok_def body_text_def)
  then have r: "\<exists>s'. read_chunked_payload p s = ((chunk_extension ext = ''ieof'', p @ chunk_data cs), s') \<and>
      s_in s' = rest \<and> calm s'" for p
    by (metis yieldsE)
  show "yields (read_body ''req-body'' payload s)
      (payload\<lparr>req_body := req_body payload @ chunk_data cs, ieof := chunk_extension ext = ''ieof''\<rparr>) rest"
    and "yields (read_body ''res-body'' payload s)
      (payload\<lparr>res_body := res_body payload @ chunk_data cs, ieof := chunk_extension ext = ''ieof''\<rparr>) rest"
    using r [of "req_body payload"] r [of "res_body payload"]
    by (auto simp: read_body_def yields_def)
qed

text \<open>The sorted entities of the two kinds of request with a body, and of one without.\<close>

lemma init_encapsulated_sorted:
  "init_encapsulated = [(''null-body'', - 1), (''opt-body'', - 1), (''req-body'', - 1),
     (''req-hdr'', - 1), (''res-body'', - 1), (''res-hdr'', - 1)]"
  by code_simp

lemma sort_entities:
  fixes h :: "'a header_scheme"
  assumes "0 < a" and "a < b"
  shows "h_encapsulated h = smap_set ''req-body'' a (smap_set ''req-hdr'' 0 init_encapsulated) \<Longrightarrow>
      \<exists>ns. sort_encapsulated_header h = ns @ [(''req-hdr'', 0), (''req-body'', a)] \<and> (\<forall>p\<in>set ns. snd p < 0)"
    and "h_encapsulated h = smap_set ''null-body'' a (smap_set ''req-hdr'' 0 init_encapsulated) \<Longrightarrow>
      \<exists>ns. sort_encapsulated_header h = ns @ [(''req-hdr'', 0), (''null-body'', a)] \<and> (\<forall>p\<in>set ns. snd p < 0)"
    and "h_encapsulated h = smap_set ''res-body'' b (smap_set ''res-hdr'' a (smap_set ''req-hdr'' 0 init_encapsulated)) \<Longrightarrow>
      \<exists>ns. sort_encapsulated_header h = ns @ [(''req-hdr'', 0), (''res-hdr'', a), (''res-body'', b)] \<and>
        (\<forall>p\<in>set ns. snd p < 0)"
  using assms
  by (simp_all add: init_encapsulated_sorted sort_encapsulated_header_def encapsulated_header_compare_def)

text \<open>A REQMOD request with a body: the header section of the request, then its chunked body.\<close>

lemma read_reqmod:
  assumes "calm s" and "body_ok cs hx ext" and "hdr \<noteq> []"
    and "s_in s = hdr @ body_text cs hx ext @ rest"
    and "h_encapsulated (q_header rq) =
      fold (\<lambda>(k, v). smap_set k v) [(''req-hdr'', 0), (''req-body'', int (length hdr))] init_encapsulated"
  defines "payload \<equiv> \<lparr>req_header = hdr, req_body = chunk_data cs, res_header = [], res_body = [],
      ieof = (chunk_extension ext = ''ieof'')\<rparr>"
  shows "yields (read_req_data rq s) (True, set_request_payload payload rq) rest"
proof -
  obtain ns where srt: "sort_encapsulated_header (q_header rq) =
      ns @ [(''req-hdr'', 0), (''req-body'', int (length hdr))]" "\<forall>p\<in>set ns. snd p < 0"
    using sort_entities(1) [of "int (length hdr)" "int (length hdr) + 1" "q_header rq"] assms(3,5) by auto
  obtain s1 where s1: "read_parts [(''req-hdr'', 0), (''req-body'', int (length hdr))] empty_payload s =
      read_parts [(''req-body'', int (length hdr))] (put_part ''req-hdr'' hdr empty_payload) s1"
      "s_in s1 = body_text cs hx ext @ rest" "calm s1"
    using read_parts_section [OF assms(1,4,3), of 0 "int (length hdr)" "''req-hdr''" "''req-body''" "[]"
        empty_payload] by (auto simp del: read_parts.simps(3))
  have "yields (read_parts (sort_encapsulated_header (q_header rq)) empty_payload s) payload rest"
    unfolding srt(1)
    using read_parts_skip [OF srt(2), of "[(''req-hdr'', 0), (''req-body'', int (length hdr))]"] s1(1)
      read_body_yields(1) [OF s1(3) assms(2) s1(2), of "put_part ''req-hdr'' hdr empty_payload"]
    by (simp add: put_part_def empty_payload_def payload_def del: read_parts.simps(3))
  then show ?thesis by (auto simp: read_req_data_def yields_def split: prod.splits)
qed

text \<open>A REQMOD request without a body.\<close>

lemma read_bodyless:
  assumes "calm s" and "hdr \<noteq> []" and "s_in s = hdr @ rest"
    and "h_encapsulated (q_header rq) =
      fold (\<lambda>(k, v). smap_set k v) [(''req-hdr'', 0), (''null-body'', int (length hdr))] init_encapsulated"
  defines "payload \<equiv> \<lparr>req_header = hdr, req_body = [], res_header = [], res_body = [], ieof = False\<rparr>"
  shows "yields (read_req_data rq s) (True, set_request_payload payload rq) rest"
proof -
  obtain ns where srt: "sort_encapsulated_header (q_header rq) =
      ns @ [(''req-hdr'', 0), (''null-body'', int (length hdr))]" "\<forall>p\<in>set ns. snd p < 0"
    using sort_entities(2) [of "int (length hdr)" "int (length hdr) + 1" "q_header rq"] assms(2,4) by auto
  obtain s1 where s1: "read_parts [(''req-hdr'', 0), (''null-body'', int (length hdr))] empty_payload s =
      read_parts [(''null-body'', int (length hdr))] (put_part ''req-hdr'' hdr empty_payload) s1"
      "s_in s1 = rest" "calm s1"
    using read_parts_section [OF assms(1,3,2), of 0 "int (length hdr)" "''req-hdr''" "''null-body''" "[]"
        empty_payload] by (auto simp del: read_parts.simps(3))
  have "yields (read_parts (sort_encapsulated_header (q_header rq)) empty_payload s) payload rest"
    unfolding srt(1)
    using read_parts_skip [OF srt(2), of "[(''req-hdr'', 0), (''null-body'', int (length hdr))]"] s1
    by (simp add: put_part_def empty_payload_def payload_def read_body_def yields_def del: read_parts.simps(3))
  then show ?thesis by (auto simp: read_req_data_def yields_def split: prod.splits)
qed

text \<open>A RESPMOD request with a body: both header sections, then the chunked body.\<close>

lemma read_respmod:
  assumes "calm s" and "body_ok cs hx ext" and "hdr \<noteq> []" and "rhdr \<noteq> []"
    and "s_in s = hdr @ rhdr @ body_text cs hx ext @ rest"
    and "h_encapsulated (q_header rq) =
      fold (\<lambda>(k, v). smap_set k v) [(''req-hdr'', 0), (''res-hdr'', int (length hdr)),
        (''res-body'', int (length (hdr @ rhdr)))] init_encapsulated"
  defines "payload \<equiv> \<lparr>req_header = hdr, req_body = [], res_header = rhdr, res_body = chunk_data cs,
      ieof = (chunk_extension ext = ''ieof'')\<rparr>"
  shows "yields (read_req_data rq s) (True, set_request_payload payload rq) rest"
proof -
  let ?a = "int (length hdr)" and ?b = "int (length (hdr @ rhdr))"
  obtain ns where srt: "sort_encapsulated_header (q_header rq) =
      ns @ [(''req-hdr'', 0), (''res-hdr'', ?a), (''res-body'', ?b)]" "\<forall>p\<in>set ns. snd p < 0"
    using sort_entities(3) [of ?a ?b "q_header rq"] assms(3,4,6) by auto
  obtain s1 where s1: "read_parts [(''req-hdr'', 0), (''res-hdr'', ?a), (''res-body'', ?b)] empty_payload s =
      read_parts [(''res-hdr'', ?a), (''res-body'', ?b)] (put_part ''req-hdr'' hdr empty_payload) s1"
      "s_in s1 = rhdr @ body_text cs hx ext @ rest" "calm s1"
    using read_parts_section [OF assms(1,5,3), of 0 ?a "''req-hdr''" "''res-hdr''" "[(''res-body'', ?b)]"
        empty_payload] by (auto simp del: read_parts.simps(3))
  let ?p = "put_part ''res-hdr'' rhdr (put_part ''req-hdr'' hdr empty_payload)"
  obtain s2 where s2: "read_parts [(''res-hdr'', ?a), (''res-body'', ?b)] (put_part ''req-hdr'' hdr empty_payload) s1 =
      read_parts [(''res-body'', ?b)] ?p s2"
      "s_in s2 = body_text cs hx ext @ rest" "calm s2"
    using read_parts_section [OF s1(3,2) assms(4), of ?a ?b "''res-hdr''" "''res-body''" "[]"
        "put_part ''req-hdr'' hdr empty_payload"] by (auto simp del: read_parts.simps(3))
  have "yields (read_parts (sort_encapsulated_header (q_header rq)) empty_payload s) payload rest"
    unfolding srt(1)
    using read_parts_skip [OF srt(2), of "[(''req-hdr'', 0), (''res-hdr'', ?a), (''res-body'', ?b)]"]
      s1(1) s2(1) read_body_yields(2) [OF s2(3) assms(2) s2(2), of ?p]
    by (simp add: put_part_def empty_payload_def payload_def del: read_parts.simps(3))
  then show ?thesis by (auto simp: read_req_data_def yields_def split: prod.splits)
qed

section \<open>Continuing after a preview\<close>

text \<open>
  The request payload is put into the header by \<open>update_encapsulated\<close> before the rest of the
  body is asked for, so the entity read next is the last one of the updated offsets.
\<close>

lemma last_entity_reqmod:
  assumes "h_encapsulated h =
      fold (\<lambda>(k, v). smap_set k v) [(''req-hdr'', 0), (''req-body'', int (length hdr))] init_encapsulated"
    and "hdr \<noteq> []" and "req_header p = hdr" and "res_header p = []" and "res_body p = []"
    and "length hdr + length (req_body p) < 2 ^ 31"
  shows "fst (last (sort_encapsulated_header (update_encapsulated p h))) = ''req-body''"
    and "sort_encapsulated_header (update_encapsulated p h) \<noteq> []"
  using assms update_encapsulated_nat [of p h]
  by (cases "req_body p = []"; simp add: Let_def init_encapsulated_sorted
      sort_encapsulated_header_def encapsulated_header_compare_def)+

lemma last_entity_respmod:
  assumes "h_encapsulated h =
      fold (\<lambda>(k, v). smap_set k v) [(''req-hdr'', 0), (''res-hdr'', int (length hdr)),
        (''res-body'', int (length (hdr @ rhdr)))] init_encapsulated"
    and "hdr \<noteq> []" and "rhdr \<noteq> []" and "req_header p = hdr" and "res_header p = rhdr" and "req_body p = []"
    and "length hdr + length rhdr + length (res_body p) < 2 ^ 31"
  shows "fst (last (sort_encapsulated_header (update_encapsulated p h))) = ''res-body''"
    and "sort_encapsulated_header (update_encapsulated p h) \<noteq> []"
  using assms update_encapsulated_nat [of p h]
  by (cases "res_body p = []"; simp add: Let_def init_encapsulated_sorted
      sort_encapsulated_header_def encapsulated_header_compare_def)+

lemma continue_reqmod:
  assumes "h_encapsulated (q_header rq) =
      fold (\<lambda>(k, v). smap_set k v) [(''req-hdr'', 0), (''req-body'', int (length hdr))] init_encapsulated"
    and "hdr \<noteq> []" and "req_header p = hdr" and "res_header p = []" and "res_body p = []"
    and "length hdr + length (req_body p) < 2 ^ 31"
    and "calm s" and "body_ok cs hx ext" and "s_in s = body_text cs hx ext @ rest"
  shows "yields (read_req_continue_data (set_request_payload p rq) s)
    (True, set_request_payload
       (p\<lparr>req_body := req_body p @ chunk_data cs, ieof := chunk_extension ext = ''ieof''\<rparr>)
       (set_request_payload p rq)) rest"
proof -
  note le = last_entity_reqmod [OF assms(1-6)]
  obtain s' where "read_body ''req-body'' p s =
      (p\<lparr>req_body := req_body p @ chunk_data cs, ieof := chunk_extension ext = ''ieof''\<rparr>, s')"
      "s_in s' = rest" "calm s'"
    using read_body_yields(1) [OF assms(7-9), of p] by (rule yieldsE)
  then show ?thesis
    using le by (simp add: read_req_continue_data_def set_request_payload_def yields_def Let_def)
qed

lemma continue_respmod:
  assumes "h_encapsulated (q_header rq) =
      fold (\<lambda>(k, v). smap_set k v) [(''req-hdr'', 0), (''res-hdr'', int (length hdr)),
        (''res-body'', int (length (hdr @ rhdr)))] init_encapsulated"
    and "hdr \<noteq> []" and "rhdr \<noteq> []" and "req_header p = hdr" and "res_header p = rhdr" and "req_body p = []"
    and "length hdr + length rhdr + length (res_body p) < 2 ^ 31"
    and "calm s" and "body_ok cs hx ext" and "s_in s = body_text cs hx ext @ rest"
  shows "yields (read_req_continue_data (set_request_payload p rq) s)
    (True, set_request_payload
       (p\<lparr>res_body := res_body p @ chunk_data cs, ieof := chunk_extension ext = ''ieof''\<rparr>)
       (set_request_payload p rq)) rest"
proof -
  note le = last_entity_respmod [OF assms(1-7)]
  obtain s' where "read_body ''res-body'' p s =
      (p\<lparr>res_body := res_body p @ chunk_data cs, ieof := chunk_extension ext = ''ieof''\<rparr>, s')"
      "s_in s' = rest" "calm s'"
    using read_body_yields(2) [OF assms(8-10), of p] by (rule yieldsE)
  then show ?thesis
    using le by (simp add: read_req_continue_data_def set_request_payload_def yields_def Let_def)
qed

text \<open>
  A request that carries a body and no header section: when its preview holds a byte, its own update
  makes a null-body, and the rest of the body is never read.
\<close>

lemma continue_body_only:
  assumes "h_encapsulated (q_header rq) = smap_set ''req-body'' 0 init_encapsulated"
    and "p = empty_payload\<lparr>req_body := d\<rparr>" and "length d < 2 ^ 31"
  shows "read_req_continue_data (set_request_payload p rq) s =
    (if d \<noteq> [] then ((True, set_request_payload p (set_request_payload p rq)), s)
     else case read_body ''req-body'' p s of
       (payload, s') \<Rightarrow> ((True, set_request_payload payload (set_request_payload p rq)), s'))"
proof -
  have "fst (last (sort_encapsulated_header (update_encapsulated p (q_header rq)))) =
      (if d = [] then ''req-body'' else ''null-body'')"
    and "sort_encapsulated_header (update_encapsulated p (q_header rq)) \<noteq> []"
    using assms update_encapsulated_nat [of p "q_header rq"]
    by (simp_all add: Let_def init_encapsulated_sorted empty_payload_def
        sort_encapsulated_header_def encapsulated_header_compare_def)
  then show ?thesis
    by (simp add: read_req_continue_data_def set_request_payload_def read_body_def Let_def)
qed

section \<open>The bytes of a response\<close>

definition sent_body :: "string \<Rightarrow> string" where
  "sent_body d =
     (if d = [] then [] else sent_chunks (chunks_sent (length d)) d @ CRLF @ ''0'' @ CRLF @ CRLF)"

definition payload_text :: "payload_t \<Rightarrow> string" where
  "payload_text p = req_header p @ sent_body (req_body p) @ res_header p @ sent_body (res_body p)"

definition response_lines :: "response_header \<Rightarrow> string list" where
  "response_lines h =
     status_line h # map field_line (h_headers h) @ [field_line (''Encapsulated'', encapsulated_header_str h)]"

lemma send_header_lines_calm:
  assumes "calm s"
  shows "\<exists>s'. send_header_lines hs s = (True, s') \<and> calm s' \<and>
    s_out s' = s_out s @ lines_text (map field_line hs)"
  using assms
proof (induction hs arbitrary: s)
  case (Cons kv hs)
  obtain k v where kv: "kv = (k, v)" by (cases kv)
  obtain s1 where s1: "send_line (k @ '': '' @ v) s = (True, s1)" "calm s1"
      "s_out s1 = s_out s @ (k @ '': '' @ v) @ CRLF"
    using send_line_calm [OF Cons.prems] by blast
  obtain s2 where "send_header_lines hs s1 = (True, s2)" "calm s2"
      "s_out s2 = s_out s1 @ lines_text (map field_line hs)"
    using Cons.IH [OF s1(2)] by blast
  moreover have "field_line kv = k @ '': '' @ v" using kv by (simp add: field_line_def)
  ultimately show ?case using s1 kv by simp
qed simp

lemma lines_text_append [simp]: "lines_text (xs @ ys) = lines_text xs @ lines_text ys"
  by (simp add: lines_text_def)

lemma send_headers_calm:
  assumes "calm s"
  shows "\<exists>s'. send_headers h s = (True, s') \<and> calm s' \<and>
    s_out s' = s_out s @ lines_text (map field_line (h_headers h) @
      [field_line (''Encapsulated'', encapsulated_header_str h)]) @ CRLF"
proof -
  obtain s1 where s1: "send_header_lines (h_headers h) s = (True, s1)" "calm s1"
      "s_out s1 = s_out s @ lines_text (map field_line (h_headers h))"
    using send_header_lines_calm [OF assms] by blast
  let ?l = "''Encapsulated: '' @ encapsulated_header_str h"
  obtain s2 where s2: "send_line ?l s1 = (True, s2)" "calm s2" "s_out s2 = s_out s1 @ ?l @ CRLF"
    using send_line_calm [OF s1(2)] by blast
  obtain s3 where "send_data CRLF s2 = (True, s3)" "calm s3" "s_out s3 = s_out s2 @ CRLF"
    using send_data_calm [OF s2(2)] by blast
  moreover have "field_line (''Encapsulated'', encapsulated_header_str h) = ?l"
    by (simp add: field_line_def)
  ultimately show ?thesis using s1 s2 by (simp add: send_headers_def)
qed

lemma send_part_calm:
  assumes "calm s" and "\<And>s. calm s \<Longrightarrow> \<exists>s'. send d s = (True, s') \<and> calm s' \<and> s_out s' = s_out s @ w"
    and "d = [] \<Longrightarrow> w = []"
  shows "calm (send_part send d s) \<and> s_out (send_part send d s) = s_out s @ w"
proof -
  obtain s' where "send d s = (True, s')" "calm s'" "s_out s' = s_out s @ w"
    using assms(2) [OF assms(1)] by blast
  with assms(1,3) show ?thesis by (simp add: send_part_def)
qed

lemma send_payload_calm:
  assumes "calm s" and "length (req_body p) < 2 ^ 32" and "length (res_body p) < 2 ^ 32"
  shows "calm (send_payload p s) \<and> s_out (send_payload p s) = s_out s @ payload_text p"
proof -
  have d: "calm (send_part send_data d s) \<and> s_out (send_part send_data d s) = s_out s @ d"
    if "calm s" for d s
    using that send_data_calm by (intro send_part_calm) auto
  have b: "calm (send_part send_chunked d s) \<and> s_out (send_part send_chunked d s) = s_out s @ sent_body d"
    if "calm s" and "length d < 2 ^ 32" for d s
  proof (cases "d = []")
    case True
    with that show ?thesis by (simp add: send_part_def sent_body_def)
  next
    case False
    then show ?thesis
      using that send_chunked_calm [of _ d] by (intro send_part_calm) (auto simp: sent_body_def)
  qed
  show ?thesis
    unfolding send_payload_def payload_text_def using assms d b by simp
qed

lemma send_response_calm:
  assumes "calm s" and "length (req_body (r_payload rs)) < 2 ^ 32" and "length (res_body (r_payload rs)) < 2 ^ 32"
  shows "\<exists>s'. send_response rs s = (True, s') \<and> calm s' \<and>
    s_out s' = s_out s @ lines_text (response_lines (r_header rs)) @ CRLF @ payload_text (r_payload rs) \<and>
    s_flushed s' = length (s_out s')"
proof -
  obtain s1 where s1: "send_line (status_line (r_header rs)) s = (True, s1)" "calm s1"
      "s_out s1 = s_out s @ status_line (r_header rs) @ CRLF"
    using send_line_calm [OF assms(1)] by blast
  obtain s2 where s2: "send_headers (r_header rs) s1 = (True, s2)" "calm s2"
      "s_out s2 = s_out s1 @ lines_text (map field_line (h_headers (r_header rs)) @
        [field_line (''Encapsulated'', encapsulated_header_str (r_header rs))]) @ CRLF"
    using send_headers_calm [OF s1(2)] by blast
  have s3: "calm (send_payload (r_payload rs) s2)"
      "s_out (send_payload (r_payload rs) s2) = s_out s2 @ payload_text (r_payload rs)"
    using send_payload_calm [OF s2(2) assms(2,3)] by auto
  note f = sock_flush_calm [OF s3(1)]
  show ?thesis
    using s1 s2 s3 f(2) by (simp add: send_response_def response_lines_def f(1))
qed

text \<open>The fields of a header do not depend on the other members it is built with.\<close>

lemma attach_line_cong:
  assumes "h_headers h = h_headers g" and "h_encapsulated h = h_encapsulated g"
  shows "h_headers (attach_line l h) = h_headers (attach_line l g) \<and>
    h_encapsulated (attach_line l h) = h_encapsulated (attach_line l g)"
  using assms by (simp add: attach_line_def attach_def attach_encapsulated_def Let_def split: prod.splits)

lemma attach_lines_cong:
  assumes "h_headers h = h_headers g" and "h_encapsulated h = h_encapsulated g"
  shows "h_headers (fold attach_line ls h) = h_headers (fold attach_line ls g) \<and>
    h_encapsulated (fold attach_line ls h) = h_encapsulated (fold attach_line ls g)"
  using assms
proof (induction ls arbitrary: h g)
  case (Cons l ls)
  from attach_line_cong [OF Cons.prems, of l] show ?case by (simp add: Cons.IH)
qed simp

lemma colon_line_ignored:
  assumes "\<forall>l\<in>set (rl # ls1 @ field_line (k, v) # ls2). header_line l"
    and "CHR '':'' \<notin> set k" and "CHR '':'' \<in> set v"
  shows "h_headers (new_request_header (lines_text (rl # ls1 @ field_line (k, v) # ls2))) =
      h_headers (new_request_header (lines_text (rl # ls1 @ ls2)))"
    and "h_encapsulated (new_request_header (lines_text (rl # ls1 @ field_line (k, v) # ls2))) =
      h_encapsulated (new_request_header (lines_text (rl # ls1 @ ls2)))"
proof -
  have "\<forall>l\<in>set (rl # ls1 @ ls2). header_line l" using assms(1) by auto
  note lines = new_request_header_lines [OF assms(1)] new_request_header_lines [OF this]
  have same: "h_headers (raw_request_header rq r1) = h_headers (raw_request_header rq r2)"
      "h_encapsulated (raw_request_header rq r1) = h_encapsulated (raw_request_header rq r2)" for rq r1 r2
    by (simp_all add: raw_request_header_def header.defs)
  have eq: "fold attach_line (ls1 @ field_line (k, v) # ls2) h = fold attach_line (ls1 @ ls2) h"
    for h :: request_header
    by (simp add: field_with_colon [OF assms(2,3)])
  show "h_headers (new_request_header (lines_text (rl # ls1 @ field_line (k, v) # ls2))) =
      h_headers (new_request_header (lines_text (rl # ls1 @ ls2)))"
    and "h_encapsulated (new_request_header (lines_text (rl # ls1 @ field_line (k, v) # ls2))) =
      h_encapsulated (new_request_header (lines_text (rl # ls1 @ ls2)))"
    unfolding lines eq
    by (rule attach_lines_cong [OF same, THEN conjunct1], rule attach_lines_cong [OF same, THEN conjunct2])
qed

end
