(* ===== verification/Service.thy ===== *)
theory Service
  imports Worker IcapExchange
begin

text \<open>
  Whole exchanges: what \<open>Worker::serve_client\<close> does with the bytes of a request on a working
  connection, for OPTIONS, for a method it does not know, and for REQMOD and RESPMOD with the
  module echo loaded.
\<close>

section \<open>The request header\<close>

text \<open>A connection that works and has not timed out.\<close>

definition live :: "sock \<Rightarrow> bool" where
  "live s \<longleftrightarrow> calm s \<and> \<not> s_timedout s"

lemma live_consumed:
  assumes "live s" and "consumed s s'" and "calm s'"
  shows "live s' \<and> s_out s' = s_out s"
  using assms by (auto simp: live_def consumed_def calm_good)

definition request_head :: "request_t \<Rightarrow> (string \<times> string) list \<Rightarrow> encapsulated_header_data_t list \<Rightarrow> string" where
  "request_head rq kvs ps = lines_text (request_lines rq kvs ps) @ CRLF"

lemma read_request_head:
  assumes "live s" and "request_ok rq kvs ps" and "s_in s = request_head rq kvs ps @ rest"
  obtains hdr s1 where "read_req_header s = (hdr, s1)" and "live s1" and "s_in s1 = rest"
    and "s_out s1 = s_out s" and "method_of hdr = rq_method rq" and "header_ok hdr"
    and "\<And>k. k \<noteq> ''Encapsulated'' \<Longrightarrow> header_value k hdr =
      (case map_of (rev kvs) k of Some v \<Rightarrow> v | None \<Rightarrow> [])"
    and "h_encapsulated hdr = fold (\<lambda>(k, v). smap_set k v) ps init_encapsulated"
proof -
  let ?hdr = "new_request_header (lines_text (request_lines rq kvs ps))"
  have "yields (read_req_header s) ?hdr rest"
    using assms by (intro read_req_header_yields) (auto simp: live_def request_ok_def request_head_def)
  then obtain s1 where s1: "read_req_header s = (?hdr, s1)" "s_in s1 = rest" "calm s1"
    by (rule yieldsE)
  have "consumed s s1" using rqh.consumes [of s] s1(1) by simp
  note lv = live_consumed [OF assms(1) this s1(3)]
  show thesis
    by (rule that [OF s1(1) _ s1(2) _ _ new_request_header_ok parse_request(2,3) [OF assms(2)]])
      (use lv parse_request(1) [OF assms(2)] in \<open>simp_all add: method_of_def\<close>)
qed

text \<open>The client asks to keep the connection.\<close>

definition keeps :: "(string \<times> string) list \<Rightarrow> bool" where
  "keeps kvs \<longleftrightarrow> map_of (rev kvs) ''Connection'' = Some ''keep-alive''"

text \<open>The same, as the exchanges below use it.\<close>

lemma client_head:
  assumes "live s" and "request_ok rq kvs ps" and "s_in s = request_head rq kvs ps @ rest"
  obtains hdr s1 where "read_req_header s = (hdr, s1)" and "live s1" and "s_in s1 = rest"
    and "s_out s1 = s_out s" and "method_of hdr = rq_method rq" and "keep_alive hdr = keeps kvs"
    and "header_value ''Preview'' hdr = (case map_of (rev kvs) ''Preview'' of Some v \<Rightarrow> v | None \<Rightarrow> [])"
    and "h_encapsulated hdr = fold (\<lambda>(k, v). smap_set k v) ps init_encapsulated"
proof (rule read_request_head [OF assms(1-3)])
  fix hdr s1
  assume h: "read_req_header s = (hdr, s1)" "live s1" "s_in s1 = rest" "s_out s1 = s_out s"
    "method_of hdr = rq_method rq"
    and v: "\<And>k. k \<noteq> ''Encapsulated'' \<Longrightarrow> header_value k hdr =
      (case map_of (rev kvs) k of Some v \<Rightarrow> v | None \<Rightarrow> [])"
    and e: "h_encapsulated hdr = fold (\<lambda>(k, v). smap_set k v) ps init_encapsulated"
  have "keep_alive hdr = keeps kvs"
    using v [of "''Connection''"] by (simp add: keep_alive_def keeps_def split: option.splits)
  moreover have "header_value ''Preview'' hdr =
      (case map_of (rev kvs) ''Preview'' of Some v \<Rightarrow> v | None \<Rightarrow> [])"
    by (rule v) simp
  ultimately show thesis using that h e by blast
qed

definition response_text :: "response \<Rightarrow> string" where
  "response_text rs = lines_text (response_lines (r_header rs)) @ CRLF @ payload_text (r_payload rs)"

definition small_response :: "response \<Rightarrow> bool" where
  "small_response rs \<longleftrightarrow>
     length (req_body (r_payload rs)) < 2 ^ 32 \<and> length (res_body (r_payload rs)) < 2 ^ 32"

lemma send_response_live:
  assumes "live s" and "small_response rs"
  obtains s' where "send_response rs s = (True, s')" and "live s'" and "s_in s' = s_in s"
    and "s_out s' = s_out s @ response_text rs"
proof -
  obtain s' where s': "send_response rs s = (True, s')" "calm s'"
      "s_out s' = s_out s @ lines_text (response_lines (r_header rs)) @ CRLF @ payload_text (r_payload rs)"
    using send_response_calm [of s rs] assms by (auto simp: live_def small_response_def)
  have "emitted s s'" using sresp.emits [of s rs] s'(1) by simp
  then show thesis using that s' assms(1) by (simp add: live_def emitted_def response_text_def)
qed

section \<open>One exchange\<close>

text \<open>
  The bytes \<open>req\<close> of a request are answered: wherever they come first on a working connection,
  the header is read, \<open>interim\<close> is written while the request is processed, all of \<open>req\<close> and
  nothing behind it is consumed, and the response is \<open>rs\<close>. The flag is whether the connection is
  to be kept.
\<close>

definition answered :: "'w tick \<Rightarrow> 'w req_handlers \<Rightarrow> bool \<Rightarrow> string \<Rightarrow> string \<Rightarrow> response \<Rightarrow> 'w \<Rightarrow> 'w \<Rightarrow> bool" where
  "answered tick hs ka req interim rs w w' \<longleftrightarrow> small_response rs \<and>
     (\<forall>s rest. live s \<longrightarrow> s_in s = req @ rest \<longrightarrow>
       (\<exists>hdr s1 hdr' s2. read_req_header s = (hdr, s1) \<and> live s1 \<and>
          respond tick hs hdr s1 w = Some ((rs, hdr'), s2, w') \<and> live s2 \<and> s_in s2 = rest \<and>
          s_out s2 = s_out s @ interim \<and> keep_alive hdr' = ka))"

text \<open>The response as it is sent, with the connection kept or not.\<close>

definition with_connection :: "bool \<Rightarrow> response \<Rightarrow> response" where
  "with_connection ka rs =
     (if ka then rs\<lparr>r_header := attach ''Connection'' ''keep-alive'' (r_header rs)\<rparr> else rs)"

lemma set_connection_with: "set_connection hdr rs = with_connection (keep_alive hdr) rs"
  by (simp add: set_connection_def with_connection_def)

lemma small_with_connection [simp]: "small_response (with_connection ka rs) = small_response rs"
  by (simp add: small_response_def with_connection_def)

lemma exchange_step:
  assumes "answered tick hs ka req interim rs w w'" and "live s" and "s_in s = req @ rest"
  obtains s' where "live s'" and "s_in s' = rest"
    and "s_out s' = s_out s @ interim @ response_text (with_connection ka rs)"
    and "serve_client tick hs s m w =
      (if 0 < m - 1 \<and> ka then serve_client tick hs s' (m - 1) w' else Some (m - 1, s', w'))"
proof -
  obtain hdr s1 hdr' s2 where e: "read_req_header s = (hdr, s1)" "live s1"
      "respond tick hs hdr s1 w = Some ((rs, hdr'), s2, w')" "live s2" "s_in s2 = rest"
      "s_out s2 = s_out s @ interim" "keep_alive hdr' = ka"
    using assms unfolding answered_def by blast
  have "small_response (with_connection ka rs)" using assms(1) by (simp add: answered_def)
  then obtain s3 where s3: "send_response (with_connection ka rs) s2 = (True, s3)" "live s3"
      "s_in s3 = s_in s2" "s_out s3 = s_out s2 @ response_text (with_connection ka rs)"
    by (rule send_response_live [OF e(4)])
  have "\<not> s_timedout s1" using e(2) by (simp add: live_def)
  from serve_client_step [OF e(1) this e(3), of True s3 m] s3 e(5-7) that show thesis
    by (simp add: set_connection_with)
qed

text \<open>The last exchange of a connection that the client does not keep.\<close>

lemma closing_exchange:
  assumes "answered tick hs ka req interim rs w w'" and "\<not> ka" and "live s" and "s_in s = req @ rest"
  shows "\<exists>s'. serve_client tick hs s m w = Some (m - 1, s', w') \<and> s_in s' = rest \<and>
    s_out s' = s_out s @ interim @ response_text rs"
  by (rule exchange_step [OF assms(1,3,4), of m]) (use assms(2) in \<open>auto simp: with_connection_def\<close>)

section \<open>OPTIONS\<close>

definition options_response :: "env_t \<Rightarrow> string \<Rightarrow> response" where
  "options_response ev mth =
     new_response_from (e_clock ev) (Some
       (attach ''Allow'' ''204'' (attach ''Options-TTL'' ''3600''
         (attach ''Methods'' mth (new_response_header (e_clock ev) OK)))))"

lemma options_answered_by:
  assumes "request_ok rq kvs ps" and "rq_method rq = ''OPTIONS''"
    and "find_req_handler hs ''OPTIONS'' = Some (Options_handler oh)" and "hd_methods oh = mth # mths"
    and "tick w = (ev, w')"
  shows "answered tick hs (keeps kvs) (request_head rq kvs ps) [] (options_response ev mth) w w'"
  unfolding answered_def
proof (intro conjI allI impI)
  show "small_response (options_response ev mth)"
    by (simp add: small_response_def options_response_def new_response_from_def empty_payload_def)
  fix s rest
  assume s: "live s" "s_in s = request_head rq kvs ps @ rest"
  obtain hdr s1 where h: "read_req_header s = (hdr, s1)" "live s1" "s_in s1 = rest" "s_out s1 = s_out s"
      "method_of hdr = rq_method rq" "keep_alive hdr = keeps kvs"
    by (rule client_head [OF s(1) assms(1) s(2)])
  have "respond tick hs hdr s1 w = Some ((options_response ev mth, hdr), s1, w')"
    using h(5) assms(2-5)
    by (simp add: respond_def handler_process_def options_process_def options_response_def Let_def)
  with h show "\<exists>hdr s1 hdr' s2. read_req_header s = (hdr, s1) \<and> live s1 \<and>
      respond tick hs hdr s1 w = Some ((options_response ev mth, hdr'), s2, w') \<and> live s2 \<and>
      s_in s2 = rest \<and> s_out s2 = s_out s @ [] \<and> keep_alive hdr' = keeps kvs" by auto
qed

section \<open>A method without a handler\<close>

definition not_allowed_response :: "env_t \<Rightarrow> response" where
  "not_allowed_response ev =
     new_response_from (e_clock ev) (Some (new_response_header (e_clock ev) NOT_ALLOWED))"

lemma unknown_answered:
  assumes "request_ok rq kvs ps" and "find_req_handler hs (rq_method rq) = None" and "tick w = (ev, w')"
  shows "answered tick hs (keeps kvs) (request_head rq kvs ps) [] (not_allowed_response ev) w w'"
  unfolding answered_def
proof (intro conjI allI impI)
  show "small_response (not_allowed_response ev)"
    by (simp add: small_response_def not_allowed_response_def new_response_from_def empty_payload_def)
  fix s rest
  assume s: "live s" "s_in s = request_head rq kvs ps @ rest"
  obtain hdr s1 where h: "read_req_header s = (hdr, s1)" "live s1" "s_in s1 = rest" "s_out s1 = s_out s"
      "method_of hdr = rq_method rq" "keep_alive hdr = keeps kvs"
    by (rule client_head [OF s(1) assms(1) s(2)])
  have "respond tick hs hdr s1 w = Some ((not_allowed_response ev, hdr), s1, w')"
    using h(5) assms(2,3) by (simp add: respond_def not_allowed_def not_allowed_response_def)
  with h show "\<exists>hdr s1 hdr' s2. read_req_header s = (hdr, s1) \<and> live s1 \<and>
      respond tick hs hdr s1 w = Some ((not_allowed_response ev, hdr'), s2, w') \<and> live s2 \<and>
      s_in s2 = rest \<and> s_out s2 = s_out s @ [] \<and> keep_alive hdr' = keeps kvs" by auto
qed

section \<open>REQMOD and RESPMOD through echo\<close>

text \<open>
  Two modules are followed through whole exchanges: echo, and modpy with the interface module of
  the repository. They differ where the whole body came with the preview, and in a flag of the
  payload that is not sent.
\<close>

datatype module = Echo | Script

definition module_env :: "module \<Rightarrow> env_t \<Rightarrow> env_t" where
  "module_env md ev = (case md of Echo \<Rightarrow> ev | Script \<Rightarrow> ev\<lparr>e_junk := True\<rparr>)"

lemma module_env_simps [simp]:
  "e_clock (module_env md ev) = e_clock ev" "module_env Echo ev = ev"
  by (simp_all add: module_env_def split: module.splits)

definition preview_of :: "module \<Rightarrow> env_t \<Rightarrow> request \<Rightarrow> response" where
  "preview_of md ev rq =
     (if md = Script \<and> ieof (q_payload rq) then new_response (e_clock ev) (e_junk ev) NO_CONTENT
      else echo_preview ev rq)"

text \<open>
  The only loaded module answers as one of the two does. Python sees the name of the method as a
  C string, so it must not hold a null byte, and \<open>REQMOD\<close> and \<open>RESPMOD\<close> do not.
\<close>

definition plain_method :: "request \<Rightarrow> bool" where
  "plain_method rq \<longleftrightarrow> CHR 0x00 \<notin> set (method_of (q_header rq))"

definition serves_as :: "'w tick \<Rightarrow> module \<Rightarrow> 'w request_handler \<Rightarrow> bool" where
  "serves_as tick md rh \<longleftrightarrow>
     (\<exists>h. loaded (hd_handlers rh) = [h] \<and>
        (\<forall>rq w ev w'. plain_method rq \<longrightarrow> tick w = (ev, w') \<longrightarrow>
           ask_modifier md_modify (hn_symbols h) rq w = ((echo_modify (module_env md ev) rq, rq), w') \<and>
           ask_modifier md_preview (hn_symbols h) rq w = ((preview_of md ev rq, rq), w')))"

text \<open>The only loaded module is echo.\<close>

definition echo_only :: "'w tick \<Rightarrow> 'w request_handler \<Rightarrow> bool" where
  "echo_only tick rh \<longleftrightarrow>
     (\<exists>h. loaded (hd_handlers rh) = [h] \<and> sy_create (hn_symbols h) = (\<lambda>w. (echo tick, w)) \<and>
        sy_destroy (hn_symbols h) = md_delete)"

lemma echo_only_loaded:
  assumes "hd_handlers rh = [load_handler linker junk m]" and "mc_name m \<noteq> []"
    and "linker (mc_module m) = Some (echo_library tick)"
  shows "echo_only tick rh"
  using assms by (auto simp: echo_only_def load_handler_def load_modifier_def loaded_def
      echo_library_def Let_def)

lemma echo_serves: "echo_only tick rh \<Longrightarrow> serves_as tick Echo rh"
  by (auto simp: echo_only_def serves_as_def ask_modifier_def echo_def preview_of_def)

lemma serves_process_modify:
  assumes "serves_as tick md rh" and "tick w = (ev, w')" and "plain_method rq"
  shows "process_modify rh rq w = ((Some (echo_modify (module_env md ev) rq), rq), w')"
proof -
  obtain h where "loaded (hd_handlers rh) = [h]"
      "ask_modifier md_modify (hn_symbols h) rq w = ((echo_modify (module_env md ev) rq, rq), w')"
    using assms unfolding serves_as_def by blast
  then show ?thesis
    using echo_modify_status [of "module_env md ev" rq]
    by (simp add: process_modify_def process_modify_answers Let_def)
qed

lemma echo_preview_status: "status_of (echo_preview ev rq) = CONTINUE"
  by (simp add: echo_preview_def new_response_def response_header_fields(5))

lemma preview_of_decisive: "decisive (preview_of md ev rq)"
  using echo_preview_status [of ev rq]
  by (auto simp: decisive_def preview_of_def new_response_def response_header_fields(5))

lemma serves_process_preview:
  assumes "serves_as tick md rh" and "tick w = (ev, w')" and "plain_method rq"
  shows "process_preview tick rh rq s w = preview_outcome tick (preview_of md ev rq) rq s w'"
proof -
  obtain h where "loaded (hd_handlers rh) = [h]"
      "ask_modifier md_preview (hn_symbols h) rq w = ((preview_of md ev rq, rq), w')"
    using assms unfolding serves_as_def by blast
  then show ?thesis
    using preview_of_decisive [of md ev rq]
    by (simp add: process_preview_def process_preview_answers Let_def)
qed

lemma header_value_update [simp]: "header_value k (update_encapsulated p h) = header_value k h"
  by (simp add: update_encapsulated_def header_value_def split: prod.splits)

lemma preview_size_payload [simp]: "preview_size (set_request_payload p rq) = preview_size rq"
  by (simp add: preview_size_def set_request_payload_def)

lemma keep_alive_update [simp]: "keep_alive (update_encapsulated p h) = keep_alive h"
  by (simp add: keep_alive_def)

lemma method_of_update [simp]: "method_of (update_encapsulated p h) = method_of h"
  by (simp add: method_of_def update_encapsulated_def split: prod.splits)

lemma q_payload_set [simp]: "q_payload (set_request_payload p rq) = p"
  and q_header_set: "q_header (set_request_payload p rq) = update_encapsulated p (q_header rq)"
  by (simp_all add: set_request_payload_def)

lemma serves_process:
  assumes "serves_as tick md rh" and "tick w = (ev, w')"
    and "read_req_data (new_request hdr) s = ((True, rq), s1)" and "preview_size rq < 0"
    and "plain_method rq"
  shows "process tick rh hdr s w = ((echo_modify (module_env md ev) rq, q_header rq), s1, w')"
  using process_steps [OF assms(3), of tick rh w None rq s1 w "Some (echo_modify (module_env md ev) rq)" rq w']
    serves_process_modify [OF assms(1,2,5)] assms(4) by simp

text \<open>With a preview: the interim response, the rest of the body, then the echo of all of it.\<close>

lemma serves_process_continue:
  assumes "serves_as tick md rh" and "tick w = (ev, w')" and "tick w' = (ev', w'')"
    and "read_req_data (new_request hdr) s = ((True, rq), s1)" and "0 \<le> preview_size rq"
    and "\<not> ieof (q_payload rq)" and "send_response (echo_preview ev rq) s1 = (True, s2)"
    and "read_req_continue_data rq s2 = ((True, rq'), s3)"
    and "plain_method rq" and "plain_method rq'"
  shows "process tick rh hdr s w = ((echo_modify (module_env md ev') rq', q_header rq'), s3, w'')"
proof -
  have "preview_continue (echo_preview ev rq) rq s1 = ((True, rq'), s3)"
    using assms(6-8) by (simp add: preview_continue_def)
  then have "process_preview tick rh rq s1 w = ((None, rq'), s3, w')"
    using serves_process_preview [OF assms(1,2,9), of s1] echo_preview_status [of ev rq] assms(6)
    by (simp add: preview_outcome_def preview_of_def)
  then show ?thesis
    using process_steps [OF assms(4), of tick rh w None rq' s3 w' "Some (echo_modify (module_env md ev') rq')" rq' w'']
      serves_process_modify [OF assms(1,3,10)] assms(5) by simp
qed

text \<open>
  A preview that already held the whole body (\<open>ieof\<close>) ends in a 500 with echo, and in a 204 with
  the interface module of modpy.
\<close>

definition whole_reply :: "'w tick \<Rightarrow> module \<Rightarrow> 'w \<Rightarrow> response \<times> 'w" where
  "whole_reply tick md w =
     (case tick w of (ev, w') \<Rightarrow>
        case md of
          Echo \<Rightarrow> server_error tick w'
        | Script \<Rightarrow> (new_response (e_clock ev) (e_junk ev) NO_CONTENT, w'))"

lemma serves_process_ieof:
  assumes "serves_as tick md rh" and "whole_reply tick md w = (rs, w'')"
    and "read_req_data (new_request hdr) s = ((True, rq), s1)" and "0 \<le> preview_size rq"
    and "ieof (q_payload rq)" and "plain_method rq"
  shows "process tick rh hdr s w = ((rs, q_header rq), s1, w'')"
proof -
  obtain ev w' where t: "tick w = (ev, w')" by fastforce
  have pc: "preview_continue r rq s1 = ((False, rq), s1)" for r
    using assms(5) by (simp add: preview_continue_def)
  have "process_preview tick rh rq s1 w = ((Some rs, rq), s1, w'')"
    using serves_process_preview [OF assms(1) t assms(6), of s1] echo_preview_status [of ev rq] assms(2,5) t pc
    by (auto simp: preview_outcome_def preview_of_def whole_reply_def new_response_def response_header_fields(5)
        split: module.splits)
  then show ?thesis
    using process_steps [OF assms(3), of tick rh w "Some rs" rq s1 w'' "Some rs" rq w''] assms(4) by simp
qed

section \<open>REQMOD exchanges\<close>

definition reqmod_entities :: "string \<Rightarrow> encapsulated_header_data_t list" where
  "reqmod_entities hdr = [(''req-hdr'', 0), (''req-body'', int (length hdr))]"

definition reqmod_payload :: "string \<Rightarrow> string \<Rightarrow> bool \<Rightarrow> payload_t" where
  "reqmod_payload hdr d ie =
     \<lparr>req_header = hdr, req_body = d, res_header = [], res_body = [], ieof = ie\<rparr>"

definition echo_reply :: "env_t \<Rightarrow> payload_t \<Rightarrow> response" where
  "echo_reply ev p = set_response_payload (p\<lparr>ieof := e_junk ev\<rparr>) (new_response (e_clock ev) (e_junk ev) OK)"

lemma echo_modify_reqmod:
  assumes "method_of (q_header rq) = ''REQMOD''"
  shows "echo_modify ev rq = echo_reply ev (q_payload rq)"
  using assms by (cases "q_payload rq") (simp add: echo_modify_def echo_reply_def empty_payload_def Let_def)

lemma small_echo_reply: "length (req_body p) < 2 ^ 32 \<Longrightarrow> length (res_body p) < 2 ^ 32 \<Longrightarrow> small_response (echo_reply ev p)"
  by (simp add: small_response_def echo_reply_def set_response_payload_def)

lemma chunked_section:
  assumes "live s" and "yields (rd s) x rest" and "stream_reader rd"
  obtains s1 where "rd s = (x, s1)" and "live s1" and "s_in s1 = rest" and "s_out s1 = s_out s"
proof -
  obtain s1 where s1: "rd s = (x, s1)" "s_in s1 = rest" "calm s1" using assms(2) by (rule yieldsE)
  have "consumed s s1" using stream_reader.consumes [OF assms(3), of s] s1(1) by simp
  from live_consumed [OF assms(1) this s1(3)] s1 that show thesis by blast
qed

lemma echo_modify_respmod:
  assumes "method_of (q_header rq) \<noteq> ''REQMOD''"
  shows "echo_modify ev rq = echo_reply ev ((q_payload rq)\<lparr>req_header := [], req_body := []\<rparr>)"
  using assms by (cases "q_payload rq") (simp add: echo_modify_def echo_reply_def empty_payload_def Let_def)

text \<open>
  A request without a preview: its payload, given how it is read, is echoed; for a method other
  than REQMOD without the parts of the request.
\<close>

lemma echo_answered:
  assumes "request_ok rq kvs ps" and "map_of (rev kvs) ''Preview'' = None" and "rq_method rq = mth"
    and "find_req_handler hs mth = Some (Mod_handler rh)" and "serves_as tick md rh" and "tick w = (ev, w')"
    and read: "\<And>r s rest. live s \<Longrightarrow> s_in s = body @ rest \<Longrightarrow>
      h_encapsulated (q_header r) = fold (\<lambda>(k, v). smap_set k v) ps init_encapsulated \<Longrightarrow>
      yields (read_req_data r s) (True, set_request_payload p r) rest"
    and "length (req_body p) < 2 ^ 32" and "length (res_body p) < 2 ^ 32"
    and "CHR 0x00 \<notin> set mth"
  shows "answered tick hs (keeps kvs) (request_head rq kvs ps @ body) []
    (echo_reply (module_env md ev) (if mth = ''REQMOD'' then p else p\<lparr>req_header := [], req_body := []\<rparr>)) w w'"
  unfolding answered_def
proof (intro conjI allI impI)
  let ?p = "if mth = ''REQMOD'' then p else p\<lparr>req_header := [], req_body := []\<rparr>"
  show "small_response (echo_reply (module_env md ev) ?p)" using assms(8,9) by (intro small_echo_reply) simp_all
  fix s rest
  assume s: "live s" "s_in s = (request_head rq kvs ps @ body) @ rest"
  then have "s_in s = request_head rq kvs ps @ body @ rest" by simp
  then obtain h s1 where h: "read_req_header s = (h, s1)" "live s1" "s_in s1 = body @ rest"
      "s_out s1 = s_out s" "method_of h = rq_method rq" "keep_alive h = keeps kvs"
      "header_value ''Preview'' h = (case map_of (rev kvs) ''Preview'' of Some v \<Rightarrow> v | None \<Rightarrow> [])"
      "h_encapsulated h = fold (\<lambda>(k, v). smap_set k v) ps init_encapsulated"
    by (rule client_head [OF s(1) assms(1)])
  let ?rq = "set_request_payload p (new_request h)"
  have "yields (read_req_data (new_request h) s1) (True, ?rq) rest"
    by (rule read [OF h(2,3)]) (simp add: h(8) new_request_def)
  then obtain s2 where s2: "read_req_data (new_request h) s1 = ((True, ?rq), s2)" "live s2"
      "s_in s2 = rest" "s_out s2 = s_out s1"
    by (rule chunked_section [OF h(2) _ rqd.stream_reader_axioms])
  have np: "preview_size ?rq < 0"
    unfolding preview_size_payload using h(7) assms(2) by (simp add: preview_size_def new_request_def)
  have mt: "method_of (q_header ?rq) = mth"
    using h(5) assms(3) by (simp add: q_header_set new_request_def)
  then have "plain_method ?rq" using assms(10) by (simp add: plain_method_def)
  then have "process tick rh h s1 w = ((echo_modify (module_env md ev) ?rq, q_header ?rq), s2, w')"
    by (rule serves_process [OF assms(5,6) s2(1) np])
  moreover from mt have "echo_modify (module_env md ev) ?rq = echo_reply (module_env md ev) ?p"
    using echo_modify_reqmod [of ?rq "module_env md ev"] echo_modify_respmod [of ?rq "module_env md ev"] by simp
  ultimately have "respond tick hs h s1 w = Some ((echo_reply (module_env md ev) ?p, q_header ?rq), s2, w')"
    using h(5) assms(3,4) by (simp add: respond_def handler_process_def)
  moreover have "keep_alive (q_header ?rq) = keeps kvs" using h(6) by (simp add: q_header_set new_request_def)
  ultimately show "\<exists>hdr s1 hdr' s2. read_req_header s = (hdr, s1) \<and> live s1 \<and>
      respond tick hs hdr s1 w = Some ((echo_reply (module_env md ev) ?p, hdr'), s2, w') \<and> live s2 \<and>
      s_in s2 = rest \<and> s_out s2 = s_out s @ [] \<and> keep_alive hdr' = keeps kvs"
    using h(1,2,4) s2(2-4) by auto
qed

text \<open>The three kinds of request without a preview.\<close>

lemma echo_reply_ieof: "echo_reply ev (p\<lparr>ieof := b\<rparr>) = echo_reply ev p"
  by (simp add: echo_reply_def)

lemma reqmod_answered:
  assumes "request_ok rq kvs (reqmod_entities hdr)" and "hdr \<noteq> []" and "body_ok cs hx ext"
    and "map_of (rev kvs) ''Preview'' = None" and "rq_method rq = ''REQMOD''"
    and "find_req_handler hs ''REQMOD'' = Some (Mod_handler rh)" and "serves_as tick md rh"
    and "tick w = (ev, w')" and "length (chunk_data cs) < 2 ^ 32"
  shows "answered tick hs (keeps kvs) (request_head rq kvs (reqmod_entities hdr) @ hdr @ body_text cs hx ext) []
    (echo_reply (module_env md ev) (reqmod_payload hdr (chunk_data cs) False)) w w'"
proof -
  let ?p = "reqmod_payload hdr (chunk_data cs) (chunk_extension ext = ''ieof'')"
  have "yields (read_req_data r s) (True, set_request_payload ?p r) rest"
    if "live s" "s_in s = (hdr @ body_text cs hx ext) @ rest"
      "h_encapsulated (q_header r) = fold (\<lambda>(k, v). smap_set k v) (reqmod_entities hdr) init_encapsulated" for r s rest
    using read_reqmod [of s cs hx ext hdr rest r] that assms(2,3)
    by (simp add: live_def reqmod_entities_def reqmod_payload_def)
  from echo_answered [OF assms(1,4-8) this] assms(9)
  have "answered tick hs (keeps kvs) (request_head rq kvs (reqmod_entities hdr) @ hdr @ body_text cs hx ext) []
    (echo_reply (module_env md ev) ?p) w w'" by (simp add: reqmod_payload_def)
  then show ?thesis
    using echo_reply_ieof [of "module_env md ev" "chunk_extension ext = ''ieof''" "reqmod_payload hdr (chunk_data cs) False"]
    by (simp add: reqmod_payload_def)
qed

definition bodyless_entities :: "string \<Rightarrow> encapsulated_header_data_t list" where
  "bodyless_entities hdr = [(''req-hdr'', 0), (''null-body'', int (length hdr))]"

lemma bodyless_answered:
  assumes "request_ok rq kvs (bodyless_entities hdr)" and "hdr \<noteq> []"
    and "map_of (rev kvs) ''Preview'' = None" and "rq_method rq = ''REQMOD''"
    and "find_req_handler hs ''REQMOD'' = Some (Mod_handler rh)" and "serves_as tick md rh"
    and "tick w = (ev, w')"
  shows "answered tick hs (keeps kvs) (request_head rq kvs (bodyless_entities hdr) @ hdr) []
    (echo_reply (module_env md ev) (reqmod_payload hdr [] False)) w w'"
proof -
  have "yields (read_req_data r s) (True, set_request_payload (reqmod_payload hdr [] False) r) rest"
    if "live s" "s_in s = hdr @ rest"
      "h_encapsulated (q_header r) = fold (\<lambda>(k, v). smap_set k v) (bodyless_entities hdr) init_encapsulated" for r s rest
    using read_bodyless [of s hdr rest r] that assms(2)
    by (simp add: live_def bodyless_entities_def reqmod_payload_def)
  from echo_answered [OF assms(1,3-7) this] show ?thesis by (simp add: reqmod_payload_def)
qed

text \<open>The start of the preview exchanges: everything up to the preview is read.\<close>

lemma reqmod_preview_read:
  assumes "live s" and "request_ok rq kvs (reqmod_entities hdr)" and "hdr \<noteq> []" and "body_ok cs hx ext"
    and "s_in s = request_head rq kvs (reqmod_entities hdr) @ hdr @ body_text cs hx ext @ rest"
    and "map_of (rev kvs) ''Preview'' = Some v" and "v \<noteq> []" and "0 \<le> atoi v"
  obtains h s1 s2 where "read_req_header s = (h, s1)" and "live s1" and "method_of h = rq_method rq"
    and "keep_alive h = keeps kvs"
    and "h_encapsulated h = fold (\<lambda>(k, v). smap_set k v) (reqmod_entities hdr) init_encapsulated"
    and "read_req_data (new_request h) s1 =
      ((True, set_request_payload (reqmod_payload hdr (chunk_data cs) (chunk_extension ext = ''ieof''))
        (new_request h)), s2)"
    and "live s2" and "s_in s2 = rest" and "s_out s2 = s_out s"
    and "0 \<le> preview_size (set_request_payload
      (reqmod_payload hdr (chunk_data cs) (chunk_extension ext = ''ieof'')) (new_request h))"
proof -
  let ?p = "reqmod_payload hdr (chunk_data cs) (chunk_extension ext = ''ieof'')"
  obtain h s1 where h: "read_req_header s = (h, s1)" "live s1" "s_in s1 = hdr @ body_text cs hx ext @ rest"
      "s_out s1 = s_out s" "method_of h = rq_method rq" "keep_alive h = keeps kvs"
      "header_value ''Preview'' h = (case map_of (rev kvs) ''Preview'' of Some v \<Rightarrow> v | None \<Rightarrow> [])"
      "h_encapsulated h = fold (\<lambda>(k, v). smap_set k v) (reqmod_entities hdr) init_encapsulated"
    by (rule client_head [OF assms(1,2,5)])
  let ?rq = "set_request_payload ?p (new_request h)"
  have "yields (read_req_data (new_request h) s1) (True, ?rq) rest"
    using read_reqmod [of s1 cs hx ext hdr rest "new_request h"] h(2,3,8) assms(3,4)
    by (simp add: live_def new_request_def reqmod_entities_def reqmod_payload_def)
  then obtain s2 where s2: "read_req_data (new_request h) s1 = ((True, ?rq), s2)" "live s2"
      "s_in s2 = rest" "s_out s2 = s_out s1"
    by (rule chunked_section [OF h(2) _ rqd.stream_reader_axioms])
  have "0 \<le> preview_size ?rq"
    unfolding preview_size_payload using h(7) assms(6-8) by (simp add: preview_size_def new_request_def)
  with that h s2 show thesis by simp
qed

lemma preview_answered:
  assumes "request_ok rq kvs (reqmod_entities hdr)" and "hdr \<noteq> []" and "body_ok cs hx ext"
    and "map_of (rev kvs) ''Preview'' = Some v" and "v \<noteq> []" and "0 \<le> atoi v"
    and "chunk_extension ext \<noteq> ''ieof''" and "body_ok cs' hx' ext'" and "rq_method rq = ''REQMOD''"
    and "find_req_handler hs ''REQMOD'' = Some (Mod_handler rh)" and "serves_as tick md rh"
    and "tick w = (ev, w')" and "tick w' = (ev', w'')"
    and "length hdr + length (chunk_data cs) < 2 ^ 31" and "length (chunk_data cs @ chunk_data cs') < 2 ^ 32"
  shows "answered tick hs (keeps kvs)
    (request_head rq kvs (reqmod_entities hdr) @ hdr @ body_text cs hx ext @ body_text cs' hx' ext')
    (response_text (new_response (e_clock ev) (e_junk ev) CONTINUE))
    (echo_reply (module_env md ev') (reqmod_payload hdr (chunk_data cs @ chunk_data cs') False)) w w''"
  unfolding answered_def
proof (intro conjI allI impI)
  let ?p = "reqmod_payload hdr (chunk_data cs) False"
  let ?e = "echo_reply (module_env md ev') (reqmod_payload hdr (chunk_data cs @ chunk_data cs') False)"
  let ?c = "new_response (e_clock ev) (e_junk ev) CONTINUE"
  show "small_response ?e" using assms(15) by (intro small_echo_reply) (simp_all add: reqmod_payload_def)
  fix s rest
  assume s: "live s" "s_in s = (request_head rq kvs (reqmod_entities hdr) @ hdr @ body_text cs hx ext @
    body_text cs' hx' ext') @ rest"
  then have i: "s_in s = request_head rq kvs (reqmod_entities hdr) @ hdr @ body_text cs hx ext @
    body_text cs' hx' ext' @ rest" by simp
  obtain h s1 s2 where h: "read_req_header s = (h, s1)" "live s1" "method_of h = rq_method rq"
      "keep_alive h = keeps kvs"
      "h_encapsulated h = fold (\<lambda>(k, v). smap_set k v) (reqmod_entities hdr) init_encapsulated"
      "read_req_data (new_request h) s1 = ((True, set_request_payload ?p (new_request h)), s2)"
      "live s2" "s_in s2 = body_text cs' hx' ext' @ rest" "s_out s2 = s_out s"
      "0 \<le> preview_size (set_request_payload ?p (new_request h))"
    using reqmod_preview_read [OF s(1) assms(1-3) i assms(4-6), of thesis] assms(7) by simp
  let ?rq = "set_request_payload ?p (new_request h)"
  have c: "echo_preview ev ?rq = ?c" by (simp add: echo_preview_def)
  have "small_response ?c" by (simp add: small_response_def new_response_def empty_payload_def)
  then obtain s3 where s3: "send_response ?c s2 = (True, s3)" "live s3" "s_in s3 = s_in s2"
      "s_out s3 = s_out s2 @ response_text ?c"
    by (rule send_response_live [OF h(7)])
  let ?p' = "reqmod_payload hdr (chunk_data cs @ chunk_data cs') (chunk_extension ext' = ''ieof'')"
  let ?rq' = "set_request_payload ?p' ?rq"
  have "yields (read_req_continue_data ?rq s3) (True, ?rq') rest"
    using continue_reqmod [of "new_request h" hdr ?p s3 cs' hx' ext' rest] h(5,8) s3(2,3) assms(2,8,14)
    by (simp add: live_def new_request_def reqmod_entities_def reqmod_payload_def)
  then obtain s4 where s4: "read_req_continue_data ?rq s3 = ((True, ?rq'), s4)" "live s4"
      "s_in s4 = rest" "s_out s4 = s_out s3"
    by (rule chunked_section [OF s3(2) _ rqc.stream_reader_axioms])
  have ni: "\<not> ieof (q_payload ?rq)" by (simp add: reqmod_payload_def)
  have "plain_method ?rq" "plain_method ?rq'"
    using h(3) assms(9) by (simp_all add: plain_method_def q_header_set new_request_def)
  then have "process tick rh h s1 w = ((echo_modify (module_env md ev') ?rq', q_header ?rq'), s4, w'')"
    using serves_process_continue [OF assms(11-13) h(6,10) ni _ s4(1)] s3(1) c by simp
  moreover have "echo_modify (module_env md ev') ?rq' = ?e"
    using h(3) assms(9) echo_reply_ieof [of "module_env md ev'" "chunk_extension ext' = ''ieof''"
        "reqmod_payload hdr (chunk_data cs @ chunk_data cs') False"]
    by (simp add: echo_modify_reqmod q_header_set new_request_def reqmod_payload_def)
  ultimately have "respond tick hs h s1 w = Some ((?e, q_header ?rq'), s4, w'')"
    using h(3) assms(9,10) by (simp add: respond_def handler_process_def)
  moreover have "keep_alive (q_header ?rq') = keeps kvs" using h(4) by (simp add: q_header_set new_request_def)
  ultimately show "\<exists>hdr s1 hdr' s2. read_req_header s = (hdr, s1) \<and> live s1 \<and>
      respond tick hs hdr s1 w = Some ((?e, hdr'), s2, w'') \<and> live s2 \<and> s_in s2 = rest \<and>
      s_out s2 = s_out s @ response_text ?c \<and> keep_alive hdr' = keeps kvs"
    using h(1,2,9) s3(4) s4(2-4) by auto
qed

text \<open>The whole body fitted in the preview.\<close>

lemma ieof_answered:
  assumes "request_ok rq kvs (reqmod_entities hdr)" and "hdr \<noteq> []" and "body_ok cs hx ext"
    and "map_of (rev kvs) ''Preview'' = Some v" and "v \<noteq> []" and "0 \<le> atoi v"
    and "chunk_extension ext = ''ieof''" and "rq_method rq = ''REQMOD''"
    and "find_req_handler hs ''REQMOD'' = Some (Mod_handler rh)" and "serves_as tick md rh"
    and "whole_reply tick md w = (rs, w'')"
  shows "answered tick hs (keeps kvs) (request_head rq kvs (reqmod_entities hdr) @ hdr @ body_text cs hx ext) []
    rs w w''"
  unfolding answered_def
proof (intro conjI allI impI)
  let ?p = "reqmod_payload hdr (chunk_data cs) True"
  show "small_response rs"
    using assms(11) by (auto simp: whole_reply_def server_error_def small_response_def new_response_def
        empty_payload_def split: prod.splits module.splits)
  fix s rest
  assume s: "live s" "s_in s = (request_head rq kvs (reqmod_entities hdr) @ hdr @ body_text cs hx ext) @ rest"
  then have i: "s_in s = request_head rq kvs (reqmod_entities hdr) @ hdr @ body_text cs hx ext @ rest" by simp
  obtain h s1 s2 where h: "read_req_header s = (h, s1)" "live s1" "method_of h = rq_method rq"
      "keep_alive h = keeps kvs"
      "read_req_data (new_request h) s1 = ((True, set_request_payload ?p (new_request h)), s2)"
      "live s2" "s_in s2 = rest" "s_out s2 = s_out s"
      "0 \<le> preview_size (set_request_payload ?p (new_request h))"
    using reqmod_preview_read [OF s(1) assms(1-3) i assms(4-6), of thesis] assms(7) by simp
  let ?rq = "set_request_payload ?p (new_request h)"
  have ie: "ieof (q_payload ?rq)" by (simp add: reqmod_payload_def)
  have pl: "plain_method ?rq"
    using h(3) assms(8) by (simp add: plain_method_def q_header_set new_request_def)
  have "respond tick hs h s1 w = Some ((rs, q_header ?rq), s2, w'')"
    using serves_process_ieof [OF assms(10,11) h(5,9) ie] h(3) assms(8,9) pl
    by (simp add: respond_def handler_process_def)
  moreover have "keep_alive (q_header ?rq) = keeps kvs" using h(4) by (simp add: q_header_set new_request_def)
  ultimately show "\<exists>hdr s1 hdr' s2. read_req_header s = (hdr, s1) \<and> live s1 \<and>
      respond tick hs hdr s1 w = Some ((rs, hdr'), s2, w'') \<and> live s2 \<and> s_in s2 = rest \<and>
      s_out s2 = s_out s @ [] \<and> keep_alive hdr' = keeps kvs"
    using h(1,2,6-8) by auto
qed

section \<open>RESPMOD\<close>

definition respmod_entities :: "string \<Rightarrow> string \<Rightarrow> encapsulated_header_data_t list" where
  "respmod_entities hdr rhdr =
     [(''req-hdr'', 0), (''res-hdr'', int (length hdr)), (''res-body'', int (length (hdr @ rhdr)))]"

definition respmod_payload :: "string \<Rightarrow> string \<Rightarrow> string \<Rightarrow> bool \<Rightarrow> payload_t" where
  "respmod_payload hdr rhdr d ie =
     \<lparr>req_header = hdr, req_body = [], res_header = rhdr, res_body = d, ieof = ie\<rparr>"

lemma respmod_answered:
  assumes "request_ok rq kvs (respmod_entities hdr rhdr)" and "hdr \<noteq> []" and "rhdr \<noteq> []"
    and "body_ok cs hx ext" and "map_of (rev kvs) ''Preview'' = None" and "rq_method rq = ''RESPMOD''"
    and "find_req_handler hs ''RESPMOD'' = Some (Mod_handler rh)" and "serves_as tick md rh"
    and "tick w = (ev, w')" and "length (chunk_data cs) < 2 ^ 32"
  shows "answered tick hs (keeps kvs)
    (request_head rq kvs (respmod_entities hdr rhdr) @ hdr @ rhdr @ body_text cs hx ext) []
    (echo_reply (module_env md ev) (respmod_payload [] rhdr (chunk_data cs) False)) w w'"
proof -
  let ?p = "respmod_payload hdr rhdr (chunk_data cs) (chunk_extension ext = ''ieof'')"
  have "yields (read_req_data r s) (True, set_request_payload ?p r) rest"
    if "live s" "s_in s = (hdr @ rhdr @ body_text cs hx ext) @ rest"
      "h_encapsulated (q_header r) = fold (\<lambda>(k, v). smap_set k v) (respmod_entities hdr rhdr) init_encapsulated"
    for r s rest
    using read_respmod [of s cs hx ext hdr rhdr rest r] that assms(2-4)
    by (simp add: live_def respmod_entities_def respmod_payload_def)
  from echo_answered [OF assms(1,5-9) this] assms(10) show ?thesis
    using echo_reply_ieof [of "module_env md ev" "chunk_extension ext = ''ieof''" "respmod_payload [] rhdr (chunk_data cs) False"]
    by (simp add: respmod_payload_def)
qed

section \<open>The Encapsulated field of an echoed response\<close>

lemma echo_reply_encapsulated:
  shows "hdr \<noteq> [] \<Longrightarrow> d \<noteq> [] \<Longrightarrow> length hdr + length d < 2 ^ 31 \<Longrightarrow>
      encapsulated_header_str (r_header (echo_reply ev (reqmod_payload hdr d False))) =
      ''req-hdr=0, req-body='' @ itoa (int (length hdr))"
    and "hdr \<noteq> [] \<Longrightarrow> length hdr < 2 ^ 31 \<Longrightarrow>
      encapsulated_header_str (r_header (echo_reply ev (reqmod_payload hdr [] False))) =
      ''req-hdr=0, null-body='' @ itoa (int (length hdr))"
    and "rhdr \<noteq> [] \<Longrightarrow> d \<noteq> [] \<Longrightarrow> length rhdr + length d < 2 ^ 31 \<Longrightarrow>
      encapsulated_header_str (r_header (echo_reply ev (respmod_payload [] rhdr d False))) =
      ''res-hdr=0, res-body='' @ itoa (int (length rhdr))"
    and "rhdr \<noteq> [] \<Longrightarrow> length rhdr < 2 ^ 31 \<Longrightarrow>
      encapsulated_header_str (r_header (echo_reply ev (respmod_payload [] rhdr [] False))) =
      ''res-hdr=0, null-body='' @ itoa (int (length rhdr))"
proof -
  have itoa0: "itoa 0 = ''0''" by code_simp
  note defs = echo_reply_def set_response_payload_def new_response_def encapsulated_header_str_def
    sort_encapsulated_header_def encapsulated_header_compare_def append_entity_def
    update_encapsulated_nat response_encapsulated init_encapsulated_sorted Let_def itoa0
  show "hdr \<noteq> [] \<Longrightarrow> d \<noteq> [] \<Longrightarrow> length hdr + length d < 2 ^ 31 \<Longrightarrow>
      encapsulated_header_str (r_header (echo_reply ev (reqmod_payload hdr d False))) =
      ''req-hdr=0, req-body='' @ itoa (int (length hdr))"
    by (simp add: reqmod_payload_def defs)
  show "hdr \<noteq> [] \<Longrightarrow> length hdr < 2 ^ 31 \<Longrightarrow>
      encapsulated_header_str (r_header (echo_reply ev (reqmod_payload hdr [] False))) =
      ''req-hdr=0, null-body='' @ itoa (int (length hdr))"
    by (simp add: reqmod_payload_def defs)
  show "rhdr \<noteq> [] \<Longrightarrow> d \<noteq> [] \<Longrightarrow> length rhdr + length d < 2 ^ 31 \<Longrightarrow>
      encapsulated_header_str (r_header (echo_reply ev (respmod_payload [] rhdr d False))) =
      ''res-hdr=0, res-body='' @ itoa (int (length rhdr))"
    by (simp add: respmod_payload_def defs)
  show "rhdr \<noteq> [] \<Longrightarrow> length rhdr < 2 ^ 31 \<Longrightarrow>
      encapsulated_header_str (r_header (echo_reply ev (respmod_payload [] rhdr [] False))) =
      ''res-hdr=0, null-body='' @ itoa (int (length rhdr))"
    by (simp add: respmod_payload_def defs)
qed

section \<open>The text of the responses\<close>

definition istag :: "clock \<Rightarrow> string" where
  "istag cl = trim (take 32 (''BITZ-'' @ itoa (cl_time cl) @ ''-'' @ itoa (cl_clock cl)))"

lemma response_headers:
  "h_headers (new_response_header cl st) =
    (if st = CONTINUE then [] else [(''Connection'', ''close'')]) @
    [(''Date'', trim (cl_date cl)), (''ISTag'', istag cl), (''Server'', trim (cl_package cl))]"
  by (simp add: new_response_header_def init_defaults_def update_timestamp_def generate_istag_def
      attach_def Let_def header.defs new_header_def istag_def substr_def)

text \<open>A response as the client sees it: status line, fields in the order of the map, Encapsulated.\<close>

definition reply :: "string \<Rightarrow> (string \<times> string) list \<Rightarrow> string \<Rightarrow> string \<Rightarrow> string" where
  "reply line hs enc body =
     lines_text (line # map (\<lambda>(k, v). k @ '': '' @ v) hs @ [''Encapsulated: '' @ enc]) @ CRLF @ body"

definition closing_fields :: "clock \<Rightarrow> (string \<times> string) list" where
  "closing_fields cl = [(''Connection'', ''close''), (''Date'', trim (cl_date cl)),
     (''ISTag'', istag cl), (''Server'', trim (cl_package cl))]"

lemma response_text_reply:
  "response_text rs = reply (status_line (r_header rs)) (h_headers (r_header rs))
    (encapsulated_header_str (r_header rs)) (payload_text (r_payload rs))"
proof -
  have "field_line = (\<lambda>(k, v). k @ '': '' @ v)" by (auto simp: field_line_def)
  moreover have "field_line (''Encapsulated'', e) = ''Encapsulated: '' @ e" for e
    by (simp add: field_line_def)
  ultimately show ?thesis by (simp add: response_text_def response_lines_def reply_def)
qed

lemma update_encapsulated_fields [simp]:
  "h_headers (update_encapsulated p h) = h_headers h"
  "sh_response (update_encapsulated p (rh :: response_header)) = sh_response rh"
  by (simp_all add: update_encapsulated_def split: prod.splits)

lemma status_line_new:
  "sh_response h = \<lparr>rs_protocol = ''ICAP/1.0'', rs_status = OK\<rparr> \<Longrightarrow> status_line h = ''ICAP/1.0 200 OK''"
  "sh_response h = \<lparr>rs_protocol = ''ICAP/1.0'', rs_status = CONTINUE\<rparr> \<Longrightarrow> status_line h = ''ICAP/1.0 100 Continue''"
  "sh_response h = \<lparr>rs_protocol = ''ICAP/1.0'', rs_status = NOT_ALLOWED\<rparr> \<Longrightarrow>
    status_line h = ''ICAP/1.0 405 Method not allowed for service''"
  "sh_response h = \<lparr>rs_protocol = ''ICAP/1.0'', rs_status = SERVER_ERROR\<rparr> \<Longrightarrow>
    status_line h = ''ICAP/1.0 500 Server error''"
  "sh_response h = \<lparr>rs_protocol = ''ICAP/1.0'', rs_status = NO_CONTENT\<rparr> \<Longrightarrow>
    status_line h = ''ICAP/1.0 204 No modifications needed''"
proof -
  have "itoa 200 = ''200''" "itoa 100 = ''100''" "itoa 405 = ''405''" "itoa 500 = ''500''" "itoa 204 = ''204''"
    by (simp_all add: itoa_def digit_char_def num_digits.simps char_of_eq_iff)
  then show "sh_response h = \<lparr>rs_protocol = ''ICAP/1.0'', rs_status = OK\<rparr> \<Longrightarrow> status_line h = ''ICAP/1.0 200 OK''"
    "sh_response h = \<lparr>rs_protocol = ''ICAP/1.0'', rs_status = CONTINUE\<rparr> \<Longrightarrow> status_line h = ''ICAP/1.0 100 Continue''"
    "sh_response h = \<lparr>rs_protocol = ''ICAP/1.0'', rs_status = NOT_ALLOWED\<rparr> \<Longrightarrow>
      status_line h = ''ICAP/1.0 405 Method not allowed for service''"
    "sh_response h = \<lparr>rs_protocol = ''ICAP/1.0'', rs_status = SERVER_ERROR\<rparr> \<Longrightarrow>
      status_line h = ''ICAP/1.0 500 Server error''"
    "sh_response h = \<lparr>rs_protocol = ''ICAP/1.0'', rs_status = NO_CONTENT\<rparr> \<Longrightarrow>
      status_line h = ''ICAP/1.0 204 No modifications needed''"
    by (simp_all add: status_line_def response_status_text status_text_def)
qed

lemma init_encapsulated_str:
  "h_encapsulated h = init_encapsulated \<Longrightarrow> encapsulated_header_str h = ''null-body=0''"
  by (simp add: encapsulated_header_str_def sort_encapsulated_header_def init_encapsulated_sorted
      encapsulated_header_compare_def append_entity_def Let_def)

lemma echo_reply_text:
  "response_text (echo_reply ev p) = reply ''ICAP/1.0 200 OK'' (closing_fields (e_clock ev))
    (encapsulated_header_str (r_header (echo_reply ev p))) (payload_text p)"
  by (simp add: response_text_reply echo_reply_def set_response_payload_def new_response_def
      response_headers closing_fields_def status_line_new response_header_fields(5) payload_text_def)

lemma new_response_text:
  "response_text (new_response cl j CONTINUE) = reply ''ICAP/1.0 100 Continue'' (tl (closing_fields cl)) ''null-body=0'' []"
  "response_text (new_response cl j SERVER_ERROR) = reply ''ICAP/1.0 500 Server error'' (closing_fields cl) ''null-body=0'' []"
  by (simp_all add: response_text_reply new_response_def response_headers closing_fields_def
      status_line_new response_header_fields(5) init_encapsulated_str response_encapsulated
      payload_text_def empty_payload_def sent_body_def)

lemma not_allowed_text:
  "response_text (not_allowed_response ev) =
    reply ''ICAP/1.0 405 Method not allowed for service'' (closing_fields (e_clock ev)) ''null-body=0'' []"
  by (simp add: response_text_reply not_allowed_response_def new_response_from_def response_headers
      closing_fields_def status_line_new response_header_fields(5) init_encapsulated_str
      response_encapsulated payload_text_def empty_payload_def sent_body_def)

lemma options_text:
  "response_text (options_response ev mth) =
    reply ''ICAP/1.0 200 OK''
      ((''Allow'', ''204'') # take 3 (closing_fields (e_clock ev)) @
        [(''Methods'', trim mth), (''Options-TTL'', ''3600''), (''Server'', trim (cl_package (e_clock ev)))])
      ''null-body=0'' []"
proof -
  have t: "trim ''Allow'' = ''Allow''" "trim ''204'' = ''204''" "trim ''Options-TTL'' = ''Options-TTL''"
      "trim ''3600'' = ''3600''"
    by (rule trim_id, simp add: trimmed_def is_space_def)+
  let ?h = "attach ''Allow'' ''204'' (attach ''Options-TTL'' ''3600''
         (attach ''Methods'' mth (new_response_header (e_clock ev) OK)))"
  have "h_headers ?h = (''Allow'', ''204'') # take 3 (closing_fields (e_clock ev)) @
        [(''Methods'', trim mth), (''Options-TTL'', ''3600''), (''Server'', trim (cl_package (e_clock ev)))]"
    by (simp add: attach_def t response_headers closing_fields_def Let_def)
  moreover have "status_line ?h = ''ICAP/1.0 200 OK''"
    by (simp add: status_line_new response_header_fields(5))
  moreover have "encapsulated_header_str ?h = ''null-body=0''"
    by (rule init_encapsulated_str) (simp add: attach_encapsulated_same t response_encapsulated)
  ultimately show ?thesis
    by (simp add: response_text_reply options_response_def new_response_from_def
        payload_text_def empty_payload_def sent_body_def)
qed

section \<open>The same responses on a connection that is kept\<close>

definition connection_fields :: "bool \<Rightarrow> clock \<Rightarrow> (string \<times> string) list" where
  "connection_fields ka cl =
     (''Connection'', if ka then ''keep-alive'' else ''close'') # tl (closing_fields cl)"

lemma closing_connection_fields: "closing_fields cl = connection_fields False cl"
  by (simp add: connection_fields_def closing_fields_def)

lemma with_connection_text:
  "response_text (with_connection ka rs) = reply (status_line (r_header rs))
    (if ka then smap_set ''Connection'' ''keep-alive'' (h_headers (r_header rs)) else h_headers (r_header rs))
    (encapsulated_header_str (r_header rs)) (payload_text (r_payload rs))"
proof -
  have t: "trim ''Connection'' = ''Connection''" "trim ''keep-alive'' = ''keep-alive''"
    by (rule trim_id, simp add: trimmed_def is_space_def)+
  show ?thesis
    by (simp add: with_connection_def response_text_reply attach_def t encapsulated_header_str_def
        sort_encapsulated_header_def status_line_def Let_def)
qed

lemma kept_echo_reply_text:
  "response_text (with_connection ka (echo_reply ev p)) =
    reply ''ICAP/1.0 200 OK'' (connection_fields ka (e_clock ev))
      (encapsulated_header_str (r_header (echo_reply ev p))) (payload_text p)"
  by (simp add: with_connection_text echo_reply_def set_response_payload_def new_response_def
      response_headers connection_fields_def closing_fields_def status_line_new
      response_header_fields(5) payload_text_def)

lemma kept_bare_text:
  "response_text (with_connection ka (new_response cl j SERVER_ERROR)) =
    reply ''ICAP/1.0 500 Server error'' (connection_fields ka cl) ''null-body=0'' []"
  "response_text (with_connection ka (new_response cl j NO_CONTENT)) =
    reply ''ICAP/1.0 204 No modifications needed'' (connection_fields ka cl) ''null-body=0'' []"
  by (simp_all add: with_connection_text new_response_def response_headers connection_fields_def
      closing_fields_def status_line_new response_header_fields(5) init_encapsulated_str
      response_encapsulated payload_text_def empty_payload_def sent_body_def)

lemma kept_not_allowed_text:
  "response_text (with_connection ka (not_allowed_response ev)) =
    reply ''ICAP/1.0 405 Method not allowed for service'' (connection_fields ka (e_clock ev)) ''null-body=0'' []"
  by (simp add: with_connection_text not_allowed_response_def new_response_from_def response_headers
      connection_fields_def closing_fields_def status_line_new response_header_fields(5)
      init_encapsulated_str response_encapsulated payload_text_def empty_payload_def sent_body_def)

text \<open>The fields of an OPTIONS response.\<close>

definition options_fields :: "bool \<Rightarrow> clock \<Rightarrow> (string \<times> string) list" where
  "options_fields ka cl = (''Allow'', ''204'') # take 3 (connection_fields ka cl) @
     [(''Methods'', ''REQMOD''), (''Options-TTL'', ''3600''), (''Server'', trim (cl_package cl))]"

lemma kept_options_text:
  "response_text (with_connection ka (options_response ev ''REQMOD'')) =
    reply ''ICAP/1.0 200 OK'' (options_fields ka (e_clock ev)) ''null-body=0'' []"
proof -
  have t: "trim ''Allow'' = ''Allow''" "trim ''204'' = ''204''" "trim ''Options-TTL'' = ''Options-TTL''"
      "trim ''3600'' = ''3600''" "trim ''REQMOD'' = ''REQMOD''"
    by (rule trim_id, simp add: trimmed_def is_space_def)+
  let ?h = "attach ''Allow'' ''204'' (attach ''Options-TTL'' ''3600''
         (attach ''Methods'' ''REQMOD'' (new_response_header (e_clock ev) OK)))"
  have "(if ka then smap_set ''Connection'' ''keep-alive'' (h_headers ?h) else h_headers ?h) =
      options_fields ka (e_clock ev)"
    by (simp add: attach_def t response_headers connection_fields_def closing_fields_def
        options_fields_def Let_def)
  moreover have "status_line ?h = ''ICAP/1.0 200 OK''"
    by (simp add: status_line_new response_header_fields(5))
  moreover have "encapsulated_header_str ?h = ''null-body=0''"
    by (rule init_encapsulated_str) (simp add: attach_encapsulated_same t response_encapsulated)
  moreover have "r_header (options_response ev ''REQMOD'') = ?h"
      "payload_text (r_payload (options_response ev ''REQMOD'')) = []"
    by (simp_all add: options_response_def new_response_from_def payload_text_def empty_payload_def sent_body_def)
  ultimately show ?thesis by (simp only: with_connection_text)
qed

end
