(* ===== verification/Session.thy ===== *)
theory Session
  imports Service
begin

text \<open>
  A client's whole session: several requests written one behind the other on a connection that
  is kept. What the client sees is given by an abstract function of the requests alone; it is
  shown that \<open>Worker::serve_client\<close> implements it, byte by byte.
\<close>

section \<open>The requests of a client\<close>

type_synonym body = "wire_chunk list \<times> string \<times> string"

text \<open>What follows the ICAP header; the last preview is one that holds the whole body.\<close>

datatype content =
    Header_only "encapsulated_header_data_t list"
  | Reqmod_bodyless string
  | Reqmod string body
  | Reqmod_preview string body body
  | Reqmod_whole_preview string body
  | Respmod string string body

record client_request =
  cr_line :: request_t
  cr_fields :: "(string \<times> string) list"
  cr_content :: content

definition body_bytes :: "body \<Rightarrow> string" where
  "body_bytes b = (case b of (cs, hx, ext) \<Rightarrow> body_text cs hx ext)"

definition body_data :: "body \<Rightarrow> string" where
  "body_data b = chunk_data (fst b)"

definition body_valid :: "body \<Rightarrow> bool" where
  "body_valid b \<longleftrightarrow> (case b of (cs, hx, ext) \<Rightarrow> body_ok cs hx ext)"

definition says_ieof :: "body \<Rightarrow> bool" where
  "says_ieof b \<longleftrightarrow> chunk_extension (snd (snd b)) = ''ieof''"

lemma body_simps [simp]:
  "body_bytes (cs, hx, ext) = body_text cs hx ext" "body_data (cs, hx, ext) = chunk_data cs"
  "body_valid (cs, hx, ext) = body_ok cs hx ext" "says_ieof (cs, hx, ext) = (chunk_extension ext = ''ieof'')"
  by (simp_all add: body_bytes_def body_data_def body_valid_def says_ieof_def)

fun content_entities :: "content \<Rightarrow> encapsulated_header_data_t list" where
  "content_entities (Header_only es) = es"
| "content_entities (Reqmod_bodyless hdr) = bodyless_entities hdr"
| "content_entities (Reqmod hdr _) = reqmod_entities hdr"
| "content_entities (Reqmod_preview hdr _ _) = reqmod_entities hdr"
| "content_entities (Reqmod_whole_preview hdr _) = reqmod_entities hdr"
| "content_entities (Respmod hdr rhdr _) = respmod_entities hdr rhdr"

fun content_bytes :: "content \<Rightarrow> string" where
  "content_bytes (Header_only _) = []"
| "content_bytes (Reqmod_bodyless hdr) = hdr"
| "content_bytes (Reqmod hdr b) = hdr @ body_bytes b"
| "content_bytes (Reqmod_preview hdr b b') = hdr @ body_bytes b @ body_bytes b'"
| "content_bytes (Reqmod_whole_preview hdr b) = hdr @ body_bytes b"
| "content_bytes (Respmod hdr rhdr b) = hdr @ rhdr @ body_bytes b"

definition request_bytes :: "client_request \<Rightarrow> string" where
  "request_bytes r =
     request_head (cr_line r) (cr_fields r) (content_entities (cr_content r)) @ content_bytes (cr_content r)"

definition preview_field :: "client_request \<Rightarrow> string option" where
  "preview_field r = map_of (rev (cr_fields r)) ''Preview''"

definition announces_preview :: "client_request \<Rightarrow> bool" where
  "announces_preview r \<longleftrightarrow> (\<exists>v. preview_field r = Some v \<and> v \<noteq> [] \<and> 0 \<le> atoi v)"

definition cr_method :: "client_request \<Rightarrow> string" where
  "cr_method r = rq_method (cr_line r)"

text \<open>
  A request is well formed: its header can be parsed, the content agrees with the method and
  the fields, and it is of a size whose offsets fit an \<open>int\<close>.
\<close>

fun content_valid :: "client_request \<Rightarrow> content \<Rightarrow> bool" where
  "content_valid r (Header_only _) \<longleftrightarrow> cr_method r \<notin> {''REQMOD'', ''RESPMOD''}"
| "content_valid r (Reqmod_bodyless hdr) \<longleftrightarrow> cr_method r = ''REQMOD'' \<and> preview_field r = None \<and>
     hdr \<noteq> [] \<and> length hdr < 2 ^ 31"
| "content_valid r (Reqmod hdr b) \<longleftrightarrow> cr_method r = ''REQMOD'' \<and> preview_field r = None \<and>
     hdr \<noteq> [] \<and> body_valid b \<and> length hdr + length (body_data b) < 2 ^ 31"
| "content_valid r (Reqmod_preview hdr b b') \<longleftrightarrow> cr_method r = ''REQMOD'' \<and> announces_preview r \<and>
     hdr \<noteq> [] \<and> body_valid b \<and> \<not> says_ieof b \<and> body_valid b' \<and>
     length hdr + length (body_data b) + length (body_data b') < 2 ^ 31"
| "content_valid r (Reqmod_whole_preview hdr b) \<longleftrightarrow> cr_method r = ''REQMOD'' \<and> announces_preview r \<and>
     hdr \<noteq> [] \<and> body_valid b \<and> says_ieof b"
| "content_valid r (Respmod hdr rhdr b) \<longleftrightarrow> cr_method r = ''RESPMOD'' \<and> preview_field r = None \<and>
     hdr \<noteq> [] \<and> rhdr \<noteq> [] \<and> body_valid b \<and> length rhdr + length (body_data b) < 2 ^ 31"

definition well_formed :: "client_request \<Rightarrow> bool" where
  "well_formed r \<longleftrightarrow>
     request_ok (cr_line r) (cr_fields r) (content_entities (cr_content r)) \<and>
     content_valid r (cr_content r)"

definition keeps_connection :: "client_request \<Rightarrow> bool" where
  "keeps_connection r = keeps (cr_fields r)"

section \<open>What the client sees\<close>

text \<open>The Encapsulated field and the text of an echoed message.\<close>

definition echo_fields :: "string \<Rightarrow> string \<Rightarrow> string \<Rightarrow> string" where
  "echo_fields kind hdr d = kind @ ''-hdr=0, '' @
     (if d = [] then ''null-body='' else kind @ ''-body='') @ itoa (int (length hdr))"

definition echo_text :: "bool \<Rightarrow> clock \<Rightarrow> string \<Rightarrow> string \<Rightarrow> string \<Rightarrow> string" where
  "echo_text ka cl kind hdr d =
     reply ''ICAP/1.0 200 OK'' (connection_fields ka cl) (echo_fields kind hdr d) (hdr @ sent_body d)"

text \<open>
  The answer to one request, and the world after it. OPTIONS names REQMOD; any other method
  without a handler gets a 405; a preview asks the module twice.
\<close>

fun answer :: "'w tick \<Rightarrow> module \<Rightarrow> client_request \<Rightarrow> content \<Rightarrow> 'w \<Rightarrow> string \<times> 'w" where
  "answer tick md r (Header_only _) w =
     (case tick w of (ev, w') \<Rightarrow>
        (if cr_method r = ''OPTIONS''
         then reply ''ICAP/1.0 200 OK'' (options_fields (keeps_connection r) (e_clock ev)) ''null-body=0'' []
         else reply ''ICAP/1.0 405 Method not allowed for service''
           (connection_fields (keeps_connection r) (e_clock ev)) ''null-body=0'' [], w'))"
| "answer tick md r (Reqmod_bodyless hdr) w =
     (case tick w of (ev, w') \<Rightarrow> (echo_text (keeps_connection r) (e_clock ev) ''req'' hdr [], w'))"
| "answer tick md r (Reqmod hdr b) w =
     (case tick w of (ev, w') \<Rightarrow> (echo_text (keeps_connection r) (e_clock ev) ''req'' hdr (body_data b), w'))"
| "answer tick md r (Reqmod_preview hdr b b') w =
     (case tick w of (ev, w') \<Rightarrow> case tick w' of (ev', w'') \<Rightarrow>
        (reply ''ICAP/1.0 100 Continue'' (tl (closing_fields (e_clock ev))) ''null-body=0'' [] @
         echo_text (keeps_connection r) (e_clock ev') ''req'' hdr (body_data b @ body_data b'), w''))"
| "answer tick md r (Reqmod_whole_preview hdr b) w =
     (case tick w of (ev, w') \<Rightarrow>
        case md of
          Echo \<Rightarrow>
            (case tick w' of (ev', w'') \<Rightarrow>
               (reply ''ICAP/1.0 500 Server error'' (connection_fields (keeps_connection r) (e_clock ev'))
                  ''null-body=0'' [], w''))
        | Script \<Rightarrow>
            (reply ''ICAP/1.0 204 No modifications needed'' (connection_fields (keeps_connection r) (e_clock ev))
               ''null-body=0'' [], w'))"
| "answer tick md r (Respmod hdr rhdr b) w =
     (case tick w of (ev, w') \<Rightarrow> (echo_text (keeps_connection r) (e_clock ev) ''res'' rhdr (body_data b), w'))"

text \<open>
  A session: requests are answered in order, until one does not keep the connection or the
  counter of the worker runs out. The result: the text written, whether the session was ended,
  the requests not served, the counter, the world.
\<close>

fun session :: "'w tick \<Rightarrow> module \<Rightarrow> client_request list \<Rightarrow> u32 \<Rightarrow> 'w \<Rightarrow>
    string \<times> bool \<times> client_request list \<times> u32 \<times> 'w" where
  "session tick md [] m w = ([], False, [], m, w)"
| "session tick md (r # rs) m w =
     (case answer tick md r (cr_content r) w of
        (text, w') \<Rightarrow>
          if 0 < m - 1 \<and> keeps_connection r
          then (case session tick md rs (m - 1) w' of (t, e, us, m', w'') \<Rightarrow> (text @ t, e, us, m', w''))
          else (text, True, rs, m - 1, w'))"

lemma session_unserved: "session tick md rs m w = (out, False, us, m', w') \<Longrightarrow> us = []"
  by (induction rs arbitrary: m w out) (auto split: prod.splits if_splits)

section \<open>The table of handlers with a module\<close>

definition module_table :: "'w tick \<Rightarrow> module \<Rightarrow> 'w req_handlers \<Rightarrow> bool" where
  "module_table tick md hs \<longleftrightarrow>
     (\<exists>oh. find_req_handler hs ''OPTIONS'' = Some (Options_handler oh) \<and> hd_methods oh = [''REQMOD'', ''RESPMOD'']) \<and>
     (\<forall>mth\<in>{''REQMOD'', ''RESPMOD''}. \<exists>rh. find_req_handler hs mth = Some (Mod_handler rh) \<and> serves_as tick md rh) \<and>
     (\<forall>mth. mth \<notin> {''OPTIONS'', ''REQMOD'', ''RESPMOD''} \<longrightarrow> find_req_handler hs mth = None)"

section \<open>One request\<close>

lemma echo_reply_fields:
  assumes "hdr \<noteq> []" and "length hdr + length d < 2 ^ 31"
  shows "response_text (with_connection ka (echo_reply ev (reqmod_payload hdr d False))) =
      echo_text ka (e_clock ev) ''req'' hdr d"
    and "response_text (with_connection ka (echo_reply ev (respmod_payload [] hdr d False))) =
      echo_text ka (e_clock ev) ''res'' hdr d"
  using assms echo_reply_encapsulated(1) [of hdr d ev] echo_reply_encapsulated(2) [of hdr ev]
    echo_reply_encapsulated(3) [of hdr d ev] echo_reply_encapsulated(4) [of hdr ev]
  by (auto simp: kept_echo_reply_text echo_text_def echo_fields_def payload_text_def
      reqmod_payload_def respmod_payload_def sent_body_def)

text \<open>What is to be shown of a request: it is answered, with the bytes of the specification.\<close>

definition answered_as :: "'w tick \<Rightarrow> 'w req_handlers \<Rightarrow> client_request \<Rightarrow> string \<Rightarrow> 'w \<Rightarrow> 'w \<Rightarrow> bool" where
  "answered_as tick hs r text w w' \<longleftrightarrow>
     (\<exists>interim rs. answered tick hs (keeps_connection r) (request_bytes r) interim rs w w' \<and>
        interim @ response_text (with_connection (keeps_connection r) rs) = text)"

lemma answered_asI:
  assumes "answered tick hs (keeps (cr_fields r)) (request_bytes r) interim rs w w'"
    and "interim @ response_text (with_connection (keeps_connection r) rs) = text"
  shows "answered_as tick hs r text w w'"
  using assms unfolding answered_as_def keeps_connection_def by blast

lemma header_only_as:
  assumes "module_table tick md hs" and "well_formed r" and "cr_content r = Header_only es" and "tick w = (ev, w1)"
  shows "answered_as tick hs r (fst (answer tick md r (cr_content r) w)) w w1"
proof -
  have ok: "request_ok (cr_line r) (cr_fields r) es" using assms(2,3) by (simp add: well_formed_def)
  have b: "request_bytes r = request_head (cr_line r) (cr_fields r) es"
    using assms(3) by (simp add: request_bytes_def)
  show ?thesis
  proof (cases "cr_method r = ''OPTIONS''")
    case True
    obtain oh where oh: "find_req_handler hs ''OPTIONS'' = Some (Options_handler oh)"
        "hd_methods oh = [''REQMOD'', ''RESPMOD'']"
      using assms(1) by (auto simp: module_table_def)
    show ?thesis
      by (rule answered_asI [where interim = "[]" and rs = "options_response ev ''REQMOD''"])
        (use options_answered_by [where tick = tick and w = w and rq = "cr_line r", OF ok _ oh assms(4)] b True assms(3,4)
          in \<open>simp_all add: cr_method_def kept_options_text\<close>)
  next
    case False
    have "cr_method r \<notin> {''REQMOD'', ''RESPMOD''}" using assms(2,3) by (simp add: well_formed_def)
    with False assms(1) have n: "find_req_handler hs (rq_method (cr_line r)) = None"
      by (simp add: module_table_def cr_method_def)
    show ?thesis
      by (rule answered_asI [where interim = "[]" and rs = "not_allowed_response ev"])
        (use unknown_answered [where tick = tick and w = w, OF ok n assms(4)] b False assms(3,4)
          in \<open>simp_all add: cr_method_def kept_not_allowed_text\<close>)
  qed
qed

lemma module_table_reqmod:
  assumes "module_table tick md hs"
  obtains rh where "find_req_handler hs ''REQMOD'' = Some (Mod_handler rh)" and "serves_as tick md rh"
  using assms by (auto simp: module_table_def)

lemma module_table_respmod:
  assumes "module_table tick md hs"
  obtains rh where "find_req_handler hs ''RESPMOD'' = Some (Mod_handler rh)" and "serves_as tick md rh"
  using assms by (auto simp: module_table_def)

lemma bodyless_as:
  assumes "module_table tick md hs" and "well_formed r" and c: "cr_content r = Reqmod_bodyless hdr"
    and t: "tick w = (ev, w1)"
  shows "answered_as tick hs r (fst (answer tick md r (cr_content r) w)) w w1"
proof -
  obtain rh where rh: "find_req_handler hs ''REQMOD'' = Some (Mod_handler rh)" "serves_as tick md rh"
    by (rule module_table_reqmod [OF assms(1)])
  have v: "content_valid r (Reqmod_bodyless hdr)" "request_ok (cr_line r) (cr_fields r) (bodyless_entities hdr)"
    using assms(2) c by (simp_all add: well_formed_def)
  show ?thesis
    by (rule answered_asI [where interim = "[]" and rs = "echo_reply (module_env md ev) (reqmod_payload hdr [] False)"])
      (use v c t rh bodyless_answered [where tick = tick and w = w and rq = "cr_line r" and hs = hs and rh = rh, OF v(2)]
        echo_reply_fields(1) [of hdr "[]"]
        in \<open>simp_all add: request_bytes_def cr_method_def preview_field_def\<close>)
qed

lemma reqmod_as:
  assumes "module_table tick md hs" and "well_formed r" and c: "cr_content r = Reqmod hdr b"
    and t: "tick w = (ev, w1)"
  shows "answered_as tick hs r (fst (answer tick md r (cr_content r) w)) w w1"
proof -
  obtain cs hx ext where b: "b = (cs, hx, ext)" by (cases b)
  obtain rh where rh: "find_req_handler hs ''REQMOD'' = Some (Mod_handler rh)" "serves_as tick md rh"
    by (rule module_table_reqmod [OF assms(1)])
  have v: "content_valid r (Reqmod hdr b)" "request_ok (cr_line r) (cr_fields r) (reqmod_entities hdr)"
    using assms(2) c by (simp_all add: well_formed_def)
  show ?thesis
    by (rule answered_asI [where interim = "[]" and rs = "echo_reply (module_env md ev) (reqmod_payload hdr (chunk_data cs) False)"])
      (use v c t rh b reqmod_answered [where tick = tick and w = w and rq = "cr_line r" and hs = hs and rh = rh, OF v(2)]
        echo_reply_fields(1) [of hdr "chunk_data cs"]
        in \<open>simp_all add: request_bytes_def cr_method_def preview_field_def\<close>)
qed

lemma respmod_as:
  assumes "module_table tick md hs" and "well_formed r" and c: "cr_content r = Respmod hdr rhdr b"
    and t: "tick w = (ev, w1)"
  shows "answered_as tick hs r (fst (answer tick md r (cr_content r) w)) w w1"
proof -
  obtain cs hx ext where b: "b = (cs, hx, ext)" by (cases b)
  obtain rh where rh: "find_req_handler hs ''RESPMOD'' = Some (Mod_handler rh)" "serves_as tick md rh"
    by (rule module_table_respmod [OF assms(1)])
  have v: "content_valid r (Respmod hdr rhdr b)" "request_ok (cr_line r) (cr_fields r) (respmod_entities hdr rhdr)"
    using assms(2) c by (simp_all add: well_formed_def)
  show ?thesis
    by (rule answered_asI [where interim = "[]" and rs = "echo_reply (module_env md ev) (respmod_payload [] rhdr (chunk_data cs) False)"])
      (use v c t rh b respmod_answered [where tick = tick and w = w and rq = "cr_line r" and hs = hs and rh = rh, OF v(2)]
        echo_reply_fields(2) [of rhdr "chunk_data cs"]
        in \<open>simp_all add: request_bytes_def cr_method_def preview_field_def\<close>)
qed

lemma preview_as:
  assumes "module_table tick md hs" and "well_formed r" and c: "cr_content r = Reqmod_preview hdr b b'"
    and t: "tick w = (ev, w1)" and t': "tick w1 = (ev', w2)"
  shows "answered_as tick hs r (fst (answer tick md r (cr_content r) w)) w w2"
proof -
  obtain cs hx ext cs' hx' ext' where b: "b = (cs, hx, ext)" "b' = (cs', hx', ext')" by (cases b, cases b')
  obtain rh where rh: "find_req_handler hs ''REQMOD'' = Some (Mod_handler rh)" "serves_as tick md rh"
    by (rule module_table_reqmod [OF assms(1)])
  have v: "content_valid r (Reqmod_preview hdr b b')" "request_ok (cr_line r) (cr_fields r) (reqmod_entities hdr)"
    using assms(2) c by (simp_all add: well_formed_def)
  then obtain v0 where v0: "map_of (rev (cr_fields r)) ''Preview'' = Some v0" "v0 \<noteq> []" "0 \<le> atoi v0"
    by (auto simp: announces_preview_def preview_field_def)
  show ?thesis
    by (rule answered_asI [where interim = "response_text (new_response (e_clock ev) (e_junk ev) CONTINUE)"
          and rs = "echo_reply (module_env md ev') (reqmod_payload hdr (chunk_data cs @ chunk_data cs') False)"])
      (use v c t t' rh b v0 preview_answered [where tick = tick and w = w and rq = "cr_line r" and hs = hs
          and rh = rh and kvs = "cr_fields r", OF v(2)]
        echo_reply_fields(1) [of hdr "chunk_data cs @ chunk_data cs'"]
        in \<open>simp_all add: request_bytes_def cr_method_def new_response_text\<close>)
qed

lemma whole_preview_as:
  assumes "module_table tick md hs" and "well_formed r" and c: "cr_content r = Reqmod_whole_preview hdr b"
    and a: "answer tick md r (cr_content r) w = (text, w')"
  shows "answered_as tick hs r text w w'"
proof -
  obtain cs hx ext where b: "b = (cs, hx, ext)" by (cases b)
  obtain rh where rh: "find_req_handler hs ''REQMOD'' = Some (Mod_handler rh)" "serves_as tick md rh"
    by (rule module_table_reqmod [OF assms(1)])
  have v: "content_valid r (Reqmod_whole_preview hdr b)" "request_ok (cr_line r) (cr_fields r) (reqmod_entities hdr)"
    using assms(2) c by (simp_all add: well_formed_def)
  then obtain v0 where v0: "map_of (rev (cr_fields r)) ''Preview'' = Some v0" "v0 \<noteq> []" "0 \<le> atoi v0"
    by (auto simp: announces_preview_def preview_field_def)
  obtain rs where rs: "whole_reply tick md w = (rs, w')"
      "response_text (with_connection (keeps_connection r) rs) = text"
    using a c by (auto simp: whole_reply_def server_error_def kept_bare_text split: module.splits prod.splits)
  show ?thesis
    by (rule answered_asI [where interim = "[]" and rs = rs])
      (use v c rh b v0 rs ieof_answered [where tick = tick and w = w and rq = "cr_line r" and hs = hs
          and rh = rh and kvs = "cr_fields r" and md = md, OF v(2)]
        in \<open>simp_all add: request_bytes_def cr_method_def\<close>)
qed

lemma request_answered:
  assumes "module_table tick md hs" and "well_formed r" and "answer tick md r (cr_content r) w = (text, w')"
  shows "answered_as tick hs r text w w'"
proof -
  obtain ev w1 where t: "tick w = (ev, w1)" by fastforce
  obtain ev' w2 where t': "tick w1 = (ev', w2)" by fastforce
  show ?thesis
    using assms(3) header_only_as [OF assms(1,2) _ t] bodyless_as [OF assms(1,2) _ t]
      reqmod_as [OF assms(1,2) _ t] respmod_as [OF assms(1,2) _ t] preview_as [OF assms(1,2) _ t t']
      whole_preview_as [OF assms(1,2) _ assms(3)] t t'
    by (cases "cr_content r") auto
qed

section \<open>The whole session\<close>

text \<open>
  The server implements the specification: it writes the specified text, leaves exactly the
  bytes of the requests that were not served, and stops if and only if the session was ended;
  otherwise it goes on with what follows.
\<close>

lemma session_steps:
  assumes "module_table tick md hs" and "\<forall>r\<in>set rs. well_formed r" and "live s"
    and "s_in s = concat (map request_bytes rs) @ rest" and "session tick md rs m w = (out, e, us, m', w')"
  shows "\<exists>s'. live s' \<and> s_in s' = concat (map request_bytes us) @ rest \<and> s_out s' = s_out s @ out \<and>
    serve_client tick hs s m w = (if e then Some (m', s', w') else serve_client tick hs s' m' w')"
  using assms
proof (induction rs arbitrary: s m w out)
  case Nil
  then show ?case by auto
next
  case (Cons r rs)
  obtain t1 w1 where a: "answer tick md r (cr_content r) w = (t1, w1)" by fastforce
  have "well_formed r" using Cons.prems(2) by simp
  from request_answered [OF Cons.prems(1) this a]
  obtain interim rsp where an: "answered tick hs (keeps_connection r) (request_bytes r) interim rsp w w1"
      and tx: "interim @ response_text (with_connection (keeps_connection r) rsp) = t1"
    by (auto simp: answered_as_def)
  have "s_in s = request_bytes r @ concat (map request_bytes rs) @ rest" using Cons.prems(4) by simp
  then obtain s1 where s1: "live s1" "s_in s1 = concat (map request_bytes rs) @ rest"
      "s_out s1 = s_out s @ interim @ response_text (with_connection (keeps_connection r) rsp)"
      and st: "serve_client tick hs s m w = (if 0 < m - 1 \<and> keeps_connection r
        then serve_client tick hs s1 (m - 1) w1 else Some (m - 1, s1, w1))"
    by (rule exchange_step [OF an Cons.prems(3)])
  show ?case
  proof (cases "0 < m - 1 \<and> keeps_connection r")
    case True
    obtain t2 where t2: "session tick md rs (m - 1) w1 = (t2, e, us, m', w')" "out = t1 @ t2"
      using Cons.prems(5) a True by (auto split: prod.splits)
    have "\<forall>r\<in>set rs. well_formed r" using Cons.prems(2) by simp
    from Cons.IH [OF Cons.prems(1) this s1(1,2) t2(1)] show ?thesis
      using s1(3) tx t2(2) st True by auto
  next
    case False
    with Cons.prems(5) a have "out = t1" "e" "us = rs" "m' = m - 1" "w' = w1" by auto
    with s1 tx st False show ?thesis by auto
  qed
qed

section \<open>The end of the input\<close>

text \<open>
  A client that is gone, or silent until the timeout, is answered with nothing. Without a timeout
  the empty header is taken for a request of the method with the empty name, whose answer the
  stream does not take any more; the connection is over, and one request was counted.
\<close>

lemma read_req_header_end:
  assumes "live s" and "s_in s = []"
  shows "read_req_header s =
    (new_request_header [], s\<lparr>s_gcount := 0, s_good := False, s_timedout := s_tmo s\<rparr>)"
proof -
  have g: "sock_get s = (None, s\<lparr>s_gcount := 0, s_good := False, s_timedout := s_tmo s\<rparr>)"
    using assms by (simp add: sock_get_def live_def calm_good)
  have "read_line_buf ICAP_BUFFER_SIZE True s =
      ((0, []), s\<lparr>s_gcount := 0, s_good := False, s_timedout := s_tmo s\<rparr>)"
    using g by (simp add: read_line_buf_def read_line_buf_loop.simps [of _ _ _ _ s] ICAP_BUFFER_SIZE_def)
  then show ?thesis by (simp add: read_req_header_def read_header_lines.simps [of _ s])
qed

lemma send_response_closed:
  assumes "\<not> s_good s"
  obtains ok s' where "send_response rs s = (ok, s')" and "s_out s' = s_out s" and "s_in s' = s_in s"
proof -
  obtain ok s' where r: "send_response rs s = (ok, s')" by fastforce
  then have "emitted s s'" using sresp.emits [of s rs] by simp
  with assms r that show thesis by (auto simp: emitted_def)
qed

lemma client_gone:
  assumes "module_table tick md hs" and "live s" and "s_in s = []"
  obtains s' w' where "serve_client tick hs s m w = Some (m - 1, s', w')" and "s_out s' = s_out s"
    and "s_in s' = []" and "w' \<in> {w, snd (tick w)}"
proof -
  let ?s1 = "s\<lparr>s_gcount := 0, s_good := False, s_timedout := s_tmo s\<rparr>"
  let ?h = "new_request_header []"
  note r = read_req_header_end [OF assms(2,3)]
  show thesis
  proof (cases "s_tmo s")
    case True
    with r have "serve_client tick hs s m w = Some (m - 1, ?s1, w)"
      by (intro serve_client_timeout) simp_all
    with assms(3) that show thesis by simp
  next
    case False
    have h: "method_of ?h = []" "\<not> keep_alive ?h" by code_simp+
    have "find_req_handler hs [] = None" using assms(1) by (simp add: module_table_def)
    then obtain rs where rs: "respond tick hs ?h ?s1 w = Some ((rs, ?h), ?s1, snd (tick w))"
      using h(1) by (cases "tick w") (simp add: respond_def not_allowed_def)
    obtain ok s2 where s2: "send_response (set_connection ?h rs) ?s1 = (ok, s2)" "s_out s2 = s_out s"
        "s_in s2 = []"
      by (rule send_response_closed [of ?s1]) (use assms(3) in auto)
    from serve_client_step [OF r _ rs s2(1), of m] h(2) False s2(2,3) that show thesis by simp
  qed
qed

text \<open>A whole connection: the requests of the session, and then nothing more.\<close>

lemma connection_steps:
  assumes "module_table tick md hs" and "\<forall>r\<in>set rs. well_formed r" and "live s"
    and "s_in s = concat (map request_bytes rs)" and "session tick md rs m w = (out, e, us, m', w')"
  shows "\<exists>s' w''. serve_client tick hs s m w = Some (if e then m' else m' - 1, s', w'') \<and>
    s_in s' = concat (map request_bytes us) \<and> s_out s' = s_out s @ out \<and>
    w'' \<in> (if e then {w'} else {w', snd (tick w')})"
proof -
  from session_steps [OF assms(1-3) _ assms(5), of "[]"] assms(4) obtain s1 where
    s1: "live s1" "s_in s1 = concat (map request_bytes us)" "s_out s1 = s_out s @ out"
      "serve_client tick hs s m w = (if e then Some (m', s1, w') else serve_client tick hs s1 m' w')"
    by auto
  show ?thesis
  proof (cases e)
    case True
    with s1 show ?thesis by auto
  next
    case False
    then have "us = []" using session_unserved [of tick md rs m w out us m' w'] assms(5) by simp
    with s1(2) have "s_in s1 = []" by simp
    from client_gone [OF assms(1) s1(1) this, of m' w'] obtain s' w'' where
      "serve_client tick hs s1 m' w' = Some (m' - 1, s', w'')" "s_out s' = s_out s1" "s_in s' = []"
      "w'' \<in> {w', snd (tick w')}" .
    with s1 \<open>us = []\<close> False show ?thesis by auto
  qed
qed

end
