(* ===== verification/Modpy.thy ===== *)
theory Modpy
  imports Config Modifier
begin

text \<open>
  The module \<open>modules/modpy\<close>, which answers through a Python module: the modifier \<open>Py\<close>
  (\<open>py.cpp\<close>) and the functions of the Python module \<open>bitz\<close> (\<open>interface.cpp\<close>). The interpreter
  is not under the repository: the interface module it imports is an argument, with what its
  functions return. A run that releases or reads a null or unset object is None. The
  references are the theory \<open>PyRefs\<close>'s; a response capsule handed back twice is not modelled.
\<close>

section \<open>The Python module bitz\<close>

datatype pyval =
    Py_string string
  | Py_int int
  | Py_bool bool
  | Py_dict "string \<Rightarrow> pyval option"
  | Py_other

text \<open>\<open>PyString_FromString\<close> of a \<open>c_str()\<close> ends at the first null byte.\<close>

definition c_str :: "string \<Rightarrow> string" where
  "c_str s = takeWhile (\<lambda>c. c \<noteq> CHR 0x00) s"

text \<open>None: the capsule holds no pointer of the name \<open>request\<close>.\<close>

definition bitz_get_request :: "request option \<Rightarrow> pyval" where
  "bitz_get_request p =
     (case p of
        None \<Rightarrow> Py_dict Map.empty
      | Some request \<Rightarrow>
          let pypayload =
            [''req_header'' \<mapsto> Py_string (req_header (q_payload request)),
             ''req_body'' \<mapsto> Py_string (req_body (q_payload request)),
             ''res_header'' \<mapsto> Py_string (res_header (q_payload request)),
             ''res_body'' \<mapsto> Py_string (res_body (q_payload request)),
             ''ieof'' \<mapsto> Py_bool (ieof (q_payload request))]
          in Py_dict
            [''request'' \<mapsto> Py_string (c_str (method_of (q_header request))),
             ''uri'' \<mapsto> Py_string (c_str (uri (q_header request))),
             ''protocol'' \<mapsto> Py_string (c_str (protocol (q_header request))),
             ''payload'' \<mapsto> Py_dict pypayload])"

text \<open>The format \<open>I\<close> of \<open>PyArg_ParseTuple\<close>: an integer, reduced to an \<open>unsigned int\<close>.\<close>

definition parse_unsigned :: "pyval \<Rightarrow> u32 option" where
  "parse_unsigned v =
     (case v of
        Py_int n \<Rightarrow> Some (of_int n)
      | Py_bool b \<Rightarrow> Some (if b then 1 else 0)
      | _ \<Rightarrow> None)"

text \<open>The cast of an \<open>unsigned int\<close> to \<open>status_t\<close>.\<close>

definition status_of_unsigned :: "u32 \<Rightarrow> status_t" where
  "status_of_unsigned n = status_of_code (sint n)"

definition bitz_get_response_from_status :: "env_t \<Rightarrow> pyval list \<Rightarrow> response" where
  "bitz_get_response_from_status ev args =
     (case args of
        [st] \<Rightarrow>
          (case parse_unsigned st of
             Some resp_status \<Rightarrow> new_response (e_clock ev) (e_junk ev) (status_of_unsigned resp_status)
           | None \<Rightarrow> new_response (e_clock ev) (e_junk ev) SERVER_ERROR)
      | _ \<Rightarrow> new_response (e_clock ev) (e_junk ev) SERVER_ERROR)"

text \<open>
  A string copied out of the dictionary; without the key, or with another type, the buffer the
  copy reads from is not set.
\<close>

definition dict_string :: "(string \<Rightarrow> pyval option) \<Rightarrow> string \<Rightarrow> string option" where
  "dict_string d k = (case d k of Some (Py_string s) \<Rightarrow> Some s | _ \<Rightarrow> None)"

text \<open>\<open>PyBool_Check\<close> asks whether the object is a bool, not whether it is true.\<close>

definition py_bool_check :: "pyval \<Rightarrow> bool" where
  "py_bool_check v = (case v of Py_bool _ \<Rightarrow> True | _ \<Rightarrow> False)"

definition bitz_get_response :: "env_t \<Rightarrow> pyval list \<Rightarrow> response option" where
  "bitz_get_response ev args =
     (case args of
        [st, Py_dict d] \<Rightarrow>
          (case parse_unsigned st of
             None \<Rightarrow> Some (new_response (e_clock ev) (e_junk ev) SERVER_ERROR)
           | Some resp_status \<Rightarrow>
               (case (dict_string d ''req_header'', dict_string d ''req_body'',
                      dict_string d ''res_header'', dict_string d ''res_body'', d ''ieof'') of
                  (Some qh, Some qb, Some sh, Some sb, Some v) \<Rightarrow>
                    Some (set_response_payload
                      \<lparr>req_header = qh, req_body = qb, res_header = sh, res_body = sb, ieof = py_bool_check v\<rparr>
                      (new_response (e_clock ev) (e_junk ev) (status_of_unsigned resp_status)))
                | _ \<Rightarrow> None))
      | _ \<Rightarrow> Some (new_response (e_clock ev) (e_junk ev) SERVER_ERROR))"

section \<open>The interface module and the object Py\<close>

text \<open>An attribute of a Python module, and what a call of a method returns.\<close>

datatype 'f attr = No_attr | Not_callable | Callable 'f

datatype pyresult = Py_raised | Response_capsule response | Other_object

text \<open>For \<open>init\<close> and \<open>cleanup\<close> only whether the call raises matters: False if it does.\<close>

record 'w pymodule =
  pm_init :: "('w \<Rightarrow> bool \<times> 'w) attr"
  pm_cleanup :: "('w \<Rightarrow> bool \<times> 'w) attr"
  pm_method :: "string \<Rightarrow> (request \<Rightarrow> 'w \<Rightarrow> pyresult \<times> 'w) attr"

record py_config_t =
  pc_module_path :: string
  pc_module_name :: string

definition load_configs :: "libconfig \<Rightarrow> py_config_t" where
  "load_configs lc =
     (let s = module_config lc ''modpy'' ''module_name''
      in \<lparr>pc_module_path = module_config lc ''modpy'' ''module_path'',
          pc_module_name = (if s \<noteq> [] then s else ''modpy'')\<rparr>)"

text \<open>A method without arguments, called for its effect; the result is released unchecked.\<close>

definition call_procedure :: "('w \<Rightarrow> bool \<times> 'w) attr \<Rightarrow> 'w \<Rightarrow> 'w option" where
  "call_procedure a w =
     (case a of
        No_attr \<Rightarrow> None
      | Not_callable \<Rightarrow> Some w
      | Callable f \<Rightarrow> (case f w of (object, w') \<Rightarrow> if object then Some w' else None))"

text \<open>
  \<open>init_python\<close>: the importer gets the path appended to \<open>sys.path\<close> and the module's name. With
  no path, \<open>pymodule_path\<close> and \<open>sys_path\<close> are released at the end without having been set.
\<close>

type_synonym 'w importer = "string \<Rightarrow> string \<Rightarrow> 'w \<Rightarrow> 'w pymodule option \<times> 'w"

definition init_python :: "'w importer \<Rightarrow> py_config_t \<Rightarrow> 'w \<Rightarrow> ('w pymodule option \<times> 'w) option" where
  "init_python import_module cfg w =
     (case import_module (pc_module_path cfg) (pc_module_name cfg) w of
        (pymodule, w1) \<Rightarrow>
          case (case pymodule of None \<Rightarrow> Some w1 | Some m \<Rightarrow> call_procedure (pm_init m) w1) of
            None \<Rightarrow> None
          | Some w2 \<Rightarrow> if pc_module_path cfg \<noteq> [] then Some (pymodule, w2) else None)"

definition cleanup_python :: "'w pymodule option \<Rightarrow> 'w \<Rightarrow> 'w option" where
  "cleanup_python pymodule w =
     (case pymodule of None \<Rightarrow> Some w | Some m \<Rightarrow> call_procedure (pm_cleanup m) w)"

text \<open>\<open>python_response\<close>; a method that is not there is released as a null object.\<close>

definition python_response :: "('w \<Rightarrow> env_t \<times> 'w) \<Rightarrow> 'w pymodule option \<Rightarrow> string \<Rightarrow> request \<Rightarrow> 'w \<Rightarrow>
    (response \<times> 'w) option" where
  "python_response tick pymodule mth rq w =
     (let server_error = (\<lambda>w. case tick w of
            (ev, w') \<Rightarrow> (new_response (e_clock ev) (e_junk ev) SERVER_ERROR, w'))
      in case pymodule of
           None \<Rightarrow> Some (server_error w)
         | Some m \<Rightarrow>
             (case pm_method m mth of
                No_attr \<Rightarrow> None
              | Not_callable \<Rightarrow> Some (server_error w)
              | Callable f \<Rightarrow>
                  (case f rq w of
                     (Response_capsule response, w') \<Rightarrow> Some (response, w')
                   | (_, w') \<Rightarrow> Some (server_error w'))))"

text \<open>
  One use of the module by the request handler: \<open>create\<close>, \<open>modify\<close> or \<open>preview\<close> (the name of
  the method), \<open>destroy\<close>.
\<close>

definition ask_modpy :: "('w \<Rightarrow> env_t \<times> 'w) \<Rightarrow> 'w importer \<Rightarrow> libconfig \<Rightarrow> string \<Rightarrow> request \<Rightarrow> 'w \<Rightarrow>
    (response \<times> 'w) option" where
  "ask_modpy tick import_module lc mth rq w =
     Option.bind (init_python import_module (load_configs lc) w) (\<lambda>(pymodule, w1).
       Option.bind (python_response tick pymodule mth rq w1) (\<lambda>(response, w2).
         map_option (Pair response) (cleanup_python pymodule w2)))"

section \<open>Properties\<close>

lemma response_from_status_inv: "response_inv (bitz_get_response_from_status ev args)"
  by (simp add: bitz_get_response_from_status_def split: list.splits option.splits)

lemma get_response_inv: "bitz_get_response ev args = Some rs \<Longrightarrow> response_inv rs"
  by (auto simp: bitz_get_response_def split: list.splits pyval.splits option.splits)

text \<open>
  What the interface module of a working configuration offers: its procedures and the method
  are there and callable, the procedures do not raise, and its capsules hold what the module
  \<open>bitz\<close> makes, which keeps the invariant of responses.
\<close>

definition callable_ok :: "('w \<Rightarrow> bool \<times> 'w) attr \<Rightarrow> bool" where
  "callable_ok a \<longleftrightarrow> (\<exists>f. a = Callable f \<and> (\<forall>w. fst (f w)))"

definition interface_ok :: "string \<Rightarrow> 'w pymodule \<Rightarrow> bool" where
  "interface_ok mth m \<longleftrightarrow> callable_ok (pm_init m) \<and> callable_ok (pm_cleanup m) \<and>
     (\<exists>f. pm_method m mth = Callable f \<and>
        (\<forall>rq w rs. fst (f rq w) = Response_capsule rs \<longrightarrow> response_inv rs))"

lemma call_procedure_ok:
  assumes "callable_ok a"
  shows "\<exists>w'. call_procedure a w = Some w'"
proof -
  obtain f where f: "a = Callable f" "fst (f w)" using assms by (auto simp: callable_ok_def)
  then show ?thesis by (cases "f w") (simp add: call_procedure_def)
qed

lemma python_response_ok:
  assumes "interface_ok mth m"
  shows "\<exists>rs w'. python_response tick (Some m) mth rq w = Some (rs, w') \<and> response_inv rs"
proof -
  obtain f where f: "pm_method m mth = Callable f"
      "\<And>rq w rs. fst (f rq w) = Response_capsule rs \<Longrightarrow> response_inv rs"
    using assms by (auto simp: interface_ok_def)
  obtain r w1 where r: "f rq w = (r, w1)" by fastforce
  obtain ev w2 where t: "tick w1 = (ev, w2)" by fastforce
  show ?thesis
    using f(1) f(2) [of rq w] r t by (cases r) (simp_all add: python_response_def Let_def)
qed

lemma ask_modpy_ok:
  assumes "\<And>w. fst (import_module (pc_module_path (load_configs lc)) (pc_module_name (load_configs lc)) w) = Some m"
    and "interface_ok mth m" and "module_config lc ''modpy'' ''module_path'' \<noteq> []"
  shows "\<exists>rs w'. ask_modpy tick import_module lc mth rq w = Some (rs, w') \<and> response_inv rs"
proof -
  obtain w1 where i: "import_module (pc_module_path (load_configs lc)) (pc_module_name (load_configs lc)) w = (Some m, w1)"
    using assms(1) [of w] by (metis prod.collapse)
  have c: "callable_ok (pm_init m)" "callable_ok (pm_cleanup m)"
    using assms(2) by (simp_all add: interface_ok_def)
  obtain w2 where w2: "call_procedure (pm_init m) w1 = Some w2" using call_procedure_ok [OF c(1)] by blast
  obtain rs w3 where w3: "python_response tick (Some m) mth rq w2 = Some (rs, w3)" "response_inv rs"
    using python_response_ok [OF assms(2)] by blast
  obtain w4 where w4: "call_procedure (pm_cleanup m) w3 = Some w4" using call_procedure_ok [OF c(2)] by blast
  have p: "pc_module_path (load_configs lc) \<noteq> []" using assms(3) by (simp add: load_configs_def Let_def)
  have "ask_modpy tick import_module lc mth rq w = Some (rs, w4)"
    using i w2 w3(1) w4 p by (simp add: ask_modpy_def init_python_def cleanup_python_def)
  with w3(2) show ?thesis by simp
qed

lemma ask_modpy_no_path:
  "module_config lc ''modpy'' ''module_path'' = [] \<Longrightarrow> ask_modpy tick import_module lc mth rq w = None"
  by (simp add: ask_modpy_def init_python_def load_configs_def Let_def split: prod.splits option.splits)

lemma get_response_of_request:
  assumes "bitz_get_request (Some rq) = Py_dict outer" and "outer ''payload'' = Some d"
  shows "bitz_get_response ev [Py_int n, d] =
    Some (set_response_payload ((q_payload rq)\<lparr>ieof := True\<rparr>)
      (new_response (e_clock ev) (e_junk ev) (status_of_unsigned (of_int n))))"
  using assms
  by (cases "q_payload rq") (auto simp: bitz_get_request_def bitz_get_response_def parse_unsigned_def dict_string_def
      py_bool_check_def Let_def)

lemma status_of_unsigned_code:
  assumes "st \<in> set statuses"
  shows "status_of_unsigned (of_int (status_code st)) = st"
proof -
  have "0 \<le> status_code st" "status_code st < 2 ^ 31" using assms by (auto simp: statuses_def)
  then have "sint (of_int (status_code st) :: u32) = status_code st"
    by (simp add: sint_sbintrunc' signed_take_bit_int_eq_self)
  with status_of_status_code [OF assms] show ?thesis by (simp add: status_of_unsigned_def)
qed

lemma response_of_status:
  "r_payload (set_response_payload p (new_response cl j st)) = p"
  "rs_status (sh_response (r_header (set_response_payload p (new_response cl j st)))) = st"
proof -
  have "sh_response (update_encapsulated p h) = sh_response h" for p and h :: response_header
    by (simp add: update_encapsulated_def split: prod.splits)
  then show "rs_status (sh_response (r_header (set_response_payload p (new_response cl j st)))) = st"
    by (simp add: set_response_payload_def new_response_def response_header_fields(5))
qed (simp add: set_response_payload_def)

end
