(* ===== verification/PyModule.thy ===== *)
theory PyModule
  imports Modpy Service
begin

text \<open>
  \<open>modules/modpy\<close> as the server loads it (\<open>py.h\<close>, \<open>py.cpp\<close>), and the interface module of the
  repository, \<open>modules/modpy/modules/modpy.py\<close>. Where the behaviour of the C++ side is undefined
  the module does what an argument says, which the properties rule out.
\<close>

section \<open>The library\<close>

text \<open>What a process does where its behaviour is undefined: anything.\<close>

record 'w undefined_t =
  ub_create :: "'w create_t"
  ub_answer :: "'w answer"
  ub_delete :: "'w \<Rightarrow> 'w"

text \<open>The object \<open>Py\<close> with its interface module loaded: its virtual functions and its destructor.\<close>

definition py_answer :: "'w tick \<Rightarrow> 'w undefined_t \<Rightarrow> 'w pymodule option \<Rightarrow> string \<Rightarrow> 'w answer" where
  "py_answer tick ub pymodule mth rq w =
     (case python_response tick pymodule mth rq w of
        Some (rs, w') \<Rightarrow> ((rs, rq), w')
      | None \<Rightarrow> ub_answer ub rq w)"

definition py_object :: "'w tick \<Rightarrow> 'w undefined_t \<Rightarrow> 'w pymodule option \<Rightarrow> 'w modifier" where
  "py_object tick ub pymodule =
     \<lparr>md_modify = py_answer tick ub pymodule ''modify'',
      md_preview = py_answer tick ub pymodule ''preview'',
      md_delete = (\<lambda>w. case cleanup_python pymodule w of Some w' \<Rightarrow> w' | None \<Rightarrow> ub_delete ub w)\<rparr>"

definition py_create :: "'w tick \<Rightarrow> 'w undefined_t \<Rightarrow> 'w importer \<Rightarrow> libconfig \<Rightarrow> 'w create_t" where
  "py_create tick ub import_module lc w =
     (case init_python import_module (load_configs lc) w of
        Some (pymodule, w') \<Rightarrow> (py_object tick ub pymodule, w')
      | None \<Rightarrow> ub_create ub w)"

definition py_library :: "'w tick \<Rightarrow> 'w undefined_t \<Rightarrow> 'w importer \<Rightarrow> libconfig \<Rightarrow> 'w library" where
  "py_library tick ub import_module lc =
     \<lparr>lib_create = Some (py_create tick ub import_module lc), lib_destroy = Some md_delete\<rparr>"

definition py_symbols :: "'w tick \<Rightarrow> 'w undefined_t \<Rightarrow> 'w importer \<Rightarrow> libconfig \<Rightarrow> 'w symbols_t" where
  "py_symbols tick ub import_module lc =
     \<lparr>sy_modifier = Some (py_library tick ub import_module lc),
      sy_create = py_create tick ub import_module lc, sy_destroy = md_delete\<rparr>"

text \<open>
  Where one use of the module is defined, it is what the request handler sees of it, whatever an
  undefined run would do.
\<close>

lemma ask_py:
  assumes "ask_modpy tick import_module lc mth rq w = Some (rs, w')"
    and "\<And>p. virtual (py_object tick ub p) = py_answer tick ub p mth"
  shows "ask_modifier virtual (py_symbols tick ub import_module lc) rq w = ((rs, rq), w')"
proof -
  obtain p w1 w2 where "init_python import_module (load_configs lc) w = Some (p, w1)"
      "python_response tick p mth rq w1 = Some (rs, w2)" "cleanup_python p w2 = Some w'"
    using assms(1) by (auto simp: ask_modpy_def bind_eq_Some_conv)
  moreover from this have "virtual (py_object tick ub p) rq w1 = ((rs, rq), w2)"
    by (simp add: assms(2) py_answer_def)
  ultimately show ?thesis
    by (simp add: ask_modifier_def py_symbols_def py_create_def py_object_def)
qed

lemma py_virtual [simp]:
  "md_modify (py_object tick ub p) = py_answer tick ub p ''modify''"
  "md_preview (py_object tick ub p) = py_answer tick ub p ''preview''"
  by (simp_all add: py_object_def)

section \<open>What the interface module owes\<close>

text \<open>A Python module that keeps its contract makes modpy a module that keeps the server's.\<close>

locale python_interface =
  fixes tick :: "'w tick" and ub :: "'w undefined_t" and m :: "'w pymodule" and mth :: string
  assumes interface: "interface_ok mth m"
begin

lemma responds: "\<exists>rs w'. py_answer tick ub (Some m) mth rq w = ((rs, rq), w') \<and> response_inv rs"
  using python_response_ok [OF interface, of tick rq w] by (auto simp: py_answer_def)

end

sublocale python_interface \<subseteq> contract: modifier_contract "py_answer tick ub (Some m) mth"
proof unfold_locales
  fix rq w rs rq' w'
  assume "request_inv rq" "py_answer tick ub (Some m) mth rq w = ((rs, rq'), w')"
  then show "response_inv rs \<and> request_inv rq'" using responds [of rq w] by auto
qed

section \<open>The interface module of the repository\<close>

text \<open>\<open>d[ k ]\<close> in Python: None is a raised \<open>KeyError\<close> or \<open>TypeError\<close>.\<close>

definition py_subscript :: "pyval \<Rightarrow> string \<Rightarrow> pyval option" where
  "py_subscript v k = (case v of Py_dict d \<Rightarrow> d k | _ \<Rightarrow> None)"

definition py_true :: "pyval \<Rightarrow> bool" where
  "py_true v =
     (case v of
        Py_bool b \<Rightarrow> b
      | Py_int n \<Rightarrow> n \<noteq> 0
      | Py_string s \<Rightarrow> s \<noteq> []
      | Py_dict d \<Rightarrow> d \<noteq> Map.empty
      | Py_other \<Rightarrow> True)"

definition script_preview :: "'w tick \<Rightarrow> request \<Rightarrow> 'w \<Rightarrow> pyresult \<times> 'w" where
  "script_preview tick request_capsule w =
     (let request = bitz_get_request (Some request_capsule)
      in case Option.bind (py_subscript request ''payload'') (\<lambda>p. py_subscript p ''ieof'') of
           None \<Rightarrow> (Py_raised, w)
         | Some v \<Rightarrow>
             (case tick w of (ev, w') \<Rightarrow>
                (Response_capsule (bitz_get_response_from_status ev [Py_int (if py_true v then 204 else 100)]), w')))"

text \<open>
  \<open>modify\<close>: the dictionary it builds has every key \<open>get_response\<close> reads, so the last case is not
  reached (\<open>script_modify_echoes\<close>).
\<close>

definition resp_payload :: "pyval \<Rightarrow> pyval \<Rightarrow> (string \<Rightarrow> pyval option)" where
  "resp_payload request req_payload =
     (let reqmod = (case py_subscript request ''request'' of Some (Py_string s) \<Rightarrow> s = ''REQMOD'' | _ \<Rightarrow> False);
          copied = (\<lambda>k. if reqmod then py_subscript req_payload k else Some (Py_string []))
      in (\<lambda>_. None)
           (''req_header'' := copied ''req_header'', ''req_body'' := copied ''req_body'',
            ''res_header'' := py_subscript req_payload ''res_header'',
            ''res_body'' := py_subscript req_payload ''res_body'', ''ieof'' := Some (Py_bool True)))"

definition script_modify :: "'w tick \<Rightarrow> request \<Rightarrow> 'w \<Rightarrow> pyresult \<times> 'w" where
  "script_modify tick request_capsule w =
     (let request = bitz_get_request (Some request_capsule)
      in case py_subscript request ''payload'' of
           None \<Rightarrow> (Py_raised, w)
         | Some req_payload \<Rightarrow>
             (case tick w of (ev, w') \<Rightarrow>
                case bitz_get_response ev [Py_int 200, Py_dict (resp_payload request req_payload)] of
                  Some rs \<Rightarrow> (Response_capsule rs, w')
                | None \<Rightarrow> (Other_object, w')))"

definition script_module :: "'w tick \<Rightarrow> 'w pymodule" where
  "script_module tick =
     \<lparr>pm_init = Callable (\<lambda>w. (True, w)), pm_cleanup = Callable (\<lambda>w. (True, w)),
      pm_method = (\<lambda>mth.
        if mth = ''preview'' then Callable (script_preview tick)
        else if mth = ''modify'' then Callable (script_modify tick) else No_attr)\<rparr>"

text \<open>What its two methods answer.\<close>

lemma status_204_100: "status_of_unsigned 204 = NO_CONTENT" "status_of_unsigned 100 = CONTINUE"
    "status_of_unsigned 200 = OK"
  using status_of_unsigned_code [of NO_CONTENT] status_of_unsigned_code [of CONTINUE]
    status_of_unsigned_code [of OK]
  by (simp_all add: statuses_def)

lemma script_preview_answer:
  "tick w = (ev, w') \<Longrightarrow> script_preview tick rq w = (Response_capsule (preview_of Script ev rq), w')"
  by (simp add: script_preview_def bitz_get_request_def py_subscript_def py_true_def preview_of_def
      echo_preview_def bitz_get_response_from_status_def parse_unsigned_def status_204_100 Let_def)

lemma c_str_plain: "plain_method rq \<Longrightarrow> c_str (method_of (q_header rq)) = method_of (q_header rq)"
  unfolding plain_method_def c_str_def by (auto simp: takeWhile_eq_all_conv)

lemma script_modify_echoes:
  assumes "tick w = (ev, w')" and "plain_method rq"
  shows "script_modify tick rq w = (Response_capsule (echo_modify (module_env Script ev) rq), w')"
proof -
  have junk: "set_response_payload p (new_response (e_clock ev) (e_junk ev) st) =
      set_response_payload p (new_response (e_clock ev) True st)" for p st
    by (simp add: set_response_payload_def new_response_def)
  from assms show ?thesis
    by (cases "q_payload rq") (simp add: script_modify_def bitz_get_request_def py_subscript_def resp_payload_def
        bitz_get_response_def parse_unsigned_def dict_string_def py_bool_check_def status_204_100
        c_str_plain echo_modify_def module_env_def empty_payload_def Let_def junk)
qed

section \<open>The library with this interface module\<close>

lemma set_response_inv [simp]: "response_inv (preview_of md ev rq)" "response_inv (echo_modify ev rq)"
  by (simp_all add: preview_of_def echo_preview_def echo_modify_def Let_def split: module.splits)

lemma script_interface_ok: "mth \<in> {''preview'', ''modify''} \<Longrightarrow> interface_ok mth (script_module tick)"
  using response_from_status_inv get_response_inv
  by (auto simp: interface_ok_def callable_ok_def script_module_def script_preview_def script_modify_def Let_def
      split: option.splits prod.splits)

interpretation script_p: python_interface tick ub "script_module tick" "''preview''"
  for tick :: "'w tick" and ub :: "'w undefined_t"
  by unfold_locales (simp add: script_interface_ok)

interpretation script_m: python_interface tick ub "script_module tick" "''modify''"
  for tick :: "'w tick" and ub :: "'w undefined_t"
  by unfold_locales (simp add: script_interface_ok)

text \<open>The configuration names a path, and importing the module finds the script and does nothing else.\<close>

definition script_imported :: "'w tick \<Rightarrow> 'w importer \<Rightarrow> libconfig \<Rightarrow> bool" where
  "script_imported tick import_module lc \<longleftrightarrow> module_config lc ''modpy'' ''module_path'' \<noteq> [] \<and>
     (\<forall>w. import_module (pc_module_path (load_configs lc)) (pc_module_name (load_configs lc)) w =
        (Some (script_module tick), w))"

lemma script_created:
  assumes "script_imported tick import_module lc"
  shows "init_python import_module (load_configs lc) w = Some (Some (script_module tick), w)"
proof -
  have p: "pc_module_path (load_configs lc) \<noteq> []"
    using assms by (simp add: script_imported_def load_configs_def Let_def)
  have "import_module (pc_module_path (load_configs lc)) (pc_module_name (load_configs lc)) w =
      (Some (script_module tick), w)"
    using assms unfolding script_imported_def by blast
  with p show ?thesis by (simp add: init_python_def call_procedure_def script_module_def)
qed

lemma script_asked:
  assumes "script_imported tick import_module lc" and "tick w = (ev, w')"
  shows "ask_modpy tick import_module lc ''preview'' rq w = Some (preview_of Script ev rq, w')"
    and "plain_method rq \<Longrightarrow>
      ask_modpy tick import_module lc ''modify'' rq w = Some (echo_modify (module_env Script ev) rq, w')"
  using script_preview_answer [of tick w ev w' rq, OF assms(2)]
    script_modify_echoes [of tick w ev w' rq, OF assms(2)]
  by (simp_all add: ask_modpy_def script_created [OF assms(1)] python_response_def cleanup_python_def
      call_procedure_def script_module_def Let_def)

text \<open>
  The symbols of the library answer as the specification of the module \<open>Script\<close> does, and keep the
  contract.
\<close>

lemma script_serves:
  assumes "script_imported tick import_module lc" and "loaded (hd_handlers rh) = [h]"
    and "hn_symbols h = py_symbols tick ub import_module lc"
  shows "serves_as tick Script rh"
proof -
  have "ask_modifier md_modify (hn_symbols h) rq w = ((echo_modify (module_env Script ev) rq, rq), w') \<and>
      ask_modifier md_preview (hn_symbols h) rq w = ((preview_of Script ev rq, rq), w')"
    if "plain_method rq" "tick w = (ev, w')" for rq w ev w'
    unfolding assms(3)
    using ask_py [OF script_asked(2) [of tick import_module lc w ev w' rq, OF assms(1) that(2,1)], of md_modify ub]
      ask_py [OF script_asked(1) [of tick import_module lc w ev w' rq, OF assms(1) that(2)], of md_preview ub] by simp
  with assms(2) show ?thesis unfolding serves_as_def by blast
qed

lemma script_contract:
  assumes "script_imported tick import_module lc"
  shows "modifier_contract (md_preview (fst (py_create tick ub import_module lc w)))"
    and "modifier_contract (md_modify (fst (py_create tick ub import_module lc w)))"
  using script_p.contract.modifier_contract_axioms script_m.contract.modifier_contract_axioms
  by (simp_all add: py_create_def script_created [OF assms])

end
