(* ===== verification/Clients.thy ===== *)
theory Clients
  imports Session PyModule
begin

text \<open>
  A worker with a module configured (echo, or modpy with its script), from \<open>load_req_handlers\<close> to the end of \<open>Worker::run\<close>:
  clients that come one after another, each with its requests, are served as the specification
  \<open>clients\<close> says, which runs \<open>session\<close> for each.
\<close>

section \<open>The configuration\<close>

text \<open>
  The library a module is loaded from: that of echo, or modpy with an interpreter that imports
  the interface module of the repository.
\<close>

definition library_of :: "'w tick \<Rightarrow> module \<Rightarrow> 'w library \<Rightarrow> bool" where
  "library_of tick md lib \<longleftrightarrow>
     (case md of
        Echo \<Rightarrow> lib = echo_library tick
      | Script \<Rightarrow> (\<exists>ub import_module lc. lib = py_library tick ub import_module lc \<and>
          script_imported tick import_module lc))"

text \<open>REQMOD and RESPMOD have the module as their only one.\<close>

definition module_configured :: "'w tick \<Rightarrow> module \<Rightarrow> 'w linker \<Rightarrow> config_t \<Rightarrow> bool" where
  "module_configured tick md linker c \<longleftrightarrow> config_ok c \<and>
     (\<forall>mth\<in>{''REQMOD'', ''RESPMOD''}. \<exists>e m lib. find (\<lambda>e. rc_name e = mth) (c_req_handlers c) = Some e \<and>
        rc_modules e = Some [m] \<and> mc_name m \<noteq> [] \<and> linker (mc_module m) = Some lib \<and> library_of tick md lib)"

lemma library_serves:
  assumes "library_of tick md lib" and "linker (mc_module m) = Some lib" and "mc_name m \<noteq> []"
    and "hd_handlers rh = [load_handler linker junk m]"
  shows "serves_as tick md rh"
proof (cases md)
  case Echo
  with assms have "echo_only tick rh"
    by (intro echo_only_loaded [where linker = linker and junk = junk and m = m]) (simp_all add: library_of_def)
  with Echo show ?thesis by (simp add: echo_serves)
next
  case Script
  then obtain ub import_module lc where lib: "lib = py_library tick ub import_module lc"
      "script_imported tick import_module lc" using assms(1) by (auto simp: library_of_def)
  let ?h = "load_handler linker junk m"
  have h: "hn_symbols ?h = py_symbols tick ub import_module lc" "loaded (hd_handlers rh) = [?h]"
    using assms(2-4) lib(1)
    by (simp_all add: load_handler_def load_modifier_def py_library_def py_symbols_def loaded_def Let_def)
  from script_serves [OF lib(2) h(2,1)] Script show ?thesis by simp
qed

lemma library_contract:
  assumes "library_of tick md lib" and "lib_create lib = Some create"
  shows "modifier_contract (md_preview (fst (create w)))" and "modifier_contract (md_modify (fst (create w)))"
  using assms script_contract [of tick _ _ _ w] echo_p.modifier_contract_axioms echo_m.modifier_contract_axioms
  by (auto simp: library_of_def echo_library_def py_library_def split: module.splits)

lemma module_handler_loaded:
  assumes "module_configured tick md linker c" and "mth \<in> {''REQMOD'', ''RESPMOD''}"
  shows "\<exists>rh. new_request_handler linker junk c mth = Some rh \<and> hd_method rh = mth \<and> serves_as tick md rh"
proof -
  obtain e m lib where e: "find (\<lambda>e. rc_name e = mth) (c_req_handlers c) = Some e" "rc_modules e = Some [m]"
      "mc_name m \<noteq> []" "linker (mc_module m) = Some lib" "library_of tick md lib"
    using assms unfolding module_configured_def by blast
  have "\<forall>e\<in>set (c_req_handlers c). entry_ok e \<and> unat (rc_modules_count e) < 2 ^ 31"
    using assms(1) by (simp add: module_configured_def config_ok_def)
  then obtain hs where hs: "load_modules linker junk mth (c_req_handlers c) = Some hs"
      "hs = map (load_handler linker junk) [m]"
    using load_modules_some [of "c_req_handlers c" linker junk mth] e(1,2) by auto
  let ?rh = "\<lparr>hd_method = mth, hd_handlers = hs\<rparr>"
  have "serves_as tick md ?rh"
    by (rule library_serves [of tick md lib linker m, OF e(5,4,3)]) (use hs in simp)
  with hs(1) show ?thesis by (simp add: new_request_handler_def)
qed

text \<open>The handler of OPTIONS may have any modules, or none: it does not ask them.\<close>

lemma module_table_loaded:
  assumes "module_configured tick md linker c"
  shows "\<exists>hs. load_req_handlers linker junk c = Some hs \<and> module_table tick md hs"
proof -
  have "\<forall>e\<in>set (c_req_handlers c). entry_ok e \<and> unat (rc_modules_count e) < 2 ^ 31"
    using assms by (simp add: module_configured_def config_ok_def)
  from load_modules_some [OF this, of linker junk "''OPTIONS''"]
  obtain a where a: "new_request_handler linker junk c ''OPTIONS'' = Some a"
    by (auto simp: new_request_handler_def)
  obtain b where b: "new_request_handler linker junk c ''REQMOD'' = Some b" "hd_method b = ''REQMOD''"
      "serves_as tick md b"
    using module_handler_loaded [OF assms, of "''REQMOD''" junk] by blast
  obtain d where d: "new_request_handler linker junk c ''RESPMOD'' = Some d" "hd_method d = ''RESPMOD''"
      "serves_as tick md d"
    using module_handler_loaded [OF assms, of "''RESPMOD''" junk] by blast
  let ?o = "request_handler.extend a \<lparr>hd_methods = [''REQMOD'', ''RESPMOD'']\<rparr>"
  let ?hs = "[(''OPTIONS'', Options_handler ?o), (''REQMOD'', Mod_handler b), (''RESPMOD'', Mod_handler d)]"
  have "load_req_handlers linker junk c = Some ?hs"
    using a b(1,2) d(1,2)
    by (simp add: load_req_handlers_def register_handler_def Let_def request_handler.defs)
  moreover have "hd_methods ?o = [''REQMOD'', ''RESPMOD'']" by (simp add: request_handler.defs)
  then have "module_table tick md ?hs" using b(3) d(3) by (simp add: module_table_def find_req_handler_def)
  ultimately show ?thesis by blast
qed

section \<open>Clients one after another\<close>

text \<open>
  The connections that wait to be accepted are a queue of the world: \<open>accept\<close> takes the first and
  fails where there is none, and the clock leaves the queue alone.
\<close>

definition queued :: "'w tick \<Rightarrow> ('w \<Rightarrow> sock option \<times> 'w) \<Rightarrow> ('w \<Rightarrow> sock list) \<Rightarrow> bool" where
  "queued tick accept q \<longleftrightarrow>
     (\<forall>w. q (snd (tick w)) = q w \<and> q (snd (accept w)) = tl (q w) \<and>
        fst (accept w) = (case q w of [] \<Rightarrow> None | s # _ \<Rightarrow> Some s))"

text \<open>A client: its connection is new, holds its requests, and its last request closes it.\<close>

definition client :: "sock \<Rightarrow> client_request list \<Rightarrow> bool" where
  "client s rs \<longleftrightarrow> live s \<and> s_out s = [] \<and> s_in s = concat (map request_bytes rs) \<and>
     (\<forall>r\<in>set rs. well_formed r) \<and> rs \<noteq> [] \<and> \<not> keeps_connection (last rs)"

text \<open>What the clients see, in order, while the worker has requests left.\<close>

fun clients :: "'w tick \<Rightarrow> module \<Rightarrow> ('w \<Rightarrow> sock option \<times> 'w) \<Rightarrow> client_request list list \<Rightarrow> u32 \<Rightarrow> 'w \<Rightarrow> string list" where
  "clients tick md accept [] m w = []"
| "clients tick md accept (rs # rss) m w =
     (if 0 < m then
        case session tick md rs m (snd (accept w)) of
          (out, e, us, m', w') \<Rightarrow> out # clients tick md accept rss m' w'
      else [])"

lemma session_ends:
  "rs \<noteq> [] \<Longrightarrow> \<not> keeps_connection (last rs) \<Longrightarrow> session tick md rs m w = (out, e, us, m', w') \<Longrightarrow> e"
  by (induction rs arbitrary: m w out) (auto split: prod.splits if_splits)

lemma answer_queue:
  assumes "queued tick accept q"
  shows "q (snd (answer tick md r c w)) = q w"
proof -
  have t: "q w2 = q w1" if "tick w1 = (ev, w2)" for w1 ev w2
    using assms that unfolding queued_def by (metis snd_conv)
  show ?thesis by (cases c; cases md) (auto simp: t split: prod.splits)
qed

lemma session_queue:
  assumes "queued tick accept q"
  shows "session tick md rs m w = (out, e, us, m', w') \<Longrightarrow> q w' = q w"
proof (induction rs arbitrary: m w out)
  case (Cons r rs)
  obtain t w1 where a: "answer tick md r (cr_content r) w = (t, w1)" by fastforce
  then have "q w1 = q w" using answer_queue [OF assms, of md r "cr_content r" w] by simp
  with Cons a show ?case by (auto split: if_splits prod.splits)
qed simp

lemma run_no_clients:
  assumes "queued tick accept q"
  shows "q w = [] \<Longrightarrow> \<exists>w'. run tick accept timeout hs m comm w = Some ([], w')"
proof (induction "unat m" arbitrary: m w)
  case 0
  then have "m = 0" by (simp add: unat_eq_zero)
  then show ?case by (simp add: run.simps)
next
  case (Suc n)
  then have m: "0 < m" by (metis nat.distinct(1) unat_0 word_gt_0)
  obtain w1 where a: "accept w = (None, w1)" "q w1 = []"
    using assms Suc.prems unfolding queued_def
    by (metis (no_types, lifting) list.case(1) list.sel(2) prod.collapse)
  have "n = unat (m - 1)" using Suc.hyps(2) m by (simp add: unat_dec word_gt_0)
  from Suc.hyps(1) [OF this a(2)] m a(1) show ?case by (subst run.simps) simp
qed

text \<open>The worker implements the specification.\<close>

lemma run_clients:
  assumes "module_table tick md hs" and "queued tick accept q" and "\<And>s. timeout comm s = Some s"
    and "list_all2 client (q w) rss"
  shows "\<exists>closed w'. run tick accept timeout hs m comm w = Some (closed, w') \<and>
    map s_out closed = clients tick md accept rss m w"
  using assms(4)
proof (induction rss arbitrary: m w rule: list.induct)
  case Nil
  then have "q w = []" by simp
  from run_no_clients [OF assms(2) this] show ?case by auto
next
  case (Cons rs rss)
  show ?case
  proof (cases "0 < m")
    case False
    then show ?thesis by (simp add: run.simps)
  next
    case m: True
    obtain s ss where q: "q w = s # ss" "client s rs" "list_all2 client ss rss"
      using Cons.prems by (auto simp: list_all2_Cons2)
    obtain w1 where a: "accept w = (Some s, w1)" "q w1 = ss"
      using assms(2) q(1) unfolding queued_def
      by (metis (no_types, lifting) list.case(2) list.sel(3) prod.collapse)
    obtain out e us m' w2 where sn: "session tick md rs m w1 = (out, e, us, m', w2)"
      by (metis prod.exhaust)
    have c: "live s" "s_out s = []" "s_in s = concat (map request_bytes rs) @ []"
        "\<forall>r\<in>set rs. well_formed r" "e"
      using q(2) session_ends [OF _ _ sn] by (simp_all add: client_def)
    obtain s' where s': "serve_client tick hs s m w1 = Some (m', s', w2)" "s_out s' = out"
      using session_steps [OF assms(1) c(4,1,3) sn] c(2,5) by auto
    have "q w2 = ss" using session_queue [OF assms(2) sn] a(2) by simp
    with q(3) have "list_all2 client (q w2) rss" by simp
    from Cons.IH [OF this] obtain closed w' where
      r: "run tick accept timeout hs m' comm w2 = Some (closed, w')"
        "map s_out closed = clients tick md accept rss m' w2" by blast
    have "run tick accept timeout hs m comm w = Some (s' # closed, w')"
      using m a(1) s'(1) r(1) assms(3) by (subst run.simps) simp
    then show ?thesis using m a(1) sn s'(2) r(2) by simp
  qed
qed

end
