(* ===== verification/Child.thy ===== *)
theory Child
  imports Reaper Server Clients
begin

text \<open>
  A worker process: the child's part of \<open>Manager::spawn_worker\<close>, assignment by assignment, and what
  a termination signal does in it (\<open>termination_handler\<close>, \<open>Manager::shutdown\<close>), which nothing in
  the child blocks; and the process as a whole, from the fork to \<open>_exit\<close>. Also the same signal in
  the manager while it starts its first workers.
\<close>

section \<open>The child after the fork\<close>

text \<open>
  The member \<open>worker\<close> of an entry of the pool: not set since \<open>new worker_pool_t[]\<close>, the null
  pointer, an object, or an object that was deleted.
\<close>

datatype worker_ptr = Unset | No_worker | A_worker | Deleted_worker

text \<open>The child has a copy of all the manager had.\<close>

record child_t =
  ch_manager :: manager_t
  ch_workers :: "worker_ptr list"

text \<open>Program points, named by what was done last.\<close>

datatype child_point =
    Just_forked
  | Flag_set
  | Id_set
  | Worker_made
  | Entry_id_set
  | Running
  | Cycle_ended
  | Worker_deleted

definition set_entry :: "u32 \<Rightarrow> (worker_pool_t \<Rightarrow> worker_pool_t) \<Rightarrow> manager_t \<Rightarrow> manager_t" where
  "set_entry i f m = m\<lparr>mg_pool := (mg_pool m)[unat i := f (mg_pool m ! unat i)]\<rparr>"

inductive cstep :: "u32 \<Rightarrow> child_point \<times> child_t \<Rightarrow> child_point \<times> child_t \<Rightarrow> bool" for i :: u32 where
  Flag: "cstep i (Just_forked, c) (Flag_set, c\<lparr>ch_manager := (ch_manager c)\<lparr>mg_worker := True\<rparr>\<rparr>)"
| Id: "cstep i (Flag_set, c) (Id_set, c\<lparr>ch_manager := (ch_manager c)\<lparr>mg_worker_id := i\<rparr>\<rparr>)"
| Make: "cstep i (Id_set, c) (Worker_made,
    c\<lparr>ch_manager := set_entry i (wp_worker_update (\<lambda>_. True)) (ch_manager c),
      ch_workers := (ch_workers c)[unat i := A_worker]\<rparr>)"
| Entry_id: "cstep i (Worker_made, c) (Entry_id_set,
    c\<lparr>ch_manager := set_entry i (wp_id_update (\<lambda>_. i)) (ch_manager c)\<rparr>)"
| Entry_pid: "cstep i (Entry_id_set, c) (Running,
    c\<lparr>ch_manager := set_entry i (wp_pid_update (\<lambda>_. 0)) (ch_manager c)\<rparr>)"
| Cycle: "cstep i (Running, c) (Cycle_ended, c)"
| Delete: "cstep i (Cycle_ended, c) (Worker_deleted, c\<lparr>ch_workers := (ch_workers c)[unat i := Deleted_worker]\<rparr>)"

inductive_cases cstepE: "cstep i x y"

inductive child_at :: "u32 \<Rightarrow> child_t \<Rightarrow> child_point \<times> child_t \<Rightarrow> bool" for i :: u32 and c0 :: child_t where
  forked: "child_at i c0 (Just_forked, c0)"
| step: "child_at i c0 x \<Longrightarrow> cstep i x y \<Longrightarrow> child_at i c0 y"

section \<open>A termination signal in the child\<close>

text \<open>
  \<open>shutdown\<close> as the handler calls it. Deleting the null pointer does nothing, deleting a pointer
  that is not set, or twice, is undefined.
\<close>

definition delete_worker_ptr :: "nat \<Rightarrow> worker_ptr \<Rightarrow> action list option" where
  "delete_worker_ptr i p =
     (case p of Unset \<Rightarrow> None | No_worker \<Rightarrow> Some [] | A_worker \<Rightarrow> Some [Delete_worker i] | Deleted_worker \<Rightarrow> None)"

definition child_shutdown :: "child_t \<Rightarrow> action list option" where
  "child_shutdown c =
     (let m = ch_manager c; i = unat (mg_worker_id m)
      in if mg_worker m then delete_worker_ptr i (ch_workers c ! i) else Some (shutdown True m))"

text \<open>What holds at each point of a child forked from \<open>c0\<close>.\<close>

definition child_inv :: "u32 \<Rightarrow> child_t \<Rightarrow> child_point \<Rightarrow> child_t \<Rightarrow> bool" where
  "child_inv i c0 pt c \<longleftrightarrow>
     (pt = Just_forked \<longrightarrow> c = c0) \<and>
     (pt \<noteq> Just_forked \<longrightarrow> mg_worker (ch_manager c)) \<and>
     mg_worker_id (ch_manager c) = (if pt \<in> {Just_forked, Flag_set} then mg_worker_id (ch_manager c0) else i) \<and>
     ch_workers c =
       (if pt \<in> {Just_forked, Flag_set, Id_set} then ch_workers c0
        else if pt = Worker_deleted then (ch_workers c0)[unat i := Deleted_worker]
        else (ch_workers c0)[unat i := A_worker])"

lemma child_at_inv:
  assumes "child_at i c0 (pt, c)"
  shows "child_inv i c0 pt c"
  using assms
proof (induction "(pt, c)" arbitrary: pt c rule: child_at.induct)
  case forked
  then show ?case by (simp add: child_inv_def)
next
  case (step x)
  obtain pt' c' where x: "x = (pt', c')" by fastforce
  with step(2) have "child_inv i c0 pt' c'" by simp
  with step(3) x show ?case
    by (elim cstepE) (simp_all add: child_inv_def set_entry_def)
qed

lemma child_shutdown_at:
  assumes "child_at i c0 (pt, c)" and "\<not> mg_worker (ch_manager c0)" and "unat i < length (ch_workers c0)"
  shows "child_shutdown c =
    (case pt of
       Just_forked \<Rightarrow> Some (shutdown True (ch_manager c0))
     | Flag_set \<Rightarrow> (let j = unat (mg_worker_id (ch_manager c0)) in delete_worker_ptr j (ch_workers c0 ! j))
     | Id_set \<Rightarrow> delete_worker_ptr (unat i) (ch_workers c0 ! unat i)
     | Worker_deleted \<Rightarrow> None
     | _ \<Rightarrow> Some [Delete_worker (unat i)])"
  using child_at_inv [OF assms(1)] assms(2,3)
  by (cases pt) (simp_all add: child_inv_def child_shutdown_def delete_worker_ptr_def Let_def)

text \<open>While it runs the child is what \<open>spawn_worker\<close> says.\<close>

lemma child_running:
  assumes "child_at i c0 (Running, c)" and "unat i < length (mg_pool (ch_manager c0))"
  shows "spawn_worker i Fork_child (ch_manager c0) = In_child (ch_manager c)"
proof -
  have pre: "child_at i c0 (pt, c) \<Longrightarrow>
      (pt = Flag_set \<longrightarrow> ch_manager c = (ch_manager c0)\<lparr>mg_worker := True\<rparr>) \<and>
      (pt = Id_set \<longrightarrow> ch_manager c = (ch_manager c0)\<lparr>mg_worker := True, mg_worker_id := i\<rparr>) \<and>
      (pt = Worker_made \<longrightarrow> ch_manager c =
        set_entry i (wp_worker_update (\<lambda>_. True)) ((ch_manager c0)\<lparr>mg_worker := True, mg_worker_id := i\<rparr>)) \<and>
      (pt = Entry_id_set \<longrightarrow> ch_manager c = set_entry i (wp_id_update (\<lambda>_. i))
        (set_entry i (wp_worker_update (\<lambda>_. True)) ((ch_manager c0)\<lparr>mg_worker := True, mg_worker_id := i\<rparr>))) \<and>
      (pt = Running \<longrightarrow> ch_manager c = set_entry i (wp_pid_update (\<lambda>_. 0)) (set_entry i (wp_id_update (\<lambda>_. i))
        (set_entry i (wp_worker_update (\<lambda>_. True)) ((ch_manager c0)\<lparr>mg_worker := True, mg_worker_id := i\<rparr>))))"
    for pt c
  proof (induction "(pt, c)" arbitrary: pt c rule: child_at.induct)
    case (step x)
    obtain pt' c' where x: "x = (pt', c')" by fastforce
    have "child_at i c0 (pt', c')" using step(1) x by simp
    from child_at_inv [OF this] have "pt' = Just_forked \<Longrightarrow> c' = c0" by (simp add: child_inv_def)
    with step(2) [OF x] step(3) x show ?case by (elim cstepE) simp_all
  qed simp
  have "e\<lparr>wp_worker := True, wp_id := i, wp_pid := 0\<rparr> = \<lparr>wp_pid = 0, wp_id = i, wp_worker = True\<rparr>" for e
    by simp
  with pre [OF assms(1)] assms(2) show ?thesis by (simp add: spawn_worker_def set_entry_def)
qed

section \<open>The worker process\<close>

text \<open>
  What the child does with its worker: the table of handlers, the connections until its requests
  are used up, the handlers deleted; then it exits. None is the death of the process before.
\<close>

definition worker_process :: "'w linker \<Rightarrow> 'w symbols_t \<Rightarrow> config_t \<Rightarrow> 'w tick \<Rightarrow> ('w \<Rightarrow> sock option \<times> 'w) \<Rightarrow>
    (u32 \<Rightarrow> sock \<Rightarrow> sock option) \<Rightarrow> manager_t \<Rightarrow> 'w \<Rightarrow> (sock list \<times> string list \<times> 'w) option" where
  "worker_process linker junk c tick accept timeout m w =
     (case load_req_handlers linker junk c of
        None \<Rightarrow> None
      | Some hs \<Rightarrow>
          case run tick accept timeout hs (mg_max_worker_requests m) (mg_comm_timeout m) w of
            None \<Rightarrow> None
          | Some (closed, w') \<Rightarrow> Some (closed, delete_worker hs, w'))"

lemma load_req_handlers_keys:
  assumes "load_req_handlers linker junk c = Some hs"
  shows "mset (delete_worker hs) = {#''OPTIONS'', ''REQMOD'', ''RESPMOD''#}"
proof -
  have hs: "map fst hs = [''OPTIONS'', ''REQMOD'', ''RESPMOD'']"
    using assms by (auto simp: load_req_handlers_def Let_def split: option.splits)
  then show ?thesis by (simp add: delete_worker_def delete_req_handlers_def)
qed

lemma worker_process_clients:
  assumes "module_configured tick md linker c" and "queued tick accept q"
    and "\<And>s. timeout (mg_comm_timeout m) s = Some s" and "list_all2 client (q w) rss"
  shows "\<exists>closed deleted w'. worker_process linker junk c tick accept timeout m w = Some (closed, deleted, w') \<and>
    map s_out closed = clients tick md accept rss (mg_max_worker_requests m) w \<and>
    mset deleted = {#''OPTIONS'', ''REQMOD'', ''RESPMOD''#}"
proof -
  obtain hs where hs: "load_req_handlers linker junk c = Some hs" "module_table tick md hs"
    using module_table_loaded [OF assms(1), of junk] by blast
  obtain closed w' where "run tick accept timeout hs (mg_max_worker_requests m) (mg_comm_timeout m) w =
      Some (closed, w')" "map s_out closed = clients tick md accept rss (mg_max_worker_requests m) w"
    using run_clients [OF hs(2) assms(2) _ assms(4), of timeout "mg_comm_timeout m"] assms(3) by blast
  with hs(1) load_req_handlers_keys [OF hs(1)] show ?thesis by (simp add: worker_process_def)
qed

section \<open>A termination signal while the first workers are spawned\<close>

text \<open>
  The pool during \<open>spawn\<close>, after \<open>k\<close> workers: their entries, and what the memory held in the
  others.
\<close>

lemma spawn_loop_append:
  "spawn_loop fork (is @ js) m w =
    (case spawn_loop fork is m w of Manager_at m' w' \<Rightarrow> spawn_loop fork js m' w' | x \<Rightarrow> x)"
  by (induction "is" arbitrary: m w) (auto split: prod.splits spawn_result.splits)

lemma spawn_loop_pool:
  assumes "\<And>w. \<exists>p w'. fork w = (Fork_parent p, w') \<and> 0 < p" and "length (mg_pool m) < 2 ^ 32" and "\<not> mg_worker m"
  shows "k \<le> length (mg_pool m) \<Longrightarrow>
    \<exists>ps m' w'. spawn_loop fork (map of_nat [0..<k]) m w = Manager_at m' w' \<and> length ps = k \<and>
      (\<forall>p\<in>set ps. 0 < p) \<and> map wp_pid (mg_pool m') = ps @ map wp_pid (drop k (mg_pool m)) \<and>
      \<not> mg_worker m' \<and> mg_max_workers m' = mg_max_workers m"
proof (induction k)
  case 0
  then show ?case using assms(3) by simp
next
  case (Suc k)
  then obtain ps m1 w1 where ih: "spawn_loop fork (map of_nat [0..<k]) m w = Manager_at m1 w1" "length ps = k"
      "\<forall>p\<in>set ps. 0 < p" "map wp_pid (mg_pool m1) = ps @ map wp_pid (drop k (mg_pool m))"
      "mg_max_workers m1 = mg_max_workers m" by auto
  obtain p w2 where f: "fork w1 = (Fork_parent p, w2)" "0 < p" using assms(1) by blast
  have u: "unat (of_nat k :: u32) = k" using Suc.prems assms(2) by (simp add: unat_of_nat take_bit_nat_eq_self)
  let ?e = "\<lparr>wp_pid = p, wp_id = of_nat k, wp_worker = False\<rparr>"
  let ?m2 = "m1\<lparr>mg_workers_count := mg_workers_count m1 + 1, mg_worker := False, mg_pool := (mg_pool m1)[k := ?e]\<rparr>"
  have "drop k (mg_pool m) = mg_pool m ! k # drop (Suc k) (mg_pool m)"
    using Suc.prems by (intro Cons_nth_drop_Suc [symmetric]) simp
  then have "map wp_pid (mg_pool ?m2) = (ps @ [p]) @ map wp_pid (drop (Suc k) (mg_pool m))"
    using ih(2,4) by (simp add: map_update list_update_append)
  moreover have "spawn_loop fork (map of_nat [0..<Suc k]) m w = Manager_at ?m2 w2"
    using ih(1) f(1) u by (simp add: spawn_loop_append spawn_worker_def)
  ultimately show ?case using ih(2,3,5) f(2)
    by (intro exI [of _ "ps @ [p]"] exI [of _ ?m2] exI [of _ w2]) auto
qed

text \<open>Which processes the signal is passed on to.\<close>

lemma shutdown_while_spawning:
  assumes "\<And>w. \<exists>p w'. fork w = (Fork_parent p, w') \<and> 0 < p" and "\<not> mg_worker m" and "k \<le> unat max_workers"
    and "mg_pool m = map junk [0..<unat max_workers]" and "mg_max_workers m = max_workers"
  shows "\<exists>ps m' w'. spawn_loop fork (map of_nat [0..<k]) m w = Manager_at m' w' \<and> length ps = k \<and>
    shutdown True m' = map Kill_term (ps @ filter (\<lambda>p. p \<noteq> 0) (map (\<lambda>j. wp_pid (junk j)) [k..<unat max_workers]))"
proof -
  have l: "length (mg_pool m) < 2 ^ 32" "k \<le> length (mg_pool m)"
    using assms(3,4) unsigned_less [where 'a = nat and w = max_workers] by simp_all
  obtain ps m' w' where s: "spawn_loop fork (map of_nat [0..<k]) m w = Manager_at m' w'" "length ps = k"
      "\<forall>p\<in>set ps. 0 < p" "map wp_pid (mg_pool m') = ps @ map wp_pid (drop k (mg_pool m))"
      "\<not> mg_worker m'" "mg_max_workers m' = mg_max_workers m"
    using spawn_loop_pool [of fork m k w, OF assms(1) l(1) assms(2) l(2)] by blast
  have "length (mg_pool m') = unat max_workers"
    using arg_cong [OF s(4), of length] s(2) l(2) assms(4) by simp
  then have "shutdown True m' = map Kill_term (filter (\<lambda>p. p \<noteq> 0) (map wp_pid (mg_pool m')))"
    using s(5,6) assms(5) by (simp add: shutdown_def filter_map comp_def)
  moreover have "filter (\<lambda>p. p \<noteq> 0) ps = ps" using s(3) by (auto simp: filter_id_conv)
  moreover have "map wp_pid (drop k (mg_pool m)) = map (\<lambda>j. wp_pid (junk j)) [k..<unat max_workers]"
    using assms(4) by (simp add: drop_map)
  ultimately show ?thesis using s(1,2,4) by auto
qed

end
