(* ===== verification/Store.thy ===== *)
theory Store
  imports Worker "HOL-Library.Monad_Syntax"
begin

text \<open>
  The objects the server makes with \<open>new\<close> and releases with \<open>delete\<close> while it serves a client, in
  a store of their own: pointers are addresses, and a request and its header, or a response and
  its header, are two objects. An address is not used again, so a pointer to a deleted object
  finds nothing; using or deleting it is undefined behaviour, and None.
\<close>

section \<open>Objects and addresses\<close>

type_synonym addr = nat

datatype obj =
    Request_header request_header
  | Response_header response_header
  | Request addr payload_t
  | Response addr payload_t bool
  | Modifier_object

record heap =
  hp_next :: addr
  hp_store :: "addr \<Rightarrow> obj option"

definition new_object :: "obj \<Rightarrow> heap \<Rightarrow> addr \<times> heap" where
  "new_object x h = (hp_next h, \<lparr>hp_next = Suc (hp_next h), hp_store = (hp_store h)(hp_next h \<mapsto> x)\<rparr>)"

definition put_object :: "addr \<Rightarrow> obj \<Rightarrow> heap \<Rightarrow> heap" where
  "put_object a x h = h\<lparr>hp_store := (hp_store h)(a \<mapsto> x)\<rparr>"

definition free_object :: "addr \<Rightarrow> heap \<Rightarrow> heap option" where
  "free_object a h =
     (case hp_store h a of None \<Rightarrow> None | Some _ \<Rightarrow> Some (h\<lparr>hp_store := (hp_store h)(a := None)\<rparr>))"

text \<open>A heap whose next address, and all behind it, are free.\<close>

definition heap_ok :: "heap \<Rightarrow> bool" where
  "heap_ok h \<longleftrightarrow> dom (hp_store h) \<subseteq> {..<hp_next h}"

section \<open>Requests and responses in the store\<close>

definition get_request_header :: "addr \<Rightarrow> heap \<Rightarrow> request_header option" where
  "get_request_header a h = (case hp_store h a of Some (Request_header hdr) \<Rightarrow> Some hdr | _ \<Rightarrow> None)"

definition get_request :: "addr \<Rightarrow> heap \<Rightarrow> request option" where
  "get_request a h =
     (case hp_store h a of
        Some (Request qa payload) \<Rightarrow>
          map_option (\<lambda>hdr. \<lparr>q_header = hdr, q_payload = payload\<rparr>) (get_request_header qa h)
      | _ \<Rightarrow> None)"

text \<open>What a function did to a request it was passed by pointer: the header is the caller's.\<close>

definition put_request :: "addr \<Rightarrow> request \<Rightarrow> heap \<Rightarrow> heap option" where
  "put_request a rq h =
     (case hp_store h a of
        Some (Request qa _) \<Rightarrow>
          Some (put_object a (Request qa (q_payload rq)) (put_object qa (Request_header (q_header rq)) h))
      | _ \<Rightarrow> None)"

definition get_response :: "addr \<Rightarrow> heap \<Rightarrow> response option" where
  "get_response a h =
     (case hp_store h a of
        Some (Response ha payload cleanup) \<Rightarrow>
          (case hp_store h ha of
             Some (Response_header hdr) \<Rightarrow>
               Some \<lparr>r_header = hdr, r_payload = payload, r_cleanup_header = cleanup\<rparr>
           | _ \<Rightarrow> None)
      | _ \<Rightarrow> None)"

text \<open>The constructors of \<open>Response\<close>.\<close>

definition new_response_object :: "response \<Rightarrow> heap \<Rightarrow> addr \<times> heap" where
  "new_response_object rs h =
     (case new_object (Response_header (r_header rs)) h of
        (ha, h1) \<Rightarrow> new_object (Response ha (r_payload rs) (r_cleanup_header rs)) h1)"

definition new_response_around :: "addr \<Rightarrow> heap \<Rightarrow> addr \<times> heap" where
  "new_response_around ha h = new_object (Response ha empty_payload False) h"

text \<open>\<open>delete response\<close>: the destructor, and the object itself.\<close>

definition delete_response :: "addr \<Rightarrow> heap \<Rightarrow> heap option" where
  "delete_response a h =
     (case hp_store h a of
        Some (Response ha _ cleanup) \<Rightarrow>
          do { h1 \<leftarrow> (if cleanup then free_object ha h else Some h); free_object a h1 }
      | _ \<Rightarrow> None)"

text \<open>\<open>response->header()->attach\<close>.\<close>

definition attach_response :: "string \<Rightarrow> string \<Rightarrow> addr \<Rightarrow> heap \<Rightarrow> heap option" where
  "attach_response k v a h =
     (case hp_store h a of
        Some (Response ha _ _) \<Rightarrow>
          (case hp_store h ha of
             Some (Response_header hdr) \<Rightarrow> Some (put_object ha (Response_header (attach k v hdr)) h)
           | _ \<Rightarrow> None)
      | _ \<Rightarrow> None)"

section \<open>What a run adds to the store\<close>

text \<open>From \<open>h\<close> to \<open>h'\<close> the objects of \<open>m\<close> were added, at new addresses, and nothing else changed.\<close>

definition adds :: "heap \<Rightarrow> (addr \<Rightarrow> obj option) \<Rightarrow> heap \<Rightarrow> bool" where
  "adds h m h' \<longleftrightarrow> hp_next h \<le> hp_next h' \<and> dom m \<subseteq> {hp_next h..<hp_next h'} \<and>
     hp_store h' = hp_store h ++ m"

lemma adds_refl [simp]: "adds h Map.empty h"
  by (simp add: adds_def)

lemma adds_finite: "adds h m h' \<Longrightarrow> finite (dom m)"
  unfolding adds_def by (meson finite_atLeastLessThan finite_subset)

lemma adds_ok: "heap_ok h \<Longrightarrow> adds h m h' \<Longrightarrow> heap_ok h'"
  unfolding adds_def heap_ok_def by fastforce

lemma adds_at: "adds h m h' \<Longrightarrow> m a = Some x \<Longrightarrow> hp_store h' a = Some x"
  by (simp add: adds_def)

lemma adds_old:
  assumes "heap_ok h" and "adds h m h'" and "hp_store h a = Some x"
  shows "hp_store h' a = Some x" and "m a = None"
proof -
  have "a < hp_next h" using assms(1,3) unfolding heap_ok_def by blast
  then show "m a = None" using assms(2) unfolding adds_def by fastforce
  with assms(2,3) show "hp_store h' a = Some x" by (simp add: adds_def map_add_def)
qed

lemma adds_trans:
  assumes "adds h m h'" and "adds h' m' h''"
  shows "adds h (m ++ m') h''" and "dom m \<inter> dom m' = {}"
  using assms unfolding adds_def by force+

lemma adds_new:
  assumes "adds h m h'" and "new_object x h' = (a, h'')"
  shows "adds h (m(a \<mapsto> x)) h''" and "m a = None" and "heap_ok h \<Longrightarrow> hp_store h a = None"
proof -
  have a: "a = hp_next h'" "h'' = \<lparr>hp_next = Suc a, hp_store = (hp_store h')(a \<mapsto> x)\<rparr>"
    using assms(2) by (auto simp: new_object_def)
  show "m a = None" using assms(1) a(1) unfolding adds_def by fastforce
  show "hp_store h a = None" if "heap_ok h"
    using assms(1) a(1) that unfolding adds_def heap_ok_def by fastforce
  show "adds h (m(a \<mapsto> x)) h''" using assms(1) a unfolding adds_def by fastforce
qed

lemma adds_put:
  assumes "adds h m h'" and "m a \<noteq> None"
  shows "adds h (m(a \<mapsto> x)) (put_object a x h')"
proof -
  have "insert a (dom m) = dom m" using assms(2) by blast
  with assms(1) show ?thesis by (simp add: adds_def put_object_def)
qed

text \<open>A change to an object that was there before.\<close>

lemma adds_put_old:
  assumes "heap_ok h" and "adds h m h'" and "hp_store h a \<noteq> None"
  shows "adds (put_object a x h) m (put_object a x h')" and "heap_ok (put_object a x h)"
proof -
  have "m a = None" using adds_old(2) [OF assms(1,2)] assms(3) by blast
  then have "(hp_store h ++ m)(a \<mapsto> x) = (hp_store h)(a \<mapsto> x) ++ m"
    by (auto simp: map_add_def fun_eq_iff split: option.splits)
  with assms(2) show "adds (put_object a x h) m (put_object a x h')" by (simp add: adds_def put_object_def)
  have "insert a (dom (hp_store h)) = dom (hp_store h)" using assms(3) by blast
  with assms(1) show "heap_ok (put_object a x h)" by (simp add: heap_ok_def put_object_def)
qed

lemma adds_free:
  assumes "adds h m h'" and "heap_ok h" and "m a \<noteq> None"
  shows "\<exists>h''. free_object a h' = Some h'' \<and> adds h (m(a := None)) h''"
proof -
  have "a \<in> {hp_next h..<hp_next h'}" using assms(1,3) unfolding adds_def by blast
  then have "hp_store h a = None" using assms(2) unfolding heap_ok_def by fastforce
  moreover have "hp_store h' a \<noteq> None" using assms(1,3) by (auto simp: adds_def)
  ultimately show ?thesis
    using assms(1) by (fastforce simp: free_object_def adds_def map_add_def split: option.splits)
qed

end
