(* ===== verification/Ownership.thy ===== *)
theory Ownership
  imports Store
begin

text \<open>
  The request handler, the OPTIONS handler and the worker once more, over the store: every
  \<open>new\<close> and \<open>delete\<close> of \<open>request_handler.cpp\<close>, \<open>options_request_handler.cpp\<close> and
  \<open>worker.cpp\<close>, every pointer passed on. The functions refine those on values: they never use or
  delete an object that is not there, give the same results, and leave all older objects alone
  but the request header they are given. What they leave behind is counted.
\<close>

section \<open>The request handler\<close>

definition server_error_object :: "'w tick \<Rightarrow> 'w \<Rightarrow> heap \<Rightarrow> (addr \<times> 'w) \<times> heap" where
  "server_error_object tick w h =
     (case server_error tick w of (err, w') \<Rightarrow> case new_response_object err h of (ra, h') \<Rightarrow> ((ra, w'), h'))"

text \<open>One use of a module: the object, and the response it makes.\<close>

definition ask_object :: "('w modifier \<Rightarrow> 'w answer) \<Rightarrow> 'w symbols_t \<Rightarrow> addr \<Rightarrow> 'w \<Rightarrow> heap \<Rightarrow>
    ((addr \<times> 'w) \<times> heap) option" where
  "ask_object virtual symbols rqa w h =
     (case sy_create symbols w of
        (md, w1) \<Rightarrow>
          case new_object Modifier_object h of
            (ma, h1) \<Rightarrow> do {
              rq \<leftarrow> get_request rqa h1;
              case virtual md rq w1 of
                ((rs, rq'), w2) \<Rightarrow> do {
                  h2 \<leftarrow> put_request rqa rq' h1;
                  (case new_response_object rs h2 of
                     (ra, h3) \<Rightarrow> do {
                       h4 \<leftarrow> free_object ma h3;
                       Some ((ra, sy_destroy symbols md w2), h4)
                     })
                }
            })"

definition preview_continue_object :: "addr \<Rightarrow> addr \<Rightarrow> sock \<Rightarrow> heap \<Rightarrow> ((bool \<times> sock) \<times> heap) option" where
  "preview_continue_object ra rqa s h = do {
     rq \<leftarrow> get_request rqa h;
     if ieof (q_payload rq) then Some ((False, s), h)
     else do {
       rs \<leftarrow> get_response ra h;
       (case send_response rs s of
          (ok, s1) \<Rightarrow>
            if ok then
              case read_req_continue_data rq s1 of
                ((status, rq'), s2) \<Rightarrow> do { h1 \<leftarrow> put_request rqa rq' h; Some ((status, s2), h1) }
            else Some ((False, s1), h))
     }
   }"

text \<open>The loops; the first argument is the pointer \<open>response\<close>.\<close>

fun preview_loop_object :: "'w tick \<Rightarrow> addr option \<Rightarrow> 'w handler_t list \<Rightarrow> addr \<Rightarrow> sock \<Rightarrow> 'w \<Rightarrow> heap \<Rightarrow>
    ((addr option \<times> sock \<times> 'w) \<times> heap) option" where
  "preview_loop_object tick p [] rqa s w h = Some ((p, s, w), h)"
| "preview_loop_object tick p (hn # hs) rqa s w h =
     (if hn_name hn = [] then preview_loop_object tick p hs rqa s w h
      else case ask_object md_preview (hn_symbols hn) rqa w h of
        None \<Rightarrow> None
      | Some ((ra, w1), h1) \<Rightarrow>
          case get_response ra h1 of
            None \<Rightarrow> None
          | Some rs \<Rightarrow>
              if status_of rs = NO_CONTENT \<or> status_of rs = OK then Some ((Some ra, s, w1), h1)
              else if status_of rs = CONTINUE then
                case preview_continue_object ra rqa s h1 of
                  None \<Rightarrow> None
                | Some ((continue_status, s1), h2) \<Rightarrow>
                    case delete_response ra h2 of
                      None \<Rightarrow> None
                    | Some h3 \<Rightarrow>
                        if continue_status then Some ((None, s1, w1), h3)
                        else case server_error_object tick w1 h3 of ((ea, w2), h4) \<Rightarrow> Some ((Some ea, s1, w2), h4)
              else preview_loop_object tick (Some ra) hs rqa s w1 h1)"

fun modify_loop_object :: "addr option \<Rightarrow> 'w handler_t list \<Rightarrow> addr \<Rightarrow> 'w \<Rightarrow> heap \<Rightarrow>
    ((addr option \<times> 'w) \<times> heap) option" where
  "modify_loop_object p [] rqa w h = Some ((p, w), h)"
| "modify_loop_object p (hn # hs) rqa w h =
     (if hn_name hn = [] then modify_loop_object p hs rqa w h
      else case ask_object md_modify (hn_symbols hn) rqa w h of
        None \<Rightarrow> None
      | Some ((ra, w1), h1) \<Rightarrow>
          case get_response ra h1 of
            None \<Rightarrow> None
          | Some rs \<Rightarrow>
              if status_of rs = OK then Some ((Some ra, w1), h1)
              else modify_loop_object (Some ra) hs rqa w1 h1)"

text \<open>What is done with a request whose data was read: the pointer \<open>response\<close> after it.\<close>

definition process_request_object :: "'w tick \<Rightarrow> 'w request_handler \<Rightarrow> addr \<Rightarrow> sock \<Rightarrow> 'w \<Rightarrow> heap \<Rightarrow>
    ((addr option \<times> sock \<times> 'w) \<times> heap) option" where
  "process_request_object tick rh rqa s w h = do {
     rq \<leftarrow> get_request rqa h;
     ((p, s1, w1), h1) \<leftarrow>
       (if 0 \<le> preview_size rq then preview_loop_object tick None (hd_handlers rh) rqa s w h
        else Some ((None, s, w), h));
     (case p of
        None \<Rightarrow> do {
          ((p', w2), h2) \<leftarrow> modify_loop_object None (hd_handlers rh) rqa w1 h1;
          Some ((p', s1, w2), h2)
        }
      | Some ra \<Rightarrow> Some ((Some ra, s1, w1), h1))
   }"

definition process_object :: "'w tick \<Rightarrow> 'w request_handler \<Rightarrow> addr \<Rightarrow> sock \<Rightarrow> 'w \<Rightarrow> heap \<Rightarrow>
    ((addr \<times> sock \<times> 'w) \<times> heap) option" where
  "process_object tick rh qa s w h =
     (case new_object (Request qa empty_payload) h of
        (rqa, h1) \<Rightarrow> do {
          rq \<leftarrow> get_request rqa h1;
          (case read_req_data rq s of
             ((read, rq'), s1) \<Rightarrow> do {
               h2 \<leftarrow> put_request rqa rq' h1;
               ((p, s2, w1), h3) \<leftarrow>
                 (if read then process_request_object tick rh rqa s1 w h2
                  else case server_error_object tick w h2 of ((ea, w1), h3) \<Rightarrow> Some ((Some ea, s1, w1), h3));
               h4 \<leftarrow> free_object rqa h3;
               (case p of
                  Some ra \<Rightarrow> Some ((ra, s2, w1), h4)
                | None \<Rightarrow> (case server_error_object tick w1 h4 of ((ea, w2), h5) \<Rightarrow> Some ((ea, s2, w2), h5)))
             })
        })"

section \<open>The OPTIONS handler and the worker\<close>

definition options_object :: "'w tick \<Rightarrow> 'w options_handler \<Rightarrow> 'w \<Rightarrow> heap \<Rightarrow> ((addr \<times> 'w) \<times> heap) option" where
  "options_object tick oh w h =
     (case tick w of
        (ev, w') \<Rightarrow>
          case new_object (Response_header (new_response_header (e_clock ev) OK)) h of
            (ha, h1) \<Rightarrow>
              case hd_methods oh of
                [] \<Rightarrow> None
              | m # _ \<Rightarrow>
                  let header = attach ''Methods'' m (new_response_header (e_clock ev) OK);
                      header = attach ''Options-TTL'' ''3600'' header;
                      header = attach ''Allow'' ''204'' header
                  in case new_response_around ha (put_object ha (Response_header header) h1) of
                       (ra, h2) \<Rightarrow> Some ((ra, w'), h2))"

definition not_allowed_object :: "'w tick \<Rightarrow> 'w \<Rightarrow> heap \<Rightarrow> (addr \<times> 'w) \<times> heap" where
  "not_allowed_object tick w h =
     (case tick w of
        (ev, w') \<Rightarrow>
          case new_object (Response_header (new_response_header (e_clock ev) NOT_ALLOWED)) h of
            (ha, h1) \<Rightarrow> case new_response_around ha h1 of (ra, h2) \<Rightarrow> ((ra, w'), h2))"

definition respond_object :: "'w tick \<Rightarrow> 'w req_handlers \<Rightarrow> addr \<Rightarrow> sock \<Rightarrow> 'w \<Rightarrow> heap \<Rightarrow>
    ((addr \<times> sock \<times> 'w) \<times> heap) option" where
  "respond_object tick hs qa s w h = do {
     hdr \<leftarrow> get_request_header qa h;
     (case find_req_handler hs (method_of hdr) of
        Some (Options_handler oh) \<Rightarrow> do { ((ra, w'), h') \<leftarrow> options_object tick oh w h; Some ((ra, s, w'), h') }
      | Some (Mod_handler rh) \<Rightarrow> process_object tick rh qa s w h
      | None \<Rightarrow> (case not_allowed_object tick w h of ((ra, w'), h') \<Rightarrow> Some ((ra, s, w'), h')))
   }"

text \<open>From the response to the test at the end of the loop of \<open>serve_client\<close>.\<close>

definition reply_object :: "addr \<Rightarrow> addr \<Rightarrow> sock \<Rightarrow> heap \<Rightarrow> ((bool \<times> sock) \<times> heap) option" where
  "reply_object qa ra s h = do {
     hdr \<leftarrow> get_request_header qa h;
     h1 \<leftarrow> (if keep_alive hdr then attach_response ''Connection'' ''keep-alive'' ra h else Some h);
     rs \<leftarrow> get_response ra h1;
     (case send_response rs s of
        (_, s1) \<Rightarrow> do {
          h2 \<leftarrow> delete_response ra h1;
          hdr' \<leftarrow> get_request_header qa h2;
          Some ((keep_alive hdr', s1), h2)
        })
   }"

text \<open>\<open>serve_client\<close>; the pointer is \<open>req_header\<close>, null before the first round.\<close>

function serve_client_object :: "'w tick \<Rightarrow> 'w req_handlers \<Rightarrow> addr option \<Rightarrow> sock \<Rightarrow> u32 \<Rightarrow> 'w \<Rightarrow> heap \<Rightarrow>
    ((u32 \<times> sock \<times> 'w) \<times> heap) option" where
  "serve_client_object tick hs p s max_requests w h =
     (case (case p of None \<Rightarrow> Some h | Some a \<Rightarrow> free_object a h) of
        None \<Rightarrow> None
      | Some h0 \<Rightarrow>
          case read_req_header s of
            (hdr, s1) \<Rightarrow>
              case new_object (Request_header hdr) h0 of
                (qa, h1) \<Rightarrow>
                  if s_timedout s1 then Some ((max_requests - 1, s1, w), h1)
                  else case respond_object tick hs qa s1 w h1 of
                    None \<Rightarrow> None
                  | Some ((ra, s2, w1), h2) \<Rightarrow>
                      case reply_object qa ra s2 h2 of
                        None \<Rightarrow> None
                      | Some ((keep, s3), h3) \<Rightarrow>
                          if 0 < max_requests - 1 \<and> keep
                          then serve_client_object tick hs (Some qa) s3 (max_requests - 1) w1 h3
                          else (case free_object qa h3 of
                                  None \<Rightarrow> None
                                | Some h4 \<Rightarrow> Some ((max_requests - 1, s3, w1), h4)))"
  by pat_completeness auto
termination
proof (relation "measure (\<lambda>(_, _, _, _, m, _, _). unat (m - 1))", goal_cases)
  case (2 tick hs p s m w h h0 hdr s1 qa h1 a ra b s2 w1 h2 c keep s3 h3)
  then have "m - 1 \<noteq> 0" by auto
  then show ?case using unat_dec [of "m - 1"] by (simp add: unat_gt_0)
qed simp

declare serve_client_object.simps [simp del]

section \<open>Requests\<close>

text \<open>A request is in the store, with the header that belongs to the caller.\<close>

definition request_at :: "addr \<Rightarrow> addr \<Rightarrow> request \<Rightarrow> heap \<Rightarrow> bool" where
  "request_at rqa qa rq h \<longleftrightarrow> hp_store h rqa = Some (Request qa (q_payload rq)) \<and>
     hp_store h qa = Some (Request_header (q_header rq))"

definition set_request :: "addr \<Rightarrow> addr \<Rightarrow> request \<Rightarrow> heap \<Rightarrow> heap" where
  "set_request rqa qa rq h =
     put_object rqa (Request qa (q_payload rq)) (put_object qa (Request_header (q_header rq)) h)"

lemma request_at_distinct: "request_at rqa qa rq h \<Longrightarrow> rqa \<noteq> qa"
  by (auto simp: request_at_def)

lemma get_request_at: "request_at rqa qa rq h \<Longrightarrow> get_request rqa h = Some rq"
  by (simp add: request_at_def get_request_def get_request_header_def)

lemma put_request_at: "request_at rqa qa rq h \<Longrightarrow> put_request rqa rq' h = Some (set_request rqa qa rq' h)"
  by (simp add: request_at_def put_request_def set_request_def)

lemma set_request_at: "rqa \<noteq> qa \<Longrightarrow> request_at rqa qa rq (set_request rqa qa rq h)"
  by (simp add: request_at_def set_request_def put_object_def)

lemma set_request_again: "rqa \<noteq> qa \<Longrightarrow> set_request rqa qa rq' (set_request rqa qa rq h) = set_request rqa qa rq' h"
  by (simp add: set_request_def put_object_def fun_upd_twist)

lemma set_request_same: "request_at rqa qa rq h \<Longrightarrow> set_request rqa qa rq h = h"
  by (simp add: request_at_def set_request_def put_object_def fun_upd_idem)

lemma request_at_adds: "heap_ok h \<Longrightarrow> adds h m h' \<Longrightarrow> request_at rqa qa rq h \<Longrightarrow> request_at rqa qa rq h'"
  by (simp add: request_at_def adds_old(1))

text \<open>A change to the request goes through what was added since.\<close>

lemma adds_set_request:
  assumes "heap_ok h" and "adds h m h'" and "request_at rqa qa rq h"
  shows "adds (set_request rqa qa rq' h) m (set_request rqa qa rq' h')" and "heap_ok (set_request rqa qa rq' h)"
proof -
  have a: "hp_store h qa \<noteq> None" "hp_store (put_object qa (Request_header (q_header rq')) h) rqa \<noteq> None"
    using assms(3) by (simp_all add: request_at_def put_object_def)
  note b = adds_put_old [OF assms(1,2) a(1), of "Request_header (q_header rq')"]
  note c = adds_put_old [OF b(2,1) a(2), of "Request qa (q_payload rq')"]
  show "adds (set_request rqa qa rq' h) m (set_request rqa qa rq' h')" "heap_ok (set_request rqa qa rq' h)"
    using c unfolding set_request_def by blast+
qed

lemma set_request_ok: "heap_ok h \<Longrightarrow> request_at rqa qa rq h \<Longrightarrow> heap_ok (set_request rqa qa rq' h)"
  by (rule adds_set_request(2) [OF _ adds_refl])

section \<open>Responses\<close>

text \<open>The two objects of a response among what was added.\<close>

definition response_map :: "addr \<Rightarrow> addr \<Rightarrow> response \<Rightarrow> addr \<Rightarrow> obj option" where
  "response_map ra ha rs =
     [ha \<mapsto> Response_header (r_header rs), ra \<mapsto> Response ha (r_payload rs) (r_cleanup_header rs)]"

definition response_in :: "(addr \<Rightarrow> obj option) \<Rightarrow> addr \<Rightarrow> addr \<Rightarrow> response \<Rightarrow> bool" where
  "response_in m ra ha rs \<longleftrightarrow> m ra = Some (Response ha (r_payload rs) (r_cleanup_header rs)) \<and>
     m ha = Some (Response_header (r_header rs))"

lemma response_in_distinct: "response_in m ra ha rs \<Longrightarrow> ra \<noteq> ha"
  by (auto simp: response_in_def)

lemma response_in_map: "ra \<noteq> ha \<Longrightarrow> response_in (response_map ra ha rs) ra ha rs"
  by (simp add: response_in_def response_map_def)

lemma response_in_add: "response_in m' ra ha rs \<Longrightarrow> response_in (m ++ m') ra ha rs"
  by (simp add: response_in_def)

lemma response_map_card: "ra \<noteq> ha \<Longrightarrow> card (dom (response_map ra ha rs)) = 2"
  by (simp add: response_map_def)

lemma response_in_only:
  assumes "response_in m ra ha rs" and "card (dom m) = 2"
  shows "m = response_map ra ha rs"
proof -
  have "finite (dom m)" using assms(2) card.infinite by fastforce
  moreover have "{ra, ha} \<subseteq> dom m" "card {ra, ha} = 2"
    using assms(1) response_in_distinct [OF assms(1)] by (auto simp: response_in_def)
  ultimately have "dom m = {ra, ha}" using assms(2) card_subset_eq by metis
  with assms(1) show ?thesis
    by (auto simp: response_map_def response_in_def fun_eq_iff domIff split: if_splits)
qed

lemma get_response_in:
  assumes "adds h m h'" and "response_in m ra ha rs"
  shows "get_response ra h' = Some rs"
  using adds_at [OF assms(1)] assms(2) by (simp add: response_in_def get_response_def)

lemma new_response_adds:
  assumes "adds h m h'" and "new_response_object rs h' = (ra, h'')"
  obtains ha where "adds h (m ++ response_map ra ha rs) h''" and "ra \<noteq> ha" and "m ra = None" and "m ha = None"
proof -
  obtain ha h1 where n: "new_object (Response_header (r_header rs)) h' = (ha, h1)" by fastforce
  have n2: "new_object (Response ha (r_payload rs) (r_cleanup_header rs)) h1 = (ra, h'')"
    using assms(2) n by (simp add: new_response_object_def)
  note a = adds_new [OF assms(1) n]
  note b = adds_new [OF a(1) n2]
  have "m ++ response_map ra ha rs =
      (m(ha \<mapsto> Response_header (r_header rs)))(ra \<mapsto> Response ha (r_payload rs) (r_cleanup_header rs))"
    by (simp add: response_map_def)
  with that [of ha] a b show thesis by (auto split: if_splits)
qed

text \<open>Deleting a response leaves its header where the flag says so.\<close>

lemma delete_response_in:
  assumes "heap_ok h" and "adds h m h'" and "response_in m ra ha rs"
  shows "\<exists>h''. delete_response ra h' = Some h'' \<and>
    adds h ((if r_cleanup_header rs then m(ha := None) else m)(ra := None)) h''"
proof -
  have st: "hp_store h' ra = Some (Response ha (r_payload rs) (r_cleanup_header rs))"
    using adds_at [OF assms(2)] assms(3) by (simp add: response_in_def)
  let ?m = "if r_cleanup_header rs then m(ha := None) else m"
  obtain h1 where h1: "(if r_cleanup_header rs then free_object ha h' else Some h') = Some h1" "adds h ?m h1"
  proof (cases "r_cleanup_header rs")
    case True
    with that adds_free [OF assms(2,1), of ha] assms(3) show thesis by (auto simp: response_in_def)
  qed (use that assms(2) in simp)
  have "?m ra \<noteq> None" using assms(3) by (auto simp: response_in_def)
  then obtain h2 where "free_object ra h1 = Some h2" "adds h (?m(ra := None)) h2"
    using adds_free [OF h1(2) assms(1)] by blast
  with st h1(1) show ?thesis by (simp add: delete_response_def)
qed

end
