(* ===== verification/Release.thy ===== *)
theory Release
  imports Ownership Service
begin

text \<open>
  The functions over the store refine those on values, and what they leave in the store. With
  one loaded module that owns what it answers, a request handler leaves its response and nothing
  else.
\<close>

section \<open>Asking a module\<close>

lemma server_error_adds:
  assumes "adds h m h'" and "server_error tick w = (err, w')"
  obtains ra ha h'' where "server_error_object tick w h' = ((ra, w'), h'')" and "ra \<noteq> ha"
    and "adds h (m ++ response_map ra ha err) h''" and "m ra = None" and "m ha = None"
proof -
  obtain ra h'' where n: "new_response_object err h' = (ra, h'')" by fastforce
  obtain ha where "adds h (m ++ response_map ra ha err) h''" "ra \<noteq> ha" "m ra = None" "m ha = None"
    by (rule new_response_adds [OF assms(1) n])
  with that n assms(2) show thesis by (simp add: server_error_object_def)
qed

lemma ask_refines:
  assumes "heap_ok h" and "request_at rqa qa rq h" and "ask_modifier virtual sy rq w = ((rs, rq'), w')"
  obtains ra ha h' where "ask_object virtual sy rqa w h = Some ((ra, w'), h')" and "ra \<noteq> ha"
    and "adds (set_request rqa qa rq' h) (response_map ra ha rs) h'"
proof -
  obtain md w1 where c: "sy_create sy w = (md, w1)" by fastforce
  obtain w2 where v: "virtual md rq w1 = ((rs, rq'), w2)" "w' = sy_destroy sy md w2"
    using assms(3) c by (auto simp: ask_modifier_def split: prod.splits)
  obtain ma h1 where n: "new_object Modifier_object h = (ma, h1)" by fastforce
  note a1 = adds_new [OF adds_refl n]
  have at1: "request_at rqa qa rq h1" by (rule request_at_adds [OF assms(1) a1(1) assms(2)])
  note s1 = adds_set_request [OF assms(1) a1(1) assms(2), of rq']
  obtain ra h3 where r: "new_response_object rs (set_request rqa qa rq' h1) = (ra, h3)" by fastforce
  obtain ha where a3: "adds (set_request rqa qa rq' h) ([ma \<mapsto> Modifier_object] ++ response_map ra ha rs) h3"
      "ra \<noteq> ha" "[ma \<mapsto> Modifier_object] ra = None" "[ma \<mapsto> Modifier_object] ha = None"
    using new_response_adds [OF s1(1) r] by auto
  let ?m = "[ma \<mapsto> Modifier_object] ++ response_map ra ha rs"
  have ma: "ma \<noteq> ra" "ma \<noteq> ha" using a3(3,4) by (auto split: if_splits)
  then have "?m ma \<noteq> None" "?m(ma := None) = response_map ra ha rs"
    by (auto simp: response_map_def fun_eq_iff map_add_def)
  then obtain h4 where "free_object ma h3 = Some h4" "adds (set_request rqa qa rq' h) (response_map ra ha rs) h4"
    using adds_free [OF a3(1) s1(2), of ma] by auto
  with that [of ra h4 ha] a3(2) c n v r get_request_at [OF at1] put_request_at [OF at1, of rq']
  show thesis by (simp add: ask_object_def)
qed

section \<open>The loops\<close>

text \<open>How many of the answers are asked for: up to the first that decides.\<close>

fun asked :: "(response \<Rightarrow> bool) \<Rightarrow> ((response \<times> request) \<times> 'w) list \<Rightarrow> nat" where
  "asked P [] = 0"
| "asked P (((rs, rq), w) # as) = (if P rs then 1 else Suc (asked P as))"

text \<open>
  Two objects for every answer that was asked for, of which the last is the response: the
  answers before it are left in the store.
\<close>

lemma two_more:
  assumes "adds h m h'" and "adds h' m' h''" and "card (dom m) = 2"
  shows "card (dom (m ++ m')) = 2 + card (dom m')"
  using adds_finite [OF assms(1)] adds_finite [OF assms(2)] adds_trans(2) [OF assms(1,2)] assms(3)
  by (simp add: card_Un_disjoint inf_commute)

lemma modify_loop_refines:
  assumes "heap_ok h" and "request_at rqa qa rq h"
    and "process_modify_loop rs hs rq w = ((rs', rq'), w')"
  shows "\<exists>p' m h'. modify_loop_object p hs rqa w h = Some ((p', w'), h') \<and>
    adds (set_request rqa qa rq' h) m h' \<and>
    card (dom m) = 2 * asked (\<lambda>r. status_of r = OK) (modify_answers (loaded hs) rq w) \<and>
    (if loaded hs = [] then p' = p \<and> rs' = rs
     else \<exists>ra ha r. p' = Some ra \<and> rs' = Some r \<and> response_in m ra ha r)"
  using assms
proof (induction hs arbitrary: p rs rq w h)
  case Nil
  then show ?case by (auto simp: loaded_def set_request_same intro: exI [of _ Map.empty])
next
  case (Cons hn hs)
  show ?case
  proof (cases "hn_name hn = []")
    case True
    with Cons.IH [OF Cons.prems(1,2)] Cons.prems(3) show ?thesis by (simp add: loaded_def)
  next
    case False
    obtain r q v where a: "ask_modifier md_modify (hn_symbols hn) rq w = ((r, q), v)" by (metis prod.exhaust)
    obtain ra ha h1 where o: "ask_object md_modify (hn_symbols hn) rqa w h = Some ((ra, v), h1)" "ra \<noteq> ha"
        "adds (set_request rqa qa q h) (response_map ra ha r) h1"
      by (rule ask_refines [OF Cons.prems(1,2) a])
    have gr: "get_response ra h1 = Some r" by (rule get_response_in [OF o(3) response_in_map [OF o(2)]])
    have l: "loaded (hn # hs) = hn # loaded hs" using False by (simp add: loaded_def)
    show ?thesis
    proof (cases "status_of r = OK")
      case True
      with Cons.prems(3) False a have "rs' = Some r" "rq' = q" "w' = v" by auto
      with True False a o gr l response_in_map [OF o(2), of r] show ?thesis
        by (auto simp: response_map_card intro!: exI [of _ "response_map ra ha r"])
    next
      case notok: False
      have d: "rqa \<noteq> qa" by (rule request_at_distinct [OF Cons.prems(2)])
      have ok: "heap_ok h1" "request_at rqa qa q h1"
        using adds_ok [OF _ o(3)] request_at_adds [OF _ o(3)] set_request_ok [OF Cons.prems(1,2)]
          set_request_at [OF d] by blast+
      have rec: "process_modify_loop (Some r) hs q v = ((rs', rq'), w')" using Cons.prems(3) False a notok by simp
      obtain p' m h' where ih: "modify_loop_object (Some ra) hs rqa v h1 = Some ((p', w'), h')"
          "adds (set_request rqa qa rq' h1) m h'"
          "card (dom m) = 2 * asked (\<lambda>r. status_of r = OK) (modify_answers (loaded hs) q v)"
          "if loaded hs = [] then p' = Some ra \<and> rs' = Some r
           else \<exists>ra ha r. p' = Some ra \<and> rs' = Some r \<and> response_in m ra ha r"
        using Cons.IH [OF ok rec, of "Some ra"] by blast
      have "adds (set_request rqa qa rq' h) (response_map ra ha r) (set_request rqa qa rq' h1)"
        using adds_set_request(1) [OF set_request_ok [OF Cons.prems(1,2)] o(3) set_request_at [OF d], of rq']
        by (simp add: set_request_again [OF d])
      note t = adds_trans(1) [OF this ih(2)] and two = two_more [OF this ih(2) response_map_card [OF o(2)]]
      have "if loaded hs = [] then m = Map.empty else True"
        using ih(3) adds_finite [OF ih(2)] by auto
      then have "\<exists>ra' ha' r'. p' = Some ra' \<and> rs' = Some r' \<and> response_in (response_map ra ha r ++ m) ra' ha' r'"
        using ih(4) response_in_map [OF o(2), of r] response_in_add by (cases "loaded hs = []") (auto, blast)
      moreover have "modify_loop_object p (hn # hs) rqa w h = Some ((p', w'), h')"
        using False o(1) gr notok ih(1) by simp
      moreover have "card (dom (response_map ra ha r ++ m)) =
          2 * asked (\<lambda>r. status_of r = OK) (modify_answers (loaded (hn # hs)) rq w)"
        using two ih(3) l a notok by (simp del: dom_map_add)
      ultimately show ?thesis using t l by (metis list.distinct(1))
    qed
  qed
qed


lemma preview_continue_refines:
  assumes "request_at rqa qa rq h" and "get_response ra h = Some rs"
    and "preview_continue rs rq s = ((ok, rq'), s')"
  shows "preview_continue_object ra rqa s h = Some ((ok, s'), set_request rqa qa rq' h)"
  using assms(3) get_request_at [OF assms(1)] put_request_at [OF assms(1)] set_request_same [OF assms(1)] assms(2)
  by (auto simp: preview_continue_object_def preview_continue_def split: if_splits prod.splits)

text \<open>
  The response that asked to continue is deleted. The count holds where the answers own their
  headers.
\<close>

definition own_headers :: "((response \<times> request) \<times> 'w) list \<Rightarrow> bool" where
  "own_headers as \<longleftrightarrow> (\<forall>((rs, rq), w)\<in>set as. r_cleanup_header rs)"

lemma preview_loop_refines:
  assumes "heap_ok h" and "request_at rqa qa rq h"
    and "process_preview_loop tick rs hs rq s w = ((rs', rq'), s', w')"
  shows "\<exists>p' m h'. preview_loop_object tick p hs rqa s w h = Some ((p', s', w'), h') \<and>
    adds (set_request rqa qa rq' h) m h' \<and>
    (own_headers (preview_answers (loaded hs) rq w) \<longrightarrow>
       card (dom m) + (if p' = None \<and> loaded hs \<noteq> [] then 2 else 0) =
         2 * asked decisive (preview_answers (loaded hs) rq w)) \<and>
    (if loaded hs = [] then p' = p \<and> rs' = rs
     else (p' = None \<and> rs' = None) \<or>
       (\<exists>ra ha r. p' = Some ra \<and> rs' = Some r \<and> response_in m ra ha r))"
  using assms
proof (induction hs arbitrary: p rs rq w h)
  case Nil
  then show ?case by (auto simp: loaded_def set_request_same intro: exI [of _ Map.empty])
next
  case (Cons hn hs)
  show ?case
  proof (cases "hn_name hn = []")
    case True
    with Cons.IH [OF Cons.prems(1,2)] Cons.prems(3) show ?thesis by (simp add: loaded_def)
  next
    case False
    obtain r q v where a: "ask_modifier md_preview (hn_symbols hn) rq w = ((r, q), v)" by (metis prod.exhaust)
    obtain ra ha h1 where o: "ask_object md_preview (hn_symbols hn) rqa w h = Some ((ra, v), h1)" "ra \<noteq> ha"
        "adds (set_request rqa qa q h) (response_map ra ha r) h1"
      by (rule ask_refines [OF Cons.prems(1,2) a])
    have gr: "get_response ra h1 = Some r" by (rule get_response_in [OF o(3) response_in_map [OF o(2)]])
    have l: "loaded (hn # hs) = hn # loaded hs" using False by (simp add: loaded_def)
    have d: "rqa \<noteq> qa" by (rule request_at_distinct [OF Cons.prems(2)])
    have at1: "heap_ok h1" "request_at rqa qa q h1"
      using adds_ok [OF _ o(3)] request_at_adds [OF _ o(3)] set_request_ok [OF Cons.prems(1,2)]
        set_request_at [OF d] by blast+
    have a1: "adds (set_request rqa qa q' h) (response_map ra ha r) (set_request rqa qa q' h1)" for q'
      using adds_set_request(1) [OF set_request_ok [OF Cons.prems(1,2)] o(3) set_request_at [OF d], of q']
      by (simp add: set_request_again [OF d])
    note lv = False a o(1) gr
    consider (final) "status_of r = NO_CONTENT \<or> status_of r = OK" | (continue) "status_of r = CONTINUE"
      | (other) "\<not> decisive r" by (auto simp: decisive_def)
    then show ?thesis
    proof cases
      case final
      with Cons.prems(3) lv have "rs' = Some r" "rq' = q" "w' = v" "s' = s" by auto
      moreover have "preview_loop_object tick p (hn # hs) rqa s w h = Some ((Some ra, s, v), h1)"
        using final lv by simp
      moreover have "decisive r" using final by (auto simp: decisive_def)
      ultimately show ?thesis
        using o l a response_in_map [OF o(2), of r]
        by (auto simp: response_map_card intro!: exI [of _ "response_map ra ha r"])
    next
      case continue
      obtain ok q' s1 where pc: "preview_continue r q s = ((ok, q'), s1)" by (metis prod.exhaust)
      have po: "preview_continue_object ra rqa s h1 = Some ((ok, s1), set_request rqa qa q' h1)"
        by (rule preview_continue_refines [OF at1(2) gr pc])
      obtain h2 where h2: "delete_response ra (set_request rqa qa q' h1) = Some h2"
          "adds (set_request rqa qa q' h)
            ((if r_cleanup_header r then (response_map ra ha r)(ha := None) else response_map ra ha r)(ra := None)) h2"
        using delete_response_in [OF set_request_ok [OF Cons.prems(1,2)] a1 response_in_map [OF o(2)]] by blast
      let ?m = "(if r_cleanup_header r then (response_map ra ha r)(ha := None) else response_map ra ha r)(ra := None)"
      have e: "r_cleanup_header r \<Longrightarrow> ?m = Map.empty" using o(2) by (auto simp: response_map_def fun_eq_iff)
      have dec: "decisive r" using continue by (simp add: decisive_def)
      show ?thesis
      proof (cases ok)
        case True
        with Cons.prems(3) lv continue pc have "rs' = None" "rq' = q'" "w' = v" "s' = s1" by auto
        moreover have "preview_loop_object tick p (hn # hs) rqa s w h = Some ((None, s1, v), h2)"
          using continue lv po h2(1) True by simp
        moreover have "card (dom ?m) + 2 = 2 * asked decisive (preview_answers (loaded (hn # hs)) rq w)"
          if "own_headers (preview_answers (loaded (hn # hs)) rq w)"
          using e l a dec that by (simp add: own_headers_def)
        ultimately show ?thesis using h2(2) l by auto
      next
        case notok: False
        obtain err w2 where se: "server_error tick v = (err, w2)" by fastforce
        obtain ea eh h3 where s3: "server_error_object tick v h2 = ((ea, w2), h3)" "ea \<noteq> eh"
            "adds (set_request rqa qa q' h) (?m ++ response_map ea eh err) h3"
          by (rule server_error_adds [OF h2(2) se])
        from Cons.prems(3) lv continue pc notok se have "rs' = Some err" "rq' = q'" "w' = w2" "s' = s1" by auto
        moreover have "preview_loop_object tick p (hn # hs) rqa s w h = Some ((Some ea, s1, w2), h3)"
          using continue lv po h2(1) notok s3(1) by simp
        moreover have "card (dom (?m ++ response_map ea eh err)) =
            2 * asked decisive (preview_answers (loaded (hn # hs)) rq w)"
          if "own_headers (preview_answers (loaded (hn # hs)) rq w)"
          using e l a dec that response_map_card [OF s3(2), of err] by (simp add: own_headers_def)
        moreover have "response_in (?m ++ response_map ea eh err) ea eh err"
          by (rule response_in_add [OF response_in_map [OF s3(2)]])
        ultimately show ?thesis using s3(3) l by auto
      qed
    next
      case other
      then have n: "\<not> (status_of r = NO_CONTENT \<or> status_of r = OK)" "status_of r \<noteq> CONTINUE"
        by (auto simp: decisive_def)
      have rec: "process_preview_loop tick (Some r) hs q s v = ((rs', rq'), s', w')" using Cons.prems(3) lv n by simp
      obtain p' m h' where ih: "preview_loop_object tick (Some ra) hs rqa s v h1 = Some ((p', s', w'), h')"
          "adds (set_request rqa qa rq' h1) m h'"
          "own_headers (preview_answers (loaded hs) q v) \<longrightarrow>
            card (dom m) + (if p' = None \<and> loaded hs \<noteq> [] then 2 else 0) =
              2 * asked decisive (preview_answers (loaded hs) q v)"
          "if loaded hs = [] then p' = Some ra \<and> rs' = Some r
           else (p' = None \<and> rs' = None) \<or> (\<exists>ra ha r. p' = Some ra \<and> rs' = Some r \<and> response_in m ra ha r)"
        using Cons.IH [OF at1 rec, of "Some ra"] by blast
      note t = adds_trans(1) [OF a1 ih(2)] and two = two_more [OF a1 ih(2) response_map_card [OF o(2)]]
      have "loaded hs = [] \<Longrightarrow> m = Map.empty"
        using ih(3) adds_finite [OF ih(2)] by (auto simp: own_headers_def)
      then have "(p' = None \<and> rs' = None) \<or> (\<exists>ra' ha' r'. p' = Some ra' \<and> rs' = Some r' \<and>
          response_in (response_map ra ha r ++ m) ra' ha' r')"
        using ih(4) response_in_map [OF o(2), of r] by (cases "loaded hs = []") (auto intro: response_in_add)
      moreover have "preview_loop_object tick p (hn # hs) rqa s w h = Some ((p', s', w'), h')"
        using lv n ih(1) by simp
      moreover have "card (dom (response_map ra ha r ++ m)) + (if p' = None \<and> loaded (hn # hs) \<noteq> [] then 2 else 0) =
          2 * asked decisive (preview_answers (loaded (hn # hs)) rq w)"
        if "own_headers (preview_answers (loaded (hn # hs)) rq w)"
        using two ih(3,4) l a other that by (cases "loaded hs = []") (auto simp: own_headers_def simp del: dom_map_add)
      ultimately show ?thesis using t l by (metis list.distinct(1))
    qed
  qed
qed


section \<open>A request handler\<close>

text \<open>The middle of \<open>process\<close>, on values.\<close>

definition process_request :: "'w tick \<Rightarrow> 'w request_handler \<Rightarrow> request \<Rightarrow> sock \<Rightarrow> 'w \<Rightarrow>
    (response option \<times> request) \<times> sock \<times> 'w" where
  "process_request tick rh rq s w =
     (case (if 0 \<le> preview_size rq then process_preview tick rh rq s w else ((None, rq), s, w)) of
        ((None, rq1), s1, w1) \<Rightarrow> (case process_modify rh rq1 w1 of ((rs, rq2), w2) \<Rightarrow> ((rs, rq2), s1, w2))
      | ((Some r, rq1), s1, w1) \<Rightarrow> ((Some r, rq1), s1, w1))"

lemma process_by_request:
  "process tick rh hdr s w =
    (case read_req_data (new_request hdr) s of
       ((_, rq), s1) \<Rightarrow>
         case process_request tick rh rq s1 w of
           ((Some r, rq'), s2, w') \<Rightarrow> ((r, q_header rq'), s2, w')
         | ((None, rq'), s2, w') \<Rightarrow>
             (case server_error tick w' of (err, w'') \<Rightarrow> ((err, q_header rq'), s2, w'')))"
  by (auto simp: process_def process_request_def read_req_data_def split: prod.splits option.splits if_splits)

text \<open>
  Handlers with one loaded module that owns what it answers; of requests whose method holds no
  null byte, as the specification of the modules is.
\<close>

definition tidy :: "'w request_handler \<Rightarrow> bool" where
  "tidy rh \<longleftrightarrow> (\<exists>hn. loaded (hd_handlers rh) = [hn] \<and>
     (\<forall>rq w. plain_method rq \<longrightarrow>
        r_cleanup_header (fst (fst (ask_modifier md_modify (hn_symbols hn) rq w))) \<and>
        r_cleanup_header (fst (fst (ask_modifier md_preview (hn_symbols hn) rq w))) \<and>
        plain_method (snd (fst (ask_modifier md_preview (hn_symbols hn) rq w)))))"

lemma serves_tidy: "serves_as tick md rh \<Longrightarrow> tidy rh"
proof -
  assume "serves_as tick md rh"
  then obtain hn where hn: "loaded (hd_handlers rh) = [hn]"
      "\<And>rq w ev w'. plain_method rq \<Longrightarrow> tick w = (ev, w') \<Longrightarrow>
         ask_modifier md_modify (hn_symbols hn) rq w = ((echo_modify (module_env md ev) rq, rq), w') \<and>
         ask_modifier md_preview (hn_symbols hn) rq w = ((preview_of md ev rq, rq), w')"
    unfolding serves_as_def by blast
  have "r_cleanup_header (echo_modify ev rq)" "r_cleanup_header (preview_of md ev rq)" for ev rq
    by (simp_all add: echo_modify_def preview_of_def echo_preview_def set_response_payload_def new_response_def Let_def)
  with hn(2) have "r_cleanup_header (fst (fst (ask_modifier md_modify (hn_symbols hn) rq w))) \<and>
      r_cleanup_header (fst (fst (ask_modifier md_preview (hn_symbols hn) rq w))) \<and>
      plain_method (snd (fst (ask_modifier md_preview (hn_symbols hn) rq w)))" if "plain_method rq" for rq w
    using that by (cases "tick w") simp
  with hn(1) show "tidy rh" unfolding tidy_def by blast
qed

lemma method_kept [simp]: "method_of (update_encapsulated p h) = method_of h"
  by (simp add: method_of_def update_encapsulated_def split: prod.splits)

lemma continue_plain:
  assumes "preview_continue rs rq s = ((ok, rq'), s')"
  shows "plain_method rq' = plain_method rq"
  using assms by (auto simp: preview_continue_def read_req_continue_data_def plain_method_def q_header_set Let_def
      split: if_splits prod.splits)

lemma server_error_owned: "server_error tick w = (err, w') \<Longrightarrow> r_cleanup_header err"
  by (auto simp: server_error_def new_response_def split: prod.splits)

text \<open>A tidy handler's preview.\<close>

lemma tidy_preview:
  assumes "tidy rh" and "plain_method rq" and "process_preview tick rh rq s w = ((rs, rq'), s', w')"
  shows "own_headers (preview_answers (loaded (hd_handlers rh)) rq w)"
    and "asked decisive (preview_answers (loaded (hd_handlers rh)) rq w) = 1"
    and "plain_method rq'" and "case rs of Some r \<Rightarrow> r_cleanup_header r | None \<Rightarrow> True"
proof -
  obtain hn where hn: "loaded (hd_handlers rh) = [hn]"
      "\<And>rq w. plain_method rq \<Longrightarrow> r_cleanup_header (fst (fst (ask_modifier md_preview (hn_symbols hn) rq w))) \<and>
        plain_method (snd (fst (ask_modifier md_preview (hn_symbols hn) rq w)))"
    using assms(1) unfolding tidy_def by blast
  obtain r q v where a: "ask_modifier md_preview (hn_symbols hn) rq w = ((r, q), v)" by (metis prod.exhaust)
  with hn(2) [OF assms(2), of w] have r: "r_cleanup_header r" "plain_method q" by simp_all
  show "own_headers (preview_answers (loaded (hd_handlers rh)) rq w)"
    "asked decisive (preview_answers (loaded (hd_handlers rh)) rq w) = 1"
    using hn(1) a r(1) by (simp_all add: own_headers_def)
  have "process_preview tick rh rq s w =
      (if decisive r then preview_outcome tick r q s v else ((Some r, q), s, v))"
    using hn(1) a by (simp add: process_preview_def process_preview_answers Let_def)
  with assms(3) r continue_plain server_error_owned
  show "plain_method rq'" "case rs of Some r \<Rightarrow> r_cleanup_header r | None \<Rightarrow> True"
    by (auto simp: preview_outcome_def split: if_splits prod.splits)
qed

lemma tidy_modify:
  assumes "tidy rh" and "plain_method rq" and "process_modify rh rq w = ((rs, rq'), w')"
  shows "asked (\<lambda>r. status_of r = OK) (modify_answers (loaded (hd_handlers rh)) rq w) = 1"
    and "\<exists>r. rs = Some r \<and> r_cleanup_header r"
proof -
  obtain hn where hn: "loaded (hd_handlers rh) = [hn]"
      "\<And>rq w. plain_method rq \<Longrightarrow> r_cleanup_header (fst (fst (ask_modifier md_modify (hn_symbols hn) rq w)))"
    using assms(1) unfolding tidy_def by blast
  obtain r q v where a: "ask_modifier md_modify (hn_symbols hn) rq w = ((r, q), v)" by (metis prod.exhaust)
  show "asked (\<lambda>r. status_of r = OK) (modify_answers (loaded (hd_handlers rh)) rq w) = 1"
    using hn(1) a by simp
  show "\<exists>r. rs = Some r \<and> r_cleanup_header r"
    using assms(3) hn(1) hn(2) [OF assms(2), of w] a
    by (auto simp: process_modify_def process_modify_answers Let_def split: if_splits)
qed


text \<open>The pointer \<open>response\<close> and what it points to, among what was added.\<close>

definition points_to :: "(addr \<Rightarrow> obj option) \<Rightarrow> addr option \<Rightarrow> response option \<Rightarrow> bool" where
  "points_to m p rs \<longleftrightarrow>
     (case rs of None \<Rightarrow> p = None | Some r \<Rightarrow> \<exists>ra ha. p = Some ra \<and> response_in m ra ha r)"

lemma points_to_add: "points_to m' p (Some r) \<Longrightarrow> points_to (m ++ m') p (Some r)"
  by (auto simp: points_to_def intro: response_in_add)

lemma preview_refines:
  assumes "heap_ok h" and "request_at rqa qa rq h" and "process_preview tick rh rq s w = ((rs, rq'), s', w')"
  obtains p m h' where "preview_loop_object tick None (hd_handlers rh) rqa s w h = Some ((p, s', w'), h')"
    and "adds (set_request rqa qa rq' h) m h'" and "points_to m p rs"
    and "tidy rh \<and> plain_method rq \<longrightarrow> card (dom m) = (if p = None then 0 else 2)"
proof -
  obtain p m h' where l: "preview_loop_object tick None (hd_handlers rh) rqa s w h = Some ((p, s', w'), h')"
      "adds (set_request rqa qa rq' h) m h'"
      "own_headers (preview_answers (loaded (hd_handlers rh)) rq w) \<longrightarrow>
        card (dom m) + (if p = None \<and> loaded (hd_handlers rh) \<noteq> [] then 2 else 0) =
          2 * asked decisive (preview_answers (loaded (hd_handlers rh)) rq w)"
      "if loaded (hd_handlers rh) = [] then p = None \<and> rs = None
       else (p = None \<and> rs = None) \<or> (\<exists>ra ha r. p = Some ra \<and> rs = Some r \<and> response_in m ra ha r)"
    using preview_loop_refines [OF assms(1,2) assms(3) [unfolded process_preview_def], of None] by blast
  have "points_to m p rs" using l(4) by (auto simp: points_to_def split: if_splits)
  moreover have "card (dom m) = (if p = None then 0 else 2)" if t: "tidy rh" "plain_method rq"
    using l(3) tidy_preview(1,2) [OF t assms(3)] t(1) by (auto simp: tidy_def)
  ultimately show thesis using that l(1,2) by blast
qed

lemma modify_refines:
  assumes "heap_ok h" and "request_at rqa qa rq h" and "process_modify rh rq w = ((rs, rq'), w')"
  obtains p m h' where "modify_loop_object None (hd_handlers rh) rqa w h = Some ((p, w'), h')"
    and "adds (set_request rqa qa rq' h) m h'" and "points_to m p rs"
    and "tidy rh \<and> plain_method rq \<longrightarrow> card (dom m) = 2"
proof -
  obtain p m h' where l: "modify_loop_object None (hd_handlers rh) rqa w h = Some ((p, w'), h')"
      "adds (set_request rqa qa rq' h) m h'"
      "card (dom m) = 2 * asked (\<lambda>r. status_of r = OK) (modify_answers (loaded (hd_handlers rh)) rq w)"
      "if loaded (hd_handlers rh) = [] then p = None \<and> rs = None
       else \<exists>ra ha r. p = Some ra \<and> rs = Some r \<and> response_in m ra ha r"
    using modify_loop_refines [OF assms(1,2) assms(3) [unfolded process_modify_def], of None] by blast
  have "points_to m p rs" using l(4) by (auto simp: points_to_def split: if_splits)
  moreover have "card (dom m) = 2" if t: "tidy rh" "plain_method rq"
    using l(3) tidy_modify(1) [OF t assms(3)] by simp
  ultimately show thesis using that l(1,2) by blast
qed

lemma process_request_refines:
  assumes "heap_ok h" and "request_at rqa qa rq h"
    and "process_request tick rh rq s w = ((rs, rq'), s', w')"
  obtains p m h' where "process_request_object tick rh rqa s w h = Some ((p, s', w'), h')"
    and "adds (set_request rqa qa rq' h) m h'" and "points_to m p rs"
    and "tidy rh \<and> plain_method rq \<longrightarrow> card (dom m) = 2 \<and> (\<exists>r. rs = Some r \<and> r_cleanup_header r)"
proof -
  have d: "rqa \<noteq> qa" by (rule request_at_distinct [OF assms(2)])
  obtain rs1 rq1 s1 w1 where pv:
      "(if 0 \<le> preview_size rq then process_preview tick rh rq s w else ((None, rq), s, w)) = ((rs1, rq1), s1, w1)"
    by (metis prod.exhaust)
  obtain p1 m1 h1 where o1: "(if 0 \<le> preview_size rq then preview_loop_object tick None (hd_handlers rh) rqa s w h
        else Some ((None, s, w), h)) = Some ((p1, s1, w1), h1)"
      "adds (set_request rqa qa rq1 h) m1 h1" "points_to m1 p1 rs1"
      "tidy rh \<and> plain_method rq \<longrightarrow> card (dom m1) = (if p1 = None then 0 else 2) \<and> plain_method rq1 \<and>
        (case rs1 of Some r \<Rightarrow> r_cleanup_header r | None \<Rightarrow> True)"
  proof (cases "0 \<le> preview_size rq")
    case True
    with pv have pp: "process_preview tick rh rq s w = ((rs1, rq1), s1, w1)" by simp
    show thesis
      by (rule preview_refines [OF assms(1,2) pp])
        (use that True tidy_preview(3,4) [OF _ _ pp] in auto)
  next
    case False
    with pv have e: "rs1 = None" "rq1 = rq" "s1 = s" "w1 = w" by auto
    show thesis
      by (rule that [of None h Map.empty])
        (use False e in \<open>simp_all add: set_request_same [OF assms(2)] points_to_def\<close>)
  qed
  note gr = get_request_at [OF assms(2)]
  have po: "process_request_object tick rh rqa s w h =
      (case p1 of
         None \<Rightarrow> (case modify_loop_object None (hd_handlers rh) rqa w1 h1 of
                    None \<Rightarrow> None | Some ((p', w2), h2) \<Rightarrow> Some ((p', s1, w2), h2))
       | Some ra \<Rightarrow> Some ((Some ra, s1, w1), h1))"
    by (simp add: process_request_object_def gr o1(1) Option.bind_def split: option.splits prod.splits)
  show thesis
  proof (cases rs1)
    case (Some r)
    with o1(3) obtain ra where ra: "p1 = Some ra" by (auto simp: points_to_def)
    have v: "rs = Some r" "rq' = rq1" "s' = s1" "w' = w1"
      using assms(3) Some by (simp_all add: process_request_def pv)
    show thesis
      by (rule that [of p1 h1 m1]) (use po ra v o1(2-4) Some in simp_all)
  next
    case None
    with o1(3) have p1: "p1 = None" by (simp add: points_to_def)
    obtain rs2 rq2 w2 where md: "process_modify rh rq1 w1 = ((rs2, rq2), w2)" by (metis prod.exhaust)
    have v: "rs = rs2" "rq' = rq2" "s' = s1" "w' = w2"
      using assms(3) None md by (simp_all add: process_request_def pv)
    have ok1: "heap_ok h1" "request_at rqa qa rq1 h1"
      using adds_ok [OF _ o1(2)] request_at_adds [OF _ o1(2)] set_request_ok [OF assms(1,2)]
        set_request_at [OF d] by blast+
    obtain p2 m2 h2 where o2: "modify_loop_object None (hd_handlers rh) rqa w1 h1 = Some ((p2, w2), h2)"
        "adds (set_request rqa qa rq2 h1) m2 h2" "points_to m2 p2 rs2"
        "tidy rh \<and> plain_method rq1 \<longrightarrow> card (dom m2) = 2"
      by (rule modify_refines [OF ok1 md])
    have a: "adds (set_request rqa qa rq2 h) m1 (set_request rqa qa rq2 h1)"
      using adds_set_request(1) [OF set_request_ok [OF assms(1,2)] o1(2) set_request_at [OF d], of rq2]
      by (simp add: set_request_again [OF d])
    have e: "m1 = Map.empty" if "tidy rh" "plain_method rq"
      using o1(4) that p1 adds_finite [OF o1(2)] by simp
    have "points_to (m1 ++ m2) p2 rs" using o2(3) v(1) points_to_add by (cases rs2) (auto simp: points_to_def)
    moreover have "card (dom (m1 ++ m2)) = 2 \<and> (\<exists>r. rs = Some r \<and> r_cleanup_header r)"
      if t: "tidy rh" "plain_method rq"
      using e [OF t] o1(4) t o2(4) tidy_modify(2) [OF t(1) _ md] v(1) by simp
    moreover have "process_request_object tick rh rqa s w h = Some ((p2, s', w'), h2)"
      using po p1 o2(1) v by simp
    ultimately show thesis using that adds_trans(1) [OF a o2(2)] v(2) by blast
  qed
qed


lemma process_refines:
  assumes "heap_ok h" and "hp_store h qa = Some (Request_header hdr)"
    and "process tick rh hdr s w = ((rs, hdr'), s', w')"
  obtains ra ha m h' where "process_object tick rh qa s w h = Some ((ra, s', w'), h')"
    and "adds (put_object qa (Request_header hdr') h) m h'" and "response_in m ra ha rs"
    and "tidy rh \<and> CHR 0x00 \<notin> set (method_of hdr) \<longrightarrow> card (dom m) = 2 \<and> r_cleanup_header rs"
proof -
  obtain rqa h1 where n: "new_object (Request qa empty_payload) h = (rqa, h1)" by fastforce
  note a1 = adds_new [OF adds_refl n]
  have ok1: "heap_ok h1" by (rule adds_ok [OF assms(1) a1(1)])
  have "rqa \<noteq> qa" using a1(3) [OF assms(1)] assms(2) by auto
  then have at1: "request_at rqa qa (new_request hdr) h1"
    using a1(1) adds_old(1) [OF assms(1) a1(1) assms(2)] adds_at [OF a1(1), of rqa]
    by (simp add: request_at_def new_request_def)
  obtain rd rq s1 where r: "read_req_data (new_request hdr) s = ((rd, rq), s1)" by (metis prod.exhaust)
  then have rd: "rd" by (auto simp: read_req_data_def split: prod.splits)
  obtain rs2 rq2 s2 w2 where p: "process_request tick rh rq s1 w = ((rs2, rq2), s2, w2)" by (metis prod.exhaust)
  let ?h2 = "set_request rqa qa rq h1"
  have at2: "heap_ok ?h2" "request_at rqa qa rq ?h2"
    by (rule set_request_ok [OF ok1 at1], rule set_request_at [OF request_at_distinct [OF at1]])
  obtain p2 m h3 where o: "process_request_object tick rh rqa s1 w ?h2 = Some ((p2, s2, w2), h3)"
      "adds (set_request rqa qa rq2 ?h2) m h3" "points_to m p2 rs2"
      "tidy rh \<and> plain_method rq \<longrightarrow> card (dom m) = 2 \<and> (\<exists>r. rs2 = Some r \<and> r_cleanup_header r)"
    by (rule process_request_refines [OF at2 p])
  let ?b = "put_object qa (Request_header (q_header rq2)) h"
  have b: "heap_ok ?b" "adds ?b [rqa \<mapsto> Request qa empty_payload] (put_object qa (Request_header (q_header rq2)) h1)"
    using adds_put_old [OF assms(1) a1(1), of qa] assms(2) by (simp_all)
  have "adds ?b [rqa \<mapsto> Request qa (q_payload rq2)] (set_request rqa qa rq2 ?h2)"
    using adds_put [OF b(2), of rqa "Request qa (q_payload rq2)"] set_request_again [OF request_at_distinct [OF at1]]
    by (simp add: set_request_def)
  note t = adds_trans [OF this o(2)]
  then have "([rqa \<mapsto> Request qa (q_payload rq2)] ++ m) rqa \<noteq> None"
      "([rqa \<mapsto> Request qa (q_payload rq2)] ++ m)(rqa := None) = m"
    by (auto simp: fun_eq_iff map_add_def split: option.splits)
  then obtain h4 where h4: "free_object rqa h3 = Some h4" "adds ?b m h4"
    using adds_free [OF t(1) b(1), of rqa] by auto
  have pl: "plain_method rq = (CHR 0x00 \<notin> set (method_of hdr))"
    using r by (auto simp: read_req_data_def plain_method_def q_header_set new_request_def split: prod.splits)
  note po = get_request_at [OF at1] put_request_at [OF at1, of rq] r rd n o(1) h4(1)
  show thesis
  proof (cases rs2)
    case (Some r2)
    with o(3) obtain ra ha where ra: "p2 = Some ra" "response_in m ra ha r2" by (auto simp: points_to_def)
    have v: "rs = r2" "hdr' = q_header rq2" "s' = s2" "w' = w2"
      using assms(3) r p Some by (simp_all add: process_by_request)
    show thesis
      by (rule that [of ra h4 m ha]) (use po ra v h4(2) o(4) pl Some in \<open>simp_all add: process_object_def\<close>)
  next
    case None
    with o(3) have p2: "p2 = None" by (simp add: points_to_def)
    obtain err w3 where se: "server_error tick w2 = (err, w3)" by fastforce
    obtain ea eh h5 where s5: "server_error_object tick w2 h4 = ((ea, w3), h5)" "ea \<noteq> eh"
        "adds ?b (m ++ response_map ea eh err) h5" "m ea = None" "m eh = None"
      by (rule server_error_adds [OF h4(2) se])
    have v: "rs = err" "hdr' = q_header rq2" "s' = s2" "w' = w3"
      using assms(3) r p None se by (simp_all add: process_by_request)
    show thesis
    proof (rule that [of ea h5 "m ++ response_map ea eh err" eh])
      show "process_object tick rh qa s w h = Some ((ea, s', w'), h5)"
        using po p2 s5(1) v by (simp add: process_object_def)
      show "adds (put_object qa (Request_header hdr') h) (m ++ response_map ea eh err) h5"
        using s5(3) v(2) by simp
      show "response_in (m ++ response_map ea eh err) ea eh rs"
        using response_in_add [OF response_in_map [OF s5(2)]] v(1) by simp
    qed (use o(4) pl None in auto)
  qed
qed

end
