(* ===== verification/Leaks.thy ===== *)
theory Leaks
  imports Release Session
begin

text \<open>
  \<open>Worker::serve_client\<close> over the store: it refines the function on values, and what the
  connection of a client leaves behind.
\<close>

section \<open>A round of the worker\<close>

lemma options_refines:
  assumes "heap_ok h" and "options_process tick oh w = Some (rs, w')"
  obtains ra ha h' where "options_object tick oh w h = Some ((ra, w'), h')"
    and "adds h (response_map ra ha rs) h'" and "ra \<noteq> ha" and "\<not> r_cleanup_header rs"
proof -
  obtain ev where t: "tick w = (ev, w')" using assms(2)
    by (auto simp: options_process_def Let_def split: prod.splits list.splits)
  obtain mth mths where ms: "hd_methods oh = mth # mths" using assms(2) t
    by (auto simp: options_process_def split: list.splits)
  let ?hd = "attach ''Allow'' ''204'' (attach ''Options-TTL'' ''3600''
    (attach ''Methods'' mth (new_response_header (e_clock ev) OK)))"
  have rs: "rs = new_response_from (e_clock ev) (Some ?hd)"
    using assms(2) t ms by (simp add: options_process_def Let_def)
  obtain ha h1 where n: "new_object (Response_header (new_response_header (e_clock ev) OK)) h = (ha, h1)" by fastforce
  note a1 = adds_new [OF adds_refl n]
  have a2: "adds h [ha \<mapsto> Response_header ?hd] (put_object ha (Response_header ?hd) h1)"
    using adds_put [OF a1(1), of ha] by simp
  obtain ra h2 where r: "new_object (Response ha empty_payload False) (put_object ha (Response_header ?hd) h1) = (ra, h2)"
    by fastforce
  note a3 = adds_new [OF a2 r]
  show thesis
    by (rule that [of ra h2 ha])
      (use t ms n r a3 rs in \<open>auto simp: options_object_def new_response_around_def response_map_def
        new_response_from_def split: if_splits\<close>)
qed

lemma not_allowed_refines:
  assumes "heap_ok h" and "not_allowed tick w = (rs, w')"
  obtains ra ha h' where "not_allowed_object tick w h = ((ra, w'), h')"
    and "adds h (response_map ra ha rs) h'" and "ra \<noteq> ha" and "\<not> r_cleanup_header rs"
proof -
  obtain ev where t: "tick w = (ev, w')"
      "rs = new_response_from (e_clock ev) (Some (new_response_header (e_clock ev) NOT_ALLOWED))"
    using assms(2) by (auto simp: not_allowed_def split: prod.splits)
  obtain ha h1 where n: "new_object (Response_header (new_response_header (e_clock ev) NOT_ALLOWED)) h = (ha, h1)"
    by fastforce
  note a1 = adds_new [OF adds_refl n]
  obtain ra h2 where r: "new_object (Response ha empty_payload False) h1 = (ra, h2)" by fastforce
  note a2 = adds_new [OF a1(1) r]
  show thesis
    by (rule that [of ra h2 ha])
      (use t n r a2 in \<open>auto simp: not_allowed_object_def new_response_around_def response_map_def
        new_response_from_def split: if_splits\<close>)
qed


text \<open>Where the header of the request in the store is not changed.\<close>

lemma adds_put_same:
  assumes "hp_store h qa = Some x"
  shows "put_object qa x h = h"
  using assms by (simp add: put_object_def fun_upd_idem)

text \<open>The modules a request of this header meets are tidy.\<close>

definition tidy_for :: "'w req_handlers \<Rightarrow> request_header \<Rightarrow> bool" where
  "tidy_for hs hdr \<longleftrightarrow>
     (\<forall>rh. find_req_handler hs (method_of hdr) = Some (Mod_handler rh) \<longrightarrow>
        tidy rh \<and> CHR 0x00 \<notin> set (method_of hdr))"

definition modified :: "'w req_handlers \<Rightarrow> request_header \<Rightarrow> bool" where
  "modified hs hdr \<longleftrightarrow> (\<exists>rh. find_req_handler hs (method_of hdr) = Some (Mod_handler rh))"

lemma respond_refines:
  assumes "heap_ok h" and "hp_store h qa = Some (Request_header hdr)"
    and "respond tick hs hdr s w = Some ((rs, hdr'), s', w')"
  obtains ra ha m h' where "respond_object tick hs qa s w h = Some ((ra, s', w'), h')"
    and "adds (put_object qa (Request_header hdr') h) m h'" and "response_in m ra ha rs"
    and "tidy_for hs hdr \<longrightarrow> card (dom m) = 2 \<and> (r_cleanup_header rs \<longleftrightarrow> modified hs hdr)"
proof -
  have g: "get_request_header qa h = Some hdr" using assms(2) by (simp add: get_request_header_def)
  note ro = respond_object_def g
  consider (unknown) "find_req_handler hs (method_of hdr) = None"
    | (options) oh where "find_req_handler hs (method_of hdr) = Some (Options_handler oh)"
    | (mod) rh where "find_req_handler hs (method_of hdr) = Some (Mod_handler rh)"
    by (metis any_handler.exhaust option.exhaust)
  then show thesis
  proof cases
    case unknown
    then obtain na: "not_allowed tick w = (rs, w')" "hdr' = hdr" "s' = s"
      using assms(3) by (auto simp: respond_def split: prod.splits)
    obtain ra ha h' where o: "not_allowed_object tick w h = ((ra, w'), h')" "adds h (response_map ra ha rs) h'"
        "ra \<noteq> ha" "\<not> r_cleanup_header rs" by (rule not_allowed_refines [OF assms(1) na(1)])
    show thesis
      by (rule that [of ra h' "response_map ra ha rs" ha])
        (use unknown na o in \<open>simp_all add: ro adds_put_same [OF assms(2)] response_in_map response_map_card modified_def\<close>)
  next
    case (options oh)
    then obtain op: "options_process tick oh w = Some (rs, w')" "hdr' = hdr" "s' = s"
      using assms(3) by (auto simp: respond_def handler_process_def)
    obtain ra ha h' where o: "options_object tick oh w h = Some ((ra, w'), h')" "adds h (response_map ra ha rs) h'"
        "ra \<noteq> ha" "\<not> r_cleanup_header rs" by (rule options_refines [OF assms(1) op(1)])
    show thesis
      by (rule that [of ra h' "response_map ra ha rs" ha])
        (use options op o in \<open>simp_all add: ro adds_put_same [OF assms(2)] response_in_map response_map_card modified_def\<close>)
  next
    case (mod rh)
    then have p: "process tick rh hdr s w = ((rs, hdr'), s', w')"
      using assms(3) by (simp add: respond_def handler_process_def)
    obtain ra ha m h' where o: "process_object tick rh qa s w h = Some ((ra, s', w'), h')"
        "adds (put_object qa (Request_header hdr') h) m h'" "response_in m ra ha rs"
        "tidy rh \<and> CHR 0x00 \<notin> set (method_of hdr) \<longrightarrow> card (dom m) = 2 \<and> r_cleanup_header rs"
      by (rule process_refines [OF assms(1,2) p])
    show thesis
      by (rule that [OF _ o(2,3)]) (use mod o(1,4) in \<open>auto simp: ro tidy_for_def modified_def\<close>)
  qed
qed

lemma respond_object_none:
  assumes "hp_store h qa = Some (Request_header hdr)" and "respond tick hs hdr s w = None"
  shows "respond_object tick hs qa s w h = None"
proof -
  obtain oh where oh: "find_req_handler hs (method_of hdr) = Some (Options_handler oh)"
      "options_process tick oh w = None"
    using assms(2) by (auto simp: respond_def handler_process_def split: option.splits any_handler.splits prod.splits)
  then have "hd_methods oh = []"
    by (auto simp: options_process_def Let_def split: prod.splits list.splits)
  then have "options_object tick oh w h = None" by (simp add: options_object_def split: prod.splits)
  with oh(1) assms(1) show ?thesis by (simp add: respond_object_def get_request_header_def)
qed

text \<open>The response is sent and deleted; its header stays where it is not the response's own.\<close>

lemma reply_refines:
  assumes "heap_ok h" and "adds h m h'" and "response_in m ra ha rs" and "hp_store h qa = Some (Request_header hdr)"
    and "send_response (set_connection hdr rs) s = (ok, s')"
  obtains m' h'' where "reply_object qa ra s h' = Some ((keep_alive hdr, s'), h'')" and "adds h m' h''"
    and "card (dom m) = 2 \<longrightarrow>
      (if r_cleanup_header rs then m' = Map.empty else m' = [ha \<mapsto> Response_header (r_header (set_connection hdr rs))])"
proof -
  let ?rs = "set_connection hdr rs"
  have gh: "get_request_header qa h'' = Some hdr" if "adds h m'' h''" for m'' h''
    using adds_old(1) [OF assms(1) that assms(4)] by (simp add: get_request_header_def)
  have st: "hp_store h' ra = Some (Response ha (r_payload rs) (r_cleanup_header rs))"
      "hp_store h' ha = Some (Response_header (r_header rs))"
    using adds_at [OF assms(2)] assms(3) by (simp_all add: response_in_def)
  have sc: "r_payload ?rs = r_payload rs" "r_cleanup_header ?rs = r_cleanup_header rs"
    by (simp_all add: set_connection_def)
  have ne: "ra \<noteq> ha" by (rule response_in_distinct [OF assms(3)])
  obtain h1 where h1: "(if keep_alive hdr then attach_response ''Connection'' ''keep-alive'' ra h' else Some h') = Some h1"
      "adds h (m(ha \<mapsto> Response_header (r_header ?rs))) h1"
  proof (cases "keep_alive hdr")
    case True
    with that adds_put [OF assms(2), of ha "Response_header (r_header ?rs)"] assms(3) st show thesis
      by (simp add: attach_response_def response_in_def set_connection_def)
  next
    case False
    then have "m(ha \<mapsto> Response_header (r_header ?rs)) = m"
      using assms(3) by (simp add: set_connection_def response_in_def fun_upd_idem)
    with that False assms(2) show thesis by simp
  qed
  let ?m = "m(ha \<mapsto> Response_header (r_header ?rs))"
  have ri: "response_in ?m ra ha ?rs" using assms(3) ne sc by (simp add: response_in_def)
  let ?m' = "(if r_cleanup_header ?rs then ?m(ha := None) else ?m)(ra := None)"
  obtain h2 where h2: "delete_response ra h1 = Some h2" "adds h ?m' h2"
    using delete_response_in [OF assms(1) h1(2) ri] by blast
  have "reply_object qa ra s h' = Some ((keep_alive hdr, s'), h2)"
    using gh [OF assms(2)] h1(1) get_response_in [OF h1(2) ri] assms(5) h2(1) gh [OF h2(2)]
    by (simp add: reply_object_def)
  moreover have "if r_cleanup_header rs then ?m' = Map.empty else ?m' = [ha \<mapsto> Response_header (r_header ?rs)]"
    if "card (dom m) = 2"
    using response_in_only [OF assms(3) that] ne sc by (auto simp: response_map_def fun_eq_iff)
  ultimately show thesis using that h2(2) by blast
qed

text \<open>
  One round of \<open>serve_client\<close>. The store before it is without the request header of the round
  before.
\<close>

definition dropped :: "addr option \<Rightarrow> heap \<Rightarrow> heap option" where
  "dropped p h = (case p of None \<Rightarrow> Some h | Some a \<Rightarrow> free_object a h)"

lemma serve_client_object_step:
  assumes "dropped p h = Some h0" and "heap_ok h0" and "read_req_header s = (hdr, s1)" and "\<not> s_timedout s1"
    and "respond tick hs hdr s1 w = Some ((rs, hdr'), s2, w1)"
    and "send_response (set_connection hdr' rs) s2 = (ok, s3)"
  obtains qa h3 h4 m where "dropped (Some qa) h3 = Some h4" and "adds h0 m h4"
    and "tidy_for hs hdr \<longrightarrow>
      (if modified hs hdr then m = Map.empty else \<exists>ha rhdr. m = [ha \<mapsto> Response_header rhdr])"
    and "serve_client_object tick hs p s mr w h =
      (if 0 < mr - 1 \<and> keep_alive hdr' then serve_client_object tick hs (Some qa) s3 (mr - 1) w1 h3
       else Some ((mr - 1, s3, w1), h4))"
proof -
  obtain qa h1 where n: "new_object (Request_header hdr) h0 = (qa, h1)" by fastforce
  note a1 = adds_new [OF adds_refl n]
  have h1: "heap_ok h1" "hp_store h1 qa = Some (Request_header hdr)"
    using adds_ok [OF assms(2) a1(1)] adds_at [OF a1(1), of qa] by simp_all
  obtain ra ha m h2 where r: "respond_object tick hs qa s1 w h1 = Some ((ra, s2, w1), h2)"
      "adds (put_object qa (Request_header hdr') h1) m h2" "response_in m ra ha rs"
      "tidy_for hs hdr \<longrightarrow> card (dom m) = 2 \<and> (r_cleanup_header rs \<longleftrightarrow> modified hs hdr)"
    by (rule respond_refines [OF h1 assms(5)])
  let ?h1 = "put_object qa (Request_header hdr') h1"
  have b: "adds h0 [qa \<mapsto> Request_header hdr'] ?h1" "heap_ok ?h1" "hp_store ?h1 qa = Some (Request_header hdr')"
    using adds_put [OF a1(1), of qa] adds_put_old(2) [OF h1(1) adds_refl, of qa] h1(2)
    by (simp_all add: put_object_def)
  obtain m' h3 where rp: "reply_object qa ra s2 h2 = Some ((keep_alive hdr', s3), h3)" "adds ?h1 m' h3"
      "card (dom m) = 2 \<longrightarrow> (if r_cleanup_header rs then m' = Map.empty
         else m' = [ha \<mapsto> Response_header (r_header (set_connection hdr' rs))])"
    by (rule reply_refines [OF b(2) r(2,3) b(3) assms(6)])
  note t = adds_trans [OF b(1) rp(2)]
  then have "([qa \<mapsto> Request_header hdr'] ++ m') qa \<noteq> None" "([qa \<mapsto> Request_header hdr'] ++ m')(qa := None) = m'"
    by (auto simp: fun_eq_iff map_add_def split: option.splits)
  then obtain h4 where h4: "free_object qa h3 = Some h4" "adds h0 m' h4"
    using adds_free [OF t(1) assms(2), of qa] by auto
  show thesis
    by (rule that [of qa h3 h4 m'])
      (use assms(1,3,4) n r(1,4) rp(1,3) h4 in \<open>auto simp: dropped_def serve_client_object.simps [of tick hs p]
        split: option.splits\<close>)
qed

section \<open>The refinement\<close>

lemma serve_client_object_refines:
  assumes "dropped p h = Some h0" and "heap_ok h0"
  shows "case serve_client tick hs s m w of
      None \<Rightarrow> serve_client_object tick hs p s m w h = None
    | Some r \<Rightarrow> \<exists>left h'. serve_client_object tick hs p s m w h = Some (r, h') \<and> adds h0 left h'"
  using assms
proof (induction tick hs s m w arbitrary: p h h0 rule: serve_client.induct)
  case (1 tick hs s m w)
  obtain hdr s1 where r: "read_req_header s = (hdr, s1)" by fastforce
  obtain qa h1 where n: "new_object (Request_header hdr) h0 = (qa, h1)" by fastforce
  note a1 = adds_new [OF adds_refl n]
  note unf = serve_client_object.simps [of tick hs p s m w h] serve_client.simps [of tick hs s m w]
  consider (timeout) "s_timedout s1" | (dead) "\<not> s_timedout s1" "respond tick hs hdr s1 w = None"
    | (reply) rs hdr' s2 w1 where "\<not> s_timedout s1" "respond tick hs hdr s1 w = Some ((rs, hdr'), s2, w1)"
    by (metis prod.exhaust option.exhaust)
  then show ?case
  proof cases
    case timeout
    with 1(2) r n a1(1) show ?thesis by (auto simp: unf dropped_def)
  next
    case dead
    have "hp_store h1 qa = Some (Request_header hdr)" using adds_at [OF a1(1), of qa] by simp
    from respond_object_none [OF this dead(2)] dead 1(2) r n show ?thesis by (simp add: unf dropped_def)
  next
    case reply
    obtain ok s3 where sd: "send_response (set_connection hdr' rs) s2 = (ok, s3)" by fastforce
    obtain qa h3 h4 left where st: "dropped (Some qa) h3 = Some h4" "adds h0 left h4"
        "serve_client_object tick hs p s m w h =
          (if 0 < m - 1 \<and> keep_alive hdr' then serve_client_object tick hs (Some qa) s3 (m - 1) w1 h3
           else Some ((m - 1, s3, w1), h4))"
      by (rule serve_client_object_step [OF 1(2,3) r reply sd]) (rule that)
    note sv = serve_client_step [OF r reply sd, of m]
    show ?thesis
    proof (cases "0 < m - 1 \<and> keep_alive hdr'")
      case True
      have ih: "case serve_client tick hs s3 (m - 1) w1 of
          None \<Rightarrow> serve_client_object tick hs (Some qa) s3 (m - 1) w1 h3 = None
        | Some r \<Rightarrow> \<exists>left h'. serve_client_object tick hs (Some qa) s3 (m - 1) w1 h3 = Some (r, h') \<and> adds h4 left h'"
        by (rule 1(1) [OF r [symmetric] reply(1) reply(2) refl refl refl sd [symmetric] True st(1)
              adds_ok [OF 1(3) st(2)]])
      with sv st(3) True adds_trans(1) [OF st(2)] show ?thesis by (fastforce split: option.splits)
    next
      case False
      with sv st(2,3) show ?thesis by auto
    qed
  qed
qed

section \<open>What a connection leaves behind\<close>

fun header_only :: "content \<Rightarrow> bool" where
  "header_only (Header_only _) \<longleftrightarrow> True"
| "header_only _ \<longleftrightarrow> False"

text \<open>The requests that get a response of their own making: OPTIONS and the unknown methods.\<close>

definition headers_left :: "client_request list \<Rightarrow> nat" where
  "headers_left rs = length (filter (\<lambda>r. header_only (cr_content r)) rs)"

definition only_headers :: "(addr \<Rightarrow> obj option) \<Rightarrow> nat \<Rightarrow> bool" where
  "only_headers m n \<longleftrightarrow> card (dom m) = n \<and>
     ran m \<subseteq> range Response_header \<union> range Request_header"

lemma only_headers_add:
  assumes "adds h m h'" and "adds h' m' h''" and "only_headers m n" and "only_headers m' n'"
  shows "only_headers (m ++ m') (n + n')"
proof -
  have "card (dom (m ++ m')) = n + n'"
    using assms adds_trans(2) [OF assms(1,2)] adds_finite [OF assms(1)] adds_finite [OF assms(2)]
    by (simp add: only_headers_def card_Un_disjoint inf_commute)
  with assms(3,4) show ?thesis by (auto simp: only_headers_def ran_def)
qed

lemma module_table_find:
  assumes "module_table tick md hs"
  shows "(\<exists>rh. find_req_handler hs mth = Some (Mod_handler rh)) \<longleftrightarrow> mth \<in> {''REQMOD'', ''RESPMOD''}"
    and "find_req_handler hs mth = Some (Mod_handler rh) \<Longrightarrow> serves_as tick md rh"
proof -
  have o: "\<exists>oh. find_req_handler hs ''OPTIONS'' = Some (Options_handler oh)"
    and s: "\<And>m. m \<in> {''REQMOD'', ''RESPMOD''} \<Longrightarrow>
      \<exists>rh. find_req_handler hs m = Some (Mod_handler rh) \<and> serves_as tick md rh"
    and n: "\<And>m. m \<notin> {''OPTIONS'', ''REQMOD'', ''RESPMOD''} \<Longrightarrow> find_req_handler hs m = None"
    using assms unfolding module_table_def by blast+
  show *: "(\<exists>rh. find_req_handler hs mth = Some (Mod_handler rh)) \<longleftrightarrow> mth \<in> {''REQMOD'', ''RESPMOD''}"
    using o s [of mth] n [of mth]
    by (cases "mth = ''OPTIONS''"; cases "mth = ''REQMOD''"; cases "mth = ''RESPMOD''") auto
  show "serves_as tick md rh" if "find_req_handler hs mth = Some (Mod_handler rh)"
    using s [of mth] * that by auto
qed

lemma table_tidy:
  assumes "module_table tick md hs" and "well_formed r" and "method_of hdr = cr_method r"
  shows "tidy_for hs hdr" and "modified hs hdr \<longleftrightarrow> \<not> header_only (cr_content r)"
proof -
  have m: "header_only (cr_content r) \<longleftrightarrow> cr_method r \<notin> {''REQMOD'', ''RESPMOD''}"
    using assms(2) by (cases "cr_content r") (auto simp: well_formed_def)
  show "tidy_for hs hdr"
    unfolding tidy_for_def
  proof (intro allI impI)
    fix rh
    assume f: "find_req_handler hs (method_of hdr) = Some (Mod_handler rh)"
    then have "method_of hdr \<in> {''REQMOD'', ''RESPMOD''}" using module_table_find(1) [OF assms(1)] by blast
    then have "CHR 0x00 \<notin> set (method_of hdr)" by auto
    with f serves_tidy module_table_find(2) [OF assms(1)]
    show "tidy rh \<and> CHR 0x00 \<notin> set (method_of hdr)" by blast
  qed
  show "modified hs hdr \<longleftrightarrow> \<not> header_only (cr_content r)"
    using m module_table_find(1) [OF assms(1)] by (simp add: modified_def assms(3))
qed

lemma exchange_object:
  assumes "module_table tick md hs" and "well_formed r" and "live s" and "s_in s = request_bytes r @ rest"
    and "answer tick md r (cr_content r) w = (text, w')" and "dropped p h = Some h0" and "heap_ok h0"
  obtains s' qa h3 h4 left where "live s'" and "s_in s' = rest" and "s_out s' = s_out s @ text"
    and "dropped (Some qa) h3 = Some h4" and "adds h0 left h4" and "only_headers left (headers_left [r])"
    and "serve_client_object tick hs p s mr w h =
      (if 0 < mr - 1 \<and> keeps_connection r then serve_client_object tick hs (Some qa) s' (mr - 1) w' h3
       else Some ((mr - 1, s', w'), h4))"
proof -
  obtain interim rsp where an: "answered tick hs (keeps_connection r) (request_bytes r) interim rsp w w'"
      and tx: "interim @ response_text (with_connection (keeps_connection r) rsp) = text"
    using request_answered [OF assms(1,2,5)] by (auto simp: answered_as_def)
  obtain hdr s1 hdr' s2 where e: "read_req_header s = (hdr, s1)" "live s1"
      "respond tick hs hdr s1 w = Some ((rsp, hdr'), s2, w')" "live s2" "s_in s2 = rest"
      "s_out s2 = s_out s @ interim" "keep_alive hdr' = keeps_connection r"
    using an assms(3,4) unfolding answered_def by blast
  have "request_ok (cr_line r) (cr_fields r) (content_entities (cr_content r))" using assms(2) by (simp add: well_formed_def)
  moreover have "s_in s = request_head (cr_line r) (cr_fields r) (content_entities (cr_content r)) @
      content_bytes (cr_content r) @ rest" using assms(4) by (simp add: request_bytes_def)
  ultimately have "method_of hdr = cr_method r"
    using client_head [OF assms(3)] e(1) by (metis cr_method_def prod.inject)
  note td = table_tidy [OF assms(1,2) this]
  have "small_response (with_connection (keeps_connection r) rsp)" using an by (simp add: answered_def)
  then obtain s3 where s3: "send_response (with_connection (keeps_connection r) rsp) s2 = (True, s3)" "live s3"
      "s_in s3 = s_in s2" "s_out s3 = s_out s2 @ response_text (with_connection (keeps_connection r) rsp)"
    by (rule send_response_live [OF e(4)])
  have nt: "\<not> s_timedout s1" using e(2) by (simp add: live_def)
  have sd: "send_response (set_connection hdr' rsp) s2 = (True, s3)" using s3(1) e(7) by (simp add: set_connection_with)
  obtain qa h3 h4 left where st: "dropped (Some qa) h3 = Some h4" "adds h0 left h4"
      "tidy_for hs hdr \<longrightarrow>
        (if modified hs hdr then left = Map.empty else \<exists>ha rhdr. left = [ha \<mapsto> Response_header rhdr])"
      "serve_client_object tick hs p s mr w h =
        (if 0 < mr - 1 \<and> keep_alive hdr' then serve_client_object tick hs (Some qa) s3 (mr - 1) w' h3
         else Some ((mr - 1, s3, w'), h4))"
    by (rule serve_client_object_step [OF assms(6,7) e(1) nt e(3) sd]) (rule that)
  have "only_headers left (headers_left [r])"
    using st(3) td by (auto simp: only_headers_def headers_left_def split: if_splits)
  with that [of s3 qa h3 h4 left] s3 e(5-7) st(1,2,4) tx show thesis by simp
qed


text \<open>The requests of a session that were served.\<close>

definition served :: "client_request list \<Rightarrow> client_request list \<Rightarrow> client_request list" where
  "served rs us = take (length rs - length us) rs"

lemma session_suffix: "session tick md rs m w = (out, e, us, m', w') \<Longrightarrow> length us \<le> length rs"
  by (induction rs arbitrary: m w out) (fastforce split: prod.splits if_splits)+

lemma session_objects:
  assumes "module_table tick md hs" and "\<forall>r\<in>set rs. well_formed r" and "live s"
    and "s_in s = concat (map request_bytes rs) @ rest" and "session tick md rs m w = (out, e, us, m', w')"
    and "dropped p h = Some h0" and "heap_ok h0"
  shows "\<exists>s' p' h1 h2 left. live s' \<and> s_in s' = concat (map request_bytes us) @ rest \<and> s_out s' = s_out s @ out \<and>
    dropped p' h1 = Some h2 \<and> adds h0 left h2 \<and> only_headers left (headers_left (served rs us)) \<and>
    serve_client_object tick hs p s m w h =
      (if e then Some ((m', s', w'), h2) else serve_client_object tick hs p' s' m' w' h1)"
  using assms
proof (induction rs arbitrary: s m w out p h h0)
  case Nil
  then have "only_headers Map.empty (headers_left (served [] us))"
    by (simp add: only_headers_def headers_left_def served_def)
  with Nil show ?case
    by (intro exI [of _ s] exI [of _ p] exI [of _ h] exI [of _ h0] exI [of _ Map.empty]) auto
next
  case (Cons r rs)
  obtain t1 w1 where a: "answer tick md r (cr_content r) w = (t1, w1)" by fastforce
  have wf: "well_formed r" "\<forall>r\<in>set rs. well_formed r" using Cons.prems(2) by simp_all
  have i: "s_in s = request_bytes r @ concat (map request_bytes rs) @ rest" using Cons.prems(4) by simp
  obtain s1 qa h3 h4 left where x: "live s1" "s_in s1 = concat (map request_bytes rs) @ rest"
      "s_out s1 = s_out s @ t1" "dropped (Some qa) h3 = Some h4" "adds h0 left h4"
      "only_headers left (headers_left [r])"
      "serve_client_object tick hs p s m w h =
        (if 0 < m - 1 \<and> keeps_connection r then serve_client_object tick hs (Some qa) s1 (m - 1) w1 h3
         else Some ((m - 1, s1, w1), h4))"
    by (rule exchange_object [OF Cons.prems(1) wf(1) Cons.prems(3) i a Cons.prems(6,7)])
  show ?case
  proof (cases "0 < m - 1 \<and> keeps_connection r")
    case True
    obtain t2 where t2: "session tick md rs (m - 1) w1 = (t2, e, us, m', w')" "out = t1 @ t2"
      using Cons.prems(5) a True by (auto split: prod.splits)
    obtain s' p' h1 h2 left' where ih: "live s'" "s_in s' = concat (map request_bytes us) @ rest"
        "s_out s' = s_out s1 @ t2" "dropped p' h1 = Some h2" "adds h4 left' h2"
        "only_headers left' (headers_left (served rs us))"
        "serve_client_object tick hs (Some qa) s1 (m - 1) w1 h3 =
          (if e then Some ((m', s', w'), h2) else serve_client_object tick hs p' s' m' w' h1)"
      using Cons.IH [OF Cons.prems(1) wf(2) x(1,2) t2(1) x(4) adds_ok [OF Cons.prems(7) x(5)]] by blast
    have "served (r # rs) us = r # served rs us"
      using session_suffix [OF t2(1)] by (simp add: served_def Suc_diff_le)
    then have "headers_left (served (r # rs) us) = headers_left [r] + headers_left (served rs us)"
      by (simp add: headers_left_def)
    then have "only_headers (left ++ left') (headers_left (served (r # rs) us))"
      using only_headers_add [OF x(5) ih(5) x(6) ih(6)] by simp
    moreover have "s_out s' = s_out s @ out" using ih(3) x(3) t2(2) by simp
    moreover have "serve_client_object tick hs p s m w h =
        (if e then Some ((m', s', w'), h2) else serve_client_object tick hs p' s' m' w' h1)"
      using x(7) True ih(7) by simp
    ultimately show ?thesis using ih(1,2,4) adds_trans(1) [OF x(5) ih(5)] by blast
  next
    case False
    with Cons.prems(5) a have v: "out = t1" "e" "us = rs" "m' = m - 1" "w' = w1" by auto
    have "only_headers left (headers_left (served (r # rs) us))" using x(6) v(3) by (simp add: served_def)
    moreover have "serve_client_object tick hs p s m w h = Some ((m', s1, w'), h4)" using x(7) False v by simp
    ultimately show ?thesis using x(1-5) v
      by (intro exI [of _ s1] exI [of _ "Some qa"] exI [of _ h3] exI [of _ h4] exI [of _ left]) simp
  qed
qed

text \<open>
  The end of the input leaves one header more: the request's, where the socket timed out, and the
  response's where the empty header was answered.
\<close>

lemma client_gone_object:
  assumes "module_table tick md hs" and "live s" and "s_in s = []" and "dropped p h = Some h0" and "heap_ok h0"
  obtains s' w' h' left where "serve_client_object tick hs p s m w h = Some ((m - 1, s', w'), h')"
    and "s_out s' = s_out s" and "adds h0 left h'" and "only_headers left 1"
proof -
  let ?s1 = "s\<lparr>s_gcount := 0, s_good := False, s_timedout := s_tmo s\<rparr>"
  let ?h = "new_request_header []"
  note r = read_req_header_end [OF assms(2,3)]
  show thesis
  proof (cases "s_tmo s")
    case True
    obtain qa h1 where n: "new_object (Request_header ?h) h0 = (qa, h1)" by fastforce
    have "serve_client_object tick hs p s m w h = Some ((m - 1, ?s1, w), h1)"
      using r True assms(4) n by (simp add: serve_client_object.simps [of tick hs p] dropped_def)
    with that adds_new(1) [OF adds_refl n] show thesis by (force simp: only_headers_def)
  next
    case False
    have h: "method_of ?h = []" "\<not> keep_alive ?h" by code_simp+
    have f: "find_req_handler hs [] = None" using assms(1) by (simp add: module_table_def)
    then obtain rs where rs: "respond tick hs ?h ?s1 w = Some ((rs, ?h), ?s1, snd (tick w))"
      using h(1) by (cases "tick w") (simp add: respond_def not_allowed_def)
    obtain ok s2 where s2: "send_response (set_connection ?h rs) ?s1 = (ok, s2)" "s_out s2 = s_out s"
        "s_in s2 = []"
      by (rule send_response_closed [of ?s1]) (use assms(3) in auto)
    have td: "tidy_for hs ?h" "\<not> modified hs ?h" using f h(1) by (simp_all add: tidy_for_def modified_def)
    have nt: "\<not> s_timedout ?s1" using False by simp
    obtain qa h3 h4 left where st: "dropped (Some qa) h3 = Some h4" "adds h0 left h4"
        "tidy_for hs ?h \<longrightarrow>
          (if modified hs ?h then left = Map.empty else \<exists>ha rhdr. left = [ha \<mapsto> Response_header rhdr])"
        "serve_client_object tick hs p s m w h =
          (if 0 < m - 1 \<and> keep_alive ?h then serve_client_object tick hs (Some qa) s2 (m - 1) (snd (tick w)) h3
           else Some ((m - 1, s2, snd (tick w)), h4))"
      by (rule serve_client_object_step [OF assms(4,5) r nt rs s2(1)]) (rule that)
    have "only_headers left 1" using st(3) td by (auto simp: only_headers_def)
    with that st(2,4) h(2) s2(2) show thesis by simp
  qed
qed

lemma connection_objects:
  assumes "module_table tick md hs" and "\<forall>r\<in>set rs. well_formed r" and "live s"
    and "s_in s = concat (map request_bytes rs)" and "session tick md rs m w = (out, e, us, m', w')" and "heap_ok h"
  shows "\<exists>s' w'' h' left.
    serve_client_object tick hs None s m w h = Some ((if e then m' else m' - 1, s', w''), h') \<and>
    s_out s' = s_out s @ out \<and> adds h left h' \<and>
    only_headers left (headers_left (served rs us) + (if e then 0 else 1))"
proof -
  have "dropped None h = Some h" by (simp add: dropped_def)
  from session_objects [OF assms(1-3) _ assms(5) this assms(6), of "[]"] assms(4)
  obtain s1 p1 h1 h2 left where x: "live s1" "s_in s1 = concat (map request_bytes us)" "s_out s1 = s_out s @ out"
      "dropped p1 h1 = Some h2" "adds h left h2" "only_headers left (headers_left (served rs us))"
      "serve_client_object tick hs None s m w h =
        (if e then Some ((m', s1, w'), h2) else serve_client_object tick hs p1 s1 m' w' h1)" by auto
  show ?thesis
  proof (cases e)
    case True
    with x show ?thesis by auto
  next
    case False
    then have "us = []" using session_unserved [of tick md rs m w out us m' w'] assms(5) by simp
    with x(2) have "s_in s1 = []" by simp
    from client_gone_object [OF assms(1) x(1) this x(4) adds_ok [OF assms(6) x(5)], of m' w']
    obtain s' w'' h' left' where g: "serve_client_object tick hs p1 s1 m' w' h1 = Some ((m' - 1, s', w''), h')"
        "s_out s' = s_out s1" "adds h2 left' h'" "only_headers left' 1" .
    with x(3,7) False adds_trans(1) [OF x(5) g(3)] only_headers_add [OF x(5) g(3) x(6) g(4)]
    show ?thesis by auto
  qed
qed

end
