(* ===== verification/LostWrites.thy ===== *)
theory LostWrites
  imports Worker "HOL-Library.Sublist"
begin

text \<open>
  What becomes of a connection whose writes fail. A write that the buffer refuses sets the stream
  bad, and nobody looks: the server goes on, reads nothing more and writes nothing more. Two runs
  are compared, one in which every write works and one in which any of them are lost.
\<close>

section \<open>Reading does not depend on how writes end\<close>

abbreviation wev :: "wevent list \<Rightarrow> sock \<Rightarrow> sock" where
  "wev v s \<equiv> s\<lparr>s_wev := v\<rparr>"

locale blind_reader =
  fixes rd :: "sock \<Rightarrow> 'a \<times> sock"
  assumes blind: "rd (wev v s) = apsnd (wev v) (rd s)"
begin

lemma blind_run: "rd s = (x, s') \<Longrightarrow> rd (wev v s) = (x, wev v s')"
  by (simp add: blind)

lemma then_blind:
  assumes "\<And>x s. rd' x (wev v s) = apsnd (wev v) (rd' x s)"
  shows "(case rd (wev v s) of (x, s') \<Rightarrow> rd' x s') = apsnd (wev v) (case rd s of (x, s') \<Rightarrow> rd' x s')"
  using assms by (simp add: blind split: prod.splits)

end

interpretation bget: blind_reader sock_get
  by unfold_locales (simp add: sock_get_def split: list.splits)

interpretation bread: blind_reader "sock_read n" for n
  by unfold_locales (simp add: sock_read_def Let_def)

lemma blind_line_buf_loop:
  "read_line_buf_loop bl incl buf c_last (wev v s) = apsnd (wev v) (read_line_buf_loop bl incl buf c_last s)"
proof (induction bl incl buf c_last s rule: read_line_buf_loop.induct)
  case (1 bl incl buf c_last s)
  note unf = read_line_buf_loop.simps [of bl incl buf c_last "wev v s"] read_line_buf_loop.simps [of bl incl buf c_last s]
  obtain g s' where g: "sock_get s = (g, s')" by fastforce
  show ?case
    using 1 [OF _ g [symmetric]] bget.blind_run [OF g, of v] g
    by (cases g) (auto simp: unf)
qed

interpretation brlb: blind_reader "read_line_buf bl incl" for bl incl
  by unfold_locales (simp add: read_line_buf_def blind_line_buf_loop split: prod.splits)

lemma blind_line_loop:
  "read_line_loop incl line c_last (wev v s) = apsnd (wev v) (read_line_loop incl line c_last s)"
proof (induction incl line c_last s rule: read_line_loop.induct)
  case (1 incl line c_last s)
  note unf = read_line_loop.simps [of incl line c_last "wev v s"] read_line_loop.simps [of incl line c_last s]
  obtain g s' where g: "sock_get s = (g, s')" by fastforce
  show ?case
    using 1 [OF g [symmetric]] bget.blind_run [OF g, of v] g
    by (cases g) (auto simp: unf)
qed

interpretation brl: blind_reader "read_line incl" for incl
  by unfold_locales (simp add: read_line_def blind_line_loop)

lemma blind_data_loop: "read_data_loop sz data (wev v s) = apsnd (wev v) (read_data_loop sz data s)"
proof (induction sz data s rule: read_data_loop.induct)
  case (1 sz data s)
  note unf = read_data_loop.simps [of sz data "wev v s"] read_data_loop.simps [of sz data s]
  obtain b s' where b: "sock_read (nat (min sz ICAP_BUFFER_SIZE)) s = (b, s')" by fastforce
  show ?case
    using 1 [OF _ b [symmetric]] bread.blind_run [OF b, of v] b
    by (cases b) (auto simp: unf)
qed

interpretation brd: blind_reader "read_data sz" for sz
  by unfold_locales (simp add: read_data_def blind_data_loop)

interpretation brcs: blind_reader read_chunk_size
  by unfold_locales (simp add: read_chunk_size_def brl.blind junk_here_def split: prod.splits)

interpretation brch: blind_reader "read_chunk_header chunk" for chunk
proof unfold_locales
  fix v s
  obtain line s' where r: "read_line False s = (line, s')" by fastforce
  show "read_chunk_header chunk (wev v s) = apsnd (wev v) (read_chunk_header chunk s)"
    using r brl.blind_run [OF r, of v] by (simp add: read_chunk_header_def junk_here_def Let_def)
qed

interpretation brck: blind_reader read_chunk
proof unfold_locales
  fix v s
  let ?c0 = "\<lparr>ck_size = 0, ck_extention = [], ck_data = []\<rparr>"
  obtain c s1 where h: "read_chunk_header ?c0 s = (c, s1)" by fastforce
  obtain d s2 where d: "read_data (sint (ck_size c)) s1 = (d, s2)" by fastforce
  obtain d' s3 where d': "read_data 2 (if 0 < ck_size c then s2 else s1) = (d', s3)" by fastforce
  show "read_chunk (wev v s) = apsnd (wev v) (read_chunk s)"
    using h brch.blind_run [OF h, of v] d brd.blind_run [OF d, of v] d' brd.blind_run [OF d', of v]
    by (cases "0 < ck_size c") (simp_all add: read_chunk_def Let_def)
qed

lemma blind_payload_loop: "payload_loop payload (wev v s) = apsnd (wev v) (payload_loop payload s)"
proof (induction payload s rule: payload_loop.induct)
  case (1 payload s)
  note unf = payload_loop.simps [of payload "wev v s"] payload_loop.simps [of payload s]
  obtain c s' where c: "read_chunk s = (c, s')" by fastforce
  show ?case
    using 1 [OF c [symmetric]] brck.blind_run [OF c, of v] c
    by (auto simp: unf Let_def)
qed

interpretation brcp: blind_reader "read_chunked_payload payload" for payload
  by unfold_locales (simp add: read_chunked_payload_def blind_payload_loop split: prod.splits)

lemma blind_header_lines: "read_header_lines data (wev v s) = apsnd (wev v) (read_header_lines data s)"
proof (induction data s rule: read_header_lines.induct)
  case (1 data s)
  note unf = read_header_lines.simps [of data "wev v s"] read_header_lines.simps [of data s]
  obtain n b s' where r: "read_line_buf ICAP_BUFFER_SIZE True s = ((n, b), s')" by (metis prod.exhaust)
  show ?case
    using 1 [OF r [symmetric]] brlb.blind_run [OF r, of v] r by (auto simp: unf)
qed

interpretation brqh: blind_reader read_req_header
  by unfold_locales (simp add: read_req_header_def blind_header_lines split: prod.splits)

interpretation brp: blind_reader "read_part entity n payload" for entity n payload
  by unfold_locales (simp add: read_part_def brd.blind split: prod.splits)

interpretation brb: blind_reader "read_body entity payload" for entity payload
  by unfold_locales (simp add: read_body_def brcp.blind split: prod.splits)

lemma blind_parts: "read_parts ps payload (wev v s) = apsnd (wev v) (read_parts ps payload s)"
proof (induction ps payload s rule: read_parts.induct)
  case (3 e off e2 off2 ps payload s)
  show ?case
  proof (cases "off < 0")
    case False
    obtain p' s' where r: "(if 0 < off2 - off then read_part e (off2 - off) payload s else (payload, s)) = (p', s')"
      by fastforce
    then have "(if 0 < off2 - off then read_part e (off2 - off) payload (wev v s) else (payload, wev v s)) = (p', wev v s')"
      by (auto simp: brp.blind split: if_splits)
    with 3(2) [OF False refl r [symmetric]] False r show ?thesis by (simp add: Let_def)
  qed (use 3(1) in simp)
qed (simp_all add: brb.blind)

interpretation brqd: blind_reader "read_req_data rq" for rq
  by unfold_locales (simp add: read_req_data_def blind_parts split: prod.splits)

interpretation brqc: blind_reader "read_req_continue_data rq" for rq
  by unfold_locales (simp add: read_req_continue_data_def brb.blind Let_def split: prod.splits)


section \<open>Two runs\<close>

text \<open>
  In the first run every write works, in the second any of them raises or is refused. The second
  is in step with the first, or its stream is dead, and what it wrote and what it read is a prefix
  of what the first wrote and read.
\<close>

definition sound :: "wevent list \<Rightarrow> bool" where
  "sound v \<longleftrightarrow> (\<forall>e\<in>set v. e = W_ok)"

definition in_step :: "sock \<Rightarrow> sock \<Rightarrow> bool" where
  "in_step s t \<longleftrightarrow> t = wev (s_wev t) s"

definition lost :: "sock \<Rightarrow> sock \<Rightarrow> bool" where
  "lost s t \<longleftrightarrow> \<not> s_good t \<and> prefix (s_out t) (s_out s) \<and> suffix (s_in s) (s_in t)"

lemma in_step_refl [simp]: "in_step s s"
  by (simp add: in_step_def)

lemma in_step_wev [simp]: "in_step s (wev v s)"
  by (simp add: in_step_def)

lemma in_step_good: "in_step s t \<Longrightarrow> s_good t = s_good s"
  unfolding in_step_def by (metis sock.ext_inject sock.surjective sock.update_convs(7))

lemma in_step_out: "in_step s t \<Longrightarrow> s_out t = s_out s"
  unfolding in_step_def by (metis sock.ext_inject sock.surjective sock.update_convs(7))

lemma in_step_in: "in_step s t \<Longrightarrow> s_in t = s_in s"
  unfolding in_step_def by (metis sock.ext_inject sock.surjective sock.update_convs(7))

text \<open>What every routine keeps: a dead stream stays dead, its output and its input as they are.\<close>

definition kept :: "sock \<Rightarrow> sock \<Rightarrow> bool" where
  "kept s s' \<longleftrightarrow> (s_good s' \<longrightarrow> s_good s) \<and> (\<not> s_good s \<longrightarrow> s_out s' = s_out s \<and> s_in s' = s_in s) \<and>
     prefix (s_out s) (s_out s') \<and> suffix (s_in s') (s_in s)"

lemma kept_refl [simp]: "kept s s"
  by (simp add: kept_def)

lemma kept_trans: "kept s s' \<Longrightarrow> kept s' s'' \<Longrightarrow> kept s s''"
  unfolding kept_def by (auto dest: prefix_order.trans suffix_order.trans)

lemma kept_consumed: "consumed s s' \<Longrightarrow> kept s s'"
  by (auto simp: kept_def consumed_def suffix_def)

lemma kept_emitted: "emitted s s' \<Longrightarrow> kept s s'"
  by (auto simp: kept_def emitted_def prefix_def)

lemma lost_kept: "lost s t \<Longrightarrow> kept s s' \<Longrightarrow> kept t t' \<Longrightarrow> lost s' t'"
  unfolding lost_def kept_def by (auto intro: prefix_order.trans suffix_order.trans)

text \<open>
  Two runs of a routine: they end in step and with the same result, or the second is lost. A
  routine with this property can be put behind another, whatever it does with its result.
\<close>

definition paired :: "'a \<times> sock \<Rightarrow> 'a \<times> sock \<Rightarrow> bool" where
  "paired p q \<longleftrightarrow> sound (s_wev (snd p)) \<and>
     (in_step (snd p) (snd q) \<and> fst p = fst q \<or> lost (snd p) (snd q))"

locale lossy_exchange =
  fixes f :: "sock \<Rightarrow> 'a \<times> sock"
  assumes keeps_stream: "kept s (snd (f s))"
    and pairs: "sound (s_wev s) \<Longrightarrow> in_step s t \<Longrightarrow> paired (f s) (f t)"
begin

lemma stays_sound: "sound (s_wev s) \<Longrightarrow> sound (s_wev (snd (f s)))"
  using pairs [OF _ in_step_refl] by (auto simp: paired_def)

lemma stays_lost: "lost s t \<Longrightarrow> lost (snd (f s)) (snd (f t))"
  by (rule lost_kept [OF _ keeps_stream keeps_stream])

end

lemma lossy_exchange_pure: "lossy_exchange (\<lambda>s. (x, s))"
  by unfold_locales (simp_all add: paired_def)

lemma lossy_exchange_then:
  assumes f: "lossy_exchange f" and g: "\<And>x. lossy_exchange (g x)"
  shows "lossy_exchange (\<lambda>s. case f s of (x, s') \<Rightarrow> g x s')"
proof unfold_locales
  fix s t :: sock
  obtain x s1 where s1: "f s = (x, s1)" by fastforce
  obtain y t1 where t1: "f t = (y, t1)" by fastforce
  show "kept s (snd (case f s of (x, s') \<Rightarrow> g x s'))"
    using kept_trans lossy_exchange.keeps_stream [OF f, of s] lossy_exchange.keeps_stream [OF g, of s1 x] s1 by simp
  assume a: "sound (s_wev s)" "in_step s t"
  have p: "paired (x, s1) (y, t1)" using lossy_exchange.pairs [OF f a] s1 t1 by simp
  then have snd1: "sound (s_wev s1)" by (simp add: paired_def)
  show "paired (case f s of (x, s') \<Rightarrow> g x s') (case f t of (x, s') \<Rightarrow> g x s')"
  proof (cases "in_step s1 t1 \<and> x = y")
    case True
    with lossy_exchange.pairs [OF g snd1, of t1 x] s1 t1 show ?thesis by simp
  next
    case False
    with p have "lost s1 t1" by (auto simp: paired_def)
    then have "lost (snd (g x s1)) (snd (g y t1))"
      using lost_kept lossy_exchange.keeps_stream [OF g, of s1 x] lossy_exchange.keeps_stream [OF g, of t1 y] by blast
    with lossy_exchange.stays_sound [OF g snd1, of x] s1 t1 show ?thesis by (simp add: paired_def)
  qed
qed

lemma lossy_exchange_result:
  "lossy_exchange f \<Longrightarrow> lossy_exchange (\<lambda>s. case f s of (x, s') \<Rightarrow> (h x, s'))"
  by (erule lossy_exchange_then [where g = "\<lambda>x s. (h x, s)"]) (rule lossy_exchange_pure)

text \<open>A reader may also look at the state it leaves, but for how writes end.\<close>

lemma lossy_exchange_reader:
  assumes r: "stream_reader rd" and b: "blind_reader rd" and obs: "\<And>v s. obs (wev v s) = obs s"
  shows "lossy_exchange (\<lambda>s. case rd s of (x, s') \<Rightarrow> ((x, obs s'), s'))"
proof unfold_locales
  fix s t :: sock
  obtain x s1 where s1: "rd s = (x, s1)" by fastforce
  have c: "consumed s s1" using stream_reader.consumes [OF r, of s] s1 by simp
  show "kept s (snd (case rd s of (x, s') \<Rightarrow> ((x, obs s'), s')))" using kept_consumed [OF c] s1 by simp
  assume "sound (s_wev s)" "in_step s t"
  moreover from this have "rd t = (x, wev (s_wev t) s1)"
    using blind_reader.blind_run [OF b s1, of "s_wev t"] by (simp add: in_step_def)
  moreover have "s_wev s1 = s_wev s" using c by (simp add: consumed_def)
  ultimately show "paired (case rd s of (x, s') \<Rightarrow> ((x, obs s'), s')) (case rd t of (x, s') \<Rightarrow> ((x, obs s'), s'))"
    using s1 by (simp add: paired_def obs)
qed

lemma lossy_exchange_reads:
  assumes "stream_reader rd" and "blind_reader rd"
  shows "lossy_exchange rd"
  using lossy_exchange_result [OF lossy_exchange_reader [OF assms, where obs = "\<lambda>_. ()"], where h = fst]
  by (simp add: case_prod_unfold)

section \<open>The writing routines\<close>

text \<open>One write after another, where a failure of the first ends the routine.\<close>

lemma lossy_exchange_and:
  assumes "lossy_exchange wr" and "lossy_exchange wr'"
  shows "lossy_exchange (\<lambda>s. case wr s of (ok, s1) \<Rightarrow> if \<not> ok then (False, s1) else wr' s1)"
proof -
  have "lossy_exchange (if \<not> ok then (\<lambda>s. (False, s)) else wr')" for ok
    using assms(2) lossy_exchange_pure [of False] by simp
  from lossy_exchange_then [where g = "\<lambda>ok. if \<not> ok then (\<lambda>s. (False, s)) else wr'", OF assms(1) this]
  show ?thesis by (simp add: if_distrib [where f = "\<lambda>f. f _"])
qed

text \<open>A routine whose result is dropped.\<close>

lemma lossy_exchange_drop: "lossy_exchange wr \<Longrightarrow> lossy_exchange (\<lambda>s. (x, snd (wr s)))"
  using lossy_exchange_result [of wr "\<lambda>_. x"] by (simp add: case_prod_unfold)

interpretation lwrite: lossy_exchange "sock_write bs" for bs
proof unfold_locales
  fix s t :: sock
  show "kept s (snd (sock_write bs s))" by (rule kept_emitted [OF swrite.emits])
  assume s: "sound (s_wev s)" and "in_step s t"
  then obtain v where v: "t = wev v s" by (metis in_step_def)
  show "paired (sock_write bs s) (sock_write bs t)"
    using s v
    by (cases "s_wev s"; cases v)
      (auto simp: sock_write_def Let_def paired_def in_step_def lost_def sound_def take_is_prefix
        split: wevent.splits)
qed

interpretation lline: lossy_exchange "send_line line" for line
  unfolding send_line_def by (intro lossy_exchange_and lwrite.lossy_exchange_axioms)

interpretation ldata: lossy_exchange "send_data data" for data
  unfolding send_data_def by (rule lwrite.lossy_exchange_axioms)

lemma send_chunked_loop_fun:
  "send_chunked_loop data offset chunks =
    (let c = substr data (unat offset) (Some (nat ICAP_BUFFER_SIZE))
     in if length c \<le> 0 then (\<lambda>s. (True, s))
        else (\<lambda>s. case send_line (dectohex (of_nat (length c))) s of (ok, s1) \<Rightarrow>
          if \<not> ok then (False, s1)
          else (\<lambda>s. case send_data c s of (ok, s1) \<Rightarrow>
            if \<not> ok then (False, s1)
            else (if 0 < chunks - 1 then send_chunked_loop data (offset + of_nat (length c)) (chunks - 1)
                  else (\<lambda>s. (True, s))) s1) s1))"
  by (rule ext, subst send_chunked_loop.simps) (auto simp: Let_def split: prod.splits)

lemma lossy_exchange_chunked_loop: "lossy_exchange (send_chunked_loop data offset chunks)"
proof (induction "nat chunks" arbitrary: offset chunks rule: less_induct)
  case less
  let ?c = "substr data (unat offset) (Some (nat ICAP_BUFFER_SIZE))"
  have "lossy_exchange (if 0 < chunks - 1 then send_chunked_loop data (offset + of_nat (length ?c)) (chunks - 1)
      else (\<lambda>s. (True, s)))"
    using less [of "chunks - 1"] lossy_exchange_pure [of True] by auto
  note then_rest = lossy_exchange_and [OF lline.lossy_exchange_axioms lossy_exchange_and [OF ldata.lossy_exchange_axioms this]]
  show ?case
    unfolding send_chunked_loop_fun [of data offset chunks] Let_def
    using then_rest lossy_exchange_pure [of True] by (cases "length ?c \<le> 0") simp_all
qed

interpretation lchunked: lossy_exchange "send_chunked data" for data
  unfolding send_chunked_def Let_def
  by (intro lossy_exchange_and lossy_exchange_chunked_loop ldata.lossy_exchange_axioms)

lemma lossy_exchange_header_lines: "lossy_exchange (send_header_lines hs)"
proof (induction hs)
  case Nil
  then show ?case using lossy_exchange_pure [of True] by (simp add: send_header_lines.simps(1) [abs_def])
next
  case (Cons h hs)
  then show ?case
    using lossy_exchange_and [OF lline.lossy_exchange_axioms Cons]
    by (cases h) (simp add: send_header_lines.simps(2) [abs_def])
qed

interpretation lhdrs: lossy_exchange "send_headers h" for h
  unfolding send_headers_def
  by (intro lossy_exchange_and lossy_exchange_header_lines lline.lossy_exchange_axioms ldata.lossy_exchange_axioms)

text \<open>Routines without a result, with one added to them.\<close>

lemma lossy_exchange_after:
  assumes "lossy_exchange (\<lambda>s. (x, f s))" and "lossy_exchange (\<lambda>s. (y, g s))"
  shows "lossy_exchange (\<lambda>s. (y, g (f s)))"
  using lossy_exchange_then [OF assms(1), of "\<lambda>_ s. (y, g s)"] assms(2) by simp

lemma lossy_exchange_part:
  assumes "lossy_exchange (send data)"
  shows "lossy_exchange (\<lambda>s. (x, send_part send data s))"
  using lossy_exchange_drop [OF assms, of x] lossy_exchange_pure [of x]
  by (cases "0 < length data") (simp_all add: send_part_def)

lemma lossy_exchange_flush: "lossy_exchange (\<lambda>s. (x, sock_flush s))"
proof unfold_locales
  fix s t :: sock
  show "kept s (snd (x, sock_flush s))" by (simp add: kept_emitted emitted_flush)
  assume s: "sound (s_wev s)" and "in_step s t"
  then obtain v where v: "t = wev v s" by (metis in_step_def)
  show "paired (x, sock_flush s) (x, sock_flush t)"
    using s v
    by (cases "s_wev s"; cases v)
      (auto simp: sock_flush_def Let_def paired_def in_step_def lost_def sound_def split: wevent.splits)
qed

lemma lossy_exchange_payload: "lossy_exchange (\<lambda>s. (x, send_payload payload s))"
proof -
  let ?qh = "send_part send_data (req_header payload)"
  let ?qb = "send_part send_chunked (req_body payload)"
  let ?rh = "send_part send_data (res_header payload)"
  let ?rb = "send_part send_chunked (res_body payload)"
  note parts = lossy_exchange_part [where send = send_data and x = x, OF ldata.lossy_exchange_axioms]
    lossy_exchange_part [where send = send_chunked and x = x, OF lchunked.lossy_exchange_axioms]
  have "lossy_exchange (\<lambda>s. (x, ?qb (?qh s)))"
    by (rule lossy_exchange_after [where f = ?qh and g = ?qb and x = x]) (rule parts)+
  then have "lossy_exchange (\<lambda>s. (x, ?rh (?qb (?qh s))))"
    by (rule lossy_exchange_after [where f = "\<lambda>s. ?qb (?qh s)" and g = ?rh and x = x]) (rule parts)
  then have "lossy_exchange (\<lambda>s. (x, ?rb (?rh (?qb (?qh s)))))"
    by (rule lossy_exchange_after [where f = "\<lambda>s. ?rh (?qb (?qh s))" and g = ?rb and x = x]) (rule parts)
  then show ?thesis by (simp add: send_payload_def)
qed

interpretation lresp: lossy_exchange "send_response rs" for rs
proof -
  let ?head = "\<lambda>s. case send_line (status_line (r_header rs)) s of (ok, s1) \<Rightarrow>
    if \<not> ok then (False, s1) else send_headers (r_header rs) s1"
  let ?close = "\<lambda>ok s. (ok, sock_flush (if ok then send_payload (r_payload rs) s else s))"
  have head: "lossy_exchange ?head"
    by (intro lossy_exchange_and lline.lossy_exchange_axioms lhdrs.lossy_exchange_axioms)
  have "lossy_exchange (?close ok)" for ok
    using lossy_exchange_after [OF lossy_exchange_payload [of ok "r_payload rs"] lossy_exchange_flush [of ok]]
      lossy_exchange_flush [of ok] by (cases ok) simp_all
  from lossy_exchange_then [where g = ?close, OF head this]
  have "lossy_exchange (\<lambda>s. case ?head s of (ok, s1) \<Rightarrow> ?close ok s1)" .
  moreover have "send_response rs = (\<lambda>s. case ?head s of (ok, s1) \<Rightarrow> ?close ok s1)"
    by (auto simp: send_response_def fun_eq_iff split: prod.splits if_splits)
  ultimately show "lossy_exchange (send_response rs)" by simp
qed

section \<open>Requests\<close>

interpretation xrqd: lossy_exchange "read_req_data rq" for rq
  by (rule lossy_exchange_reads) (rule rqd.stream_reader_axioms brqd.blind_reader_axioms)+

interpretation xrqc: lossy_exchange "read_req_continue_data rq" for rq
  by (rule lossy_exchange_reads) (rule rqc.stream_reader_axioms brqc.blind_reader_axioms)+

interpretation xcont: lossy_exchange "preview_continue rs rq" for rs rq
proof (cases "ieof (q_payload rq)")
  case True
  then show "lossy_exchange (preview_continue rs rq)"
    using lossy_exchange_pure [of "(False, rq)"] by (simp add: preview_continue_def [abs_def])
next
  case False
  have "lossy_exchange (\<lambda>s. case send_response rs s of (ok, s1) \<Rightarrow>
      (if ok then read_req_continue_data rq else (\<lambda>s. ((False, rq), s))) s1)"
    by (rule lossy_exchange_then [OF lresp.lossy_exchange_axioms])
      (simp add: lossy_exchange_pure xrqc.lossy_exchange_axioms)
  moreover have "preview_continue rs rq = (\<lambda>s. case send_response rs s of (ok, s1) \<Rightarrow>
      (if ok then read_req_continue_data rq else (\<lambda>s. ((False, rq), s))) s1)"
    using False by (auto simp: preview_continue_def fun_eq_iff split: prod.splits)
  ultimately show "lossy_exchange (preview_continue rs rq)" by simp
qed

text \<open>The handlers give the connection back between their result and the world.\<close>

definition carry :: "'a \<times> sock \<times> 'w \<Rightarrow> ('a \<times> 'w) \<times> sock" where
  "carry = (\<lambda>(x, s, w). ((x, w), s))"

lemma carry_simp [simp]: "carry (x, s, w) = ((x, w), s)"
  by (simp add: carry_def)

lemma lossy_exchange_preview: "lossy_exchange (\<lambda>s. carry (process_preview_loop tick rs hs rq s w))"
proof (induction hs arbitrary: rs rq w)
  case Nil
  then show ?case by (simp add: lossy_exchange_pure)
next
  case (Cons h hs)
  obtain r q v where a: "ask_modifier md_preview (hn_symbols h) rq w = ((r, q), v)"
    by (metis prod.exhaust)
  have "lossy_exchange (\<lambda>s. case preview_continue r q s of (x, s1) \<Rightarrow>
      ((if fst x then ((None, snd x), v)
        else case server_error tick v of (err, w2) \<Rightarrow> ((Some err, snd x), w2)), s1))"
    by (rule lossy_exchange_result [OF xcont.lossy_exchange_axioms])
  moreover have "(\<lambda>s. case preview_continue r q s of (x, s1) \<Rightarrow>
      ((if fst x then ((None, snd x), v)
        else case server_error tick v of (err, w2) \<Rightarrow> ((Some err, snd x), w2)), s1)) =
      (\<lambda>s. carry (case preview_continue r q s of
        ((continue_status, rq''), s1) \<Rightarrow>
          if continue_status then ((None, rq''), s1, v)
          else case server_error tick v of (err, w2) \<Rightarrow> ((Some err, rq''), s1, w2)))"
    by (auto simp: fun_eq_iff split: prod.splits)
  ultimately show ?case
    using Cons.IH [of rs rq w] Cons.IH [of "Some r" q v] a
    by (cases "hn_name h = []"; cases "status_of r = NO_CONTENT \<or> status_of r = OK";
      cases "status_of r = CONTINUE") (auto simp: lossy_exchange_pure)
qed

lemma lossy_exchange_process: "lossy_exchange (\<lambda>s. carry (process tick rh hdr s w))"
proof -
  let ?pv = "\<lambda>rq s. if 0 \<le> preview_size rq then process_preview tick rh rq s w else ((None, rq), s, w)"
  let ?md = "\<lambda>x. case x of ((rs, q1), w1) \<Rightarrow>
    (case rs of None \<Rightarrow> process_modify rh q1 w1 | Some r \<Rightarrow> ((Some r, q1), w1))"
  let ?close = "\<lambda>y. case y of ((rs', q2), w2) \<Rightarrow>
    (case rs' of Some r \<Rightarrow> ((r, q_header q2), w2)
     | None \<Rightarrow> (case server_error tick w2 of (err, w3) \<Rightarrow> ((err, q_header q2), w3)))"
  have pv: "lossy_exchange (\<lambda>s. carry (?pv rq s))" for rq
    using lossy_exchange_preview [of tick None "hd_handlers rh" rq w]
    by (cases "0 \<le> preview_size rq") (simp_all add: process_preview_def lossy_exchange_pure)
  have "lossy_exchange (\<lambda>s. case read_req_data (new_request hdr) s of (x, s1) \<Rightarrow>
      (case carry (?pv (snd x) s1) of (y, s2) \<Rightarrow> (?close (?md y), s2)))"
    by (rule lossy_exchange_then [OF xrqd.lossy_exchange_axioms]) (rule lossy_exchange_result [OF pv])
  moreover have "carry (process tick rh hdr s w) = (case read_req_data (new_request hdr) s of (x, s1) \<Rightarrow>
      (case carry (?pv (snd x) s1) of (y, s2) \<Rightarrow> (?close (?md y), s2)))" for s
  proof -
    obtain b rq s1 where d: "read_req_data (new_request hdr) s = ((b, rq), s1)" by (metis prod.exhaust)
    obtain rs q1 s2 w1 where p: "?pv rq s1 = ((rs, q1), s2, w1)" by (metis prod.exhaust)
    obtain rs' q2 w2 where m: "(case rs of None \<Rightarrow> process_modify rh q1 w1
      | Some r \<Rightarrow> ((Some r, q1), w1)) = ((rs', q2), w2)" by (metis prod.exhaust)
    show ?thesis
      unfolding process_steps [OF d p m] d prod.case snd_conv p carry_simp m
      by (auto split: option.splits prod.splits)
  qed
  ultimately show ?thesis by simp
qed

lemma lossy_exchange_respond:
  assumes "table_ok hs"
  shows "\<exists>f. lossy_exchange f \<and> (\<forall>s. respond tick hs hdr s w = Some (case f s of ((x, w'), s') \<Rightarrow> (x, s', w')))"
proof (cases "find_req_handler hs (method_of hdr)")
  case None
  obtain r v where "not_allowed tick w = (r, v)" by fastforce
  with None have "respond tick hs hdr s w = Some ((r, hdr), s, v)" for s by (simp add: respond_def)
  with lossy_exchange_pure [of "((r, hdr), v)"] show ?thesis
    by (intro exI [of _ "\<lambda>s. (((r, hdr), v), s)"]) simp
next
  case (Some h)
  show ?thesis
  proof (cases h)
    case (Options_handler oh)
    with find_req_handler_ok [OF assms Some] obtain r v where "options_process tick oh w = Some (r, v)"
      by (cases "hd_methods oh"; cases "tick w") (auto simp: options_process_def Let_def)
    with Some Options_handler have "respond tick hs hdr s w = Some ((r, hdr), s, v)" for s
      by (simp add: respond_def handler_process_def)
    with lossy_exchange_pure [of "((r, hdr), v)"] show ?thesis
      by (intro exI [of _ "\<lambda>s. (((r, hdr), v), s)"]) simp
  next
    case (Mod_handler rh)
    with Some have "respond tick hs hdr s w = Some (process tick rh hdr s w)" for s
      by (simp add: respond_def handler_process_def)
    with lossy_exchange_process [of tick rh hdr w] show ?thesis
      by (intro exI [of _ "\<lambda>s. carry (process tick rh hdr s w)"]) (simp add: carry_def case_prod_unfold)
  qed
qed

section \<open>The connection\<close>

text \<open>The worker's function as one that gives the connection back last.\<close>

definition connection :: "'w tick \<Rightarrow> 'w req_handlers \<Rightarrow> u32 \<Rightarrow> 'w \<Rightarrow> sock \<Rightarrow> (u32 \<times> 'w) \<times> sock" where
  "connection tick hs m w s = carry (the (serve_client tick hs s m w))"

lemma serve_client_connection:
  "table_ok hs \<Longrightarrow> connection tick hs m w s = ((m', w'), s') \<Longrightarrow> serve_client tick hs s m w = Some (m', s', w')"
  using serve_client_total [of hs tick s m w] by (auto simp: connection_def carry_def split: prod.splits)

lemma lossy_exchange_header:
  "lossy_exchange (\<lambda>s. case read_req_header s of (hdr, s1) \<Rightarrow> ((hdr, s_timedout s1), s1))"
  by (rule lossy_exchange_reader) (simp_all add: rqh.stream_reader_axioms brqh.blind_reader_axioms)

lemma lossy_exchange_connection:
  assumes "table_ok hs"
  shows "lossy_exchange (connection tick hs m w)"
proof (induction "unat (m - 1)" arbitrary: m w rule: less_induct)
  case less
  let ?reply = "\<lambda>x s. case send_response (set_connection (snd (fst x)) (fst (fst x))) s of
    (_, s3) \<Rightarrow> (if 0 < m - 1 \<and> keep_alive (snd (fst x)) then connection tick hs (m - 1) (snd x)
      else (\<lambda>s. ((m - 1, snd x), s))) s3"
  have reply: "lossy_exchange (?reply x)" for x
  proof (rule lossy_exchange_then [OF lresp.lossy_exchange_axioms])
    have "unat (m - 1 - 1) < unat (m - 1)" if "0 < m - 1"
    proof -
      have "m - 1 \<noteq> 0" using that by auto
      then show ?thesis using unat_dec [of "m - 1"] by (simp add: unat_gt_0)
    qed
    then show "lossy_exchange (if 0 < m - 1 \<and> keep_alive (snd (fst x)) then connection tick hs (m - 1) (snd x)
        else (\<lambda>s. ((m - 1, snd x), s)))"
      using less [of "m - 1" "snd x"] by (simp add: lossy_exchange_pure)
  qed
  obtain f where f: "lossy_exchange (f hdr)" and resp: "\<And>s. respond tick hs hdr s w =
      Some (case f hdr s of ((x, w'), s') \<Rightarrow> (x, s', w'))" for hdr
    using lossy_exchange_respond [OF assms, of tick _ w] by metis
  let ?step = "\<lambda>y. if snd y then (\<lambda>s. ((m - 1, w), s)) else (\<lambda>s. case f (fst y) s of (x, s2) \<Rightarrow> ?reply x s2)"
  have step: "lossy_exchange (?step y)" for y
    using lossy_exchange_then [OF f [of "fst y"] reply] lossy_exchange_pure [of "(m - 1, w)"] by simp
  have "connection tick hs m w s =
      (case (case read_req_header s of (hdr, s1) \<Rightarrow> ((hdr, s_timedout s1), s1)) of (y, s1) \<Rightarrow> ?step y s1)" for s
  proof -
    obtain hdr s1 where r: "read_req_header s = (hdr, s1)" by fastforce
    obtain rs hdr' w1 s2 where x: "f hdr s1 = (((rs, hdr'), w1), s2)" by (metis prod.exhaust)
    obtain ok s3 where sd: "send_response (set_connection hdr' rs) s2 = (ok, s3)" by fastforce
    have rp: "respond tick hs hdr s1 w = Some ((rs, hdr'), s2, w1)" using resp [of hdr s1] x by simp
    show ?thesis
      using serve_client_timeout [OF r, of tick hs m w] serve_client_step [OF r _ rp sd, of m] r x sd
      by (cases "s_timedout s1") (auto simp: connection_def)
  qed
  then have "connection tick hs m w =
      (\<lambda>s. case (case read_req_header s of (hdr, s1) \<Rightarrow> ((hdr, s_timedout s1), s1)) of (y, s1) \<Rightarrow> ?step y s1)"
    by (rule ext)
  with lossy_exchange_then [where g = ?step, OF lossy_exchange_header step] show ?case by simp
qed

text \<open>What the client got of the answers is the beginning of what it should have got.\<close>

lemma lossy_connection:
  assumes "table_ok hs" and "sound (s_wev s)"
  shows "\<exists>m1 s1 w1 m2 s2 w2. serve_client tick hs s m w = Some (m1, s1, w1) \<and>
    serve_client tick hs (wev v s) m w = Some (m2, s2, w2) \<and> prefix (s_out s2) (s_out s1) \<and>
    suffix (s_in s1) (s_in s2) \<and> (s_good s2 \<longrightarrow> m2 = m1 \<and> w2 = w1 \<and> s2 = wev (s_wev s2) s1)"
proof -
  obtain m1 w1 s1 where a: "connection tick hs m w s = ((m1, w1), s1)" by (metis prod.exhaust)
  obtain m2 w2 s2 where b: "connection tick hs m w (wev v s) = ((m2, w2), s2)" by (metis prod.exhaust)
  have p: "paired ((m1, w1), s1) ((m2, w2), s2)"
    using lossy_exchange.pairs [OF lossy_exchange_connection [OF assms(1)] assms(2) in_step_wev,
        of tick m w v] a b by simp
  then have "prefix (s_out s2) (s_out s1) \<and> suffix (s_in s1) (s_in s2)"
    by (auto simp: paired_def lost_def dest: in_step_out in_step_in)
  moreover have "m2 = m1 \<and> w2 = w1 \<and> s2 = wev (s_wev s2) s1" if "s_good s2"
    using p that by (auto simp: paired_def lost_def in_step_def)
  ultimately show ?thesis
    using serve_client_connection [OF assms(1) a] serve_client_connection [OF assms(1) b] by blast
qed

section \<open>A 100 response that is lost\<close>

text \<open>
  \<open>send_response\<close> reports success when the buffer refuses the bytes. The rest of the body is then
  not there to be read, which is no failure either: the modules are asked about the preview as if
  it were the whole.
\<close>

lemma dead_line: "\<not> s_good s \<Longrightarrow> read_line incl s = ([], s\<lparr>s_gcount := 0\<rparr>)"
  by (simp add: read_line_def read_line_loop.simps [of incl "[]" _ s] sock_get_def)

lemma dead_data: "\<not> s_good s \<Longrightarrow> fst (read_data sz s) = []"
  by (simp add: read_data_def read_data_loop.simps [of sz "[]" s] sock_read_def)

lemma dead_chunk:
  assumes "\<not> s_good s"
  shows "fst (read_chunk s) = \<lparr>ck_size = 0, ck_extention = [], ck_data = []\<rparr>"
  using assms split_none [of "[]" "'';''"] by (simp add: read_chunk_def read_chunk_header_def dead_line)

lemma dead_payload:
  assumes "\<not> s_good s"
  shows "fst (read_chunked_payload payload s) = (False, payload)"
proof -
  obtain s' where "read_chunk s = (\<lparr>ck_size = 0, ck_extention = [], ck_data = []\<rparr>, s')"
    using dead_chunk [OF assms] by (cases "read_chunk s") simp
  then show ?thesis
    by (simp add: read_chunked_payload_def payload_loop.simps [of payload s])
qed

lemma dead_body:
  assumes "\<not> s_good s" and "\<not> ieof payload" and "e = ''req-body'' \<or> e = ''res-body''"
  shows "fst (read_body e payload s) = payload"
proof -
  obtain s1 where q: "read_chunked_payload (req_body payload) s = ((False, req_body payload), s1)"
    using dead_payload [OF assms(1)] by (metis prod.collapse)
  obtain s2 where r: "read_chunked_payload (res_body payload) s = ((False, res_body payload), s2)"
    using dead_payload [OF assms(1)] by (metis prod.collapse)
  from assms(3) show ?thesis using assms(2) by (elim disjE) (simp_all add: read_body_def q r)
qed

lemma dead_write: "\<not> s_good s \<Longrightarrow> sock_write bs s = (True, s)"
  by (simp add: sock_write_def)

lemma dead_send_line: "\<not> s_good s \<Longrightarrow> send_line line s = (True, s)"
  by (simp add: send_line_def dead_write)

lemma dead_headers: "\<not> s_good s \<Longrightarrow> send_headers h s = (True, s)"
proof -
  assume d: "\<not> s_good s"
  have "send_header_lines hs s = (True, s)" for hs
    using d by (induction hs) (auto simp: dead_send_line)
  with d show ?thesis by (simp add: send_headers_def dead_send_line send_data_def dead_write)
qed

lemma dead_chunked: "\<not> s_good s \<Longrightarrow> send_chunked data s = (True, s)"
proof -
  assume d: "\<not> s_good s"
  have "send_chunked_loop data offset chunks s = (True, s)" for offset chunks
    using d
    by (induction "nat chunks" arbitrary: offset chunks rule: less_induct)
      (subst send_chunked_loop.simps, simp add: Let_def dead_send_line send_data_def dead_write)
  with d show ?thesis by (simp add: send_chunked_def Let_def send_data_def dead_write)
qed

lemma dead_flush: "\<not> s_good s \<Longrightarrow> sock_flush s = s"
  by (simp add: sock_flush_def)

lemma dead_response: "\<not> s_good s \<Longrightarrow> send_response rs s = (True, s)"
  by (simp add: send_response_def dead_send_line dead_headers send_payload_def send_part_def
      dead_chunked send_data_def dead_write dead_flush)

lemma refused_response:
  assumes "s_good s" and "s_wev s = W_bad k # v"
  shows "send_response rs s =
    (True, s\<lparr>s_wev := v, s_good := False, s_out := s_out s @ take k (status_line (r_header rs))\<rparr>)"
proof -
  let ?s = "s\<lparr>s_wev := v, s_good := False, s_out := s_out s @ take k (status_line (r_header rs))\<rparr>"
  have "send_line (status_line (r_header rs)) s = (True, ?s)"
    using assms by (simp add: send_line_def sock_write_def Let_def)
  moreover have "send_line (status_line (r_header rs)) ?s = (True, ?s)" by (simp add: dead_send_line)
  moreover have "send_response rs ?s = (True, ?s)" by (rule dead_response) simp
  ultimately show ?thesis by (simp only: send_response_def prod.case)
qed

lemma continue_refused:
  assumes "s_good s" and "s_wev s = W_bad k # v" and "\<not> ieof (q_payload rq)"
    and "sort_encapsulated_header (q_header rq) = es @ [(e, off)]" and "e = ''req-body'' \<or> e = ''res-body''"
  shows "\<exists>s'. preview_continue rs rq s = ((True, set_request_payload (q_payload rq) rq), s') \<and>
    \<not> s_good s' \<and> s_in s' = s_in s \<and> s_out s' = s_out s @ take k (status_line (r_header rs))"
proof -
  let ?s = "s\<lparr>s_wev := v, s_good := False, s_out := s_out s @ take k (status_line (r_header rs))\<rparr>"
  obtain s' where b: "read_body e (q_payload rq) ?s = (q_payload rq, s')"
    using dead_body [of ?s, OF _ assms(3,5)] by (cases "read_body e (q_payload rq) ?s") auto
  have c: "consumed ?s s'" using rbody.consumes [of ?s e "q_payload rq"] b by simp
  have "preview_continue rs rq s = ((True, set_request_payload (q_payload rq) rq), s')"
    using b assms(3,4) by (simp add: preview_continue_def refused_response [OF assms(1,2)] read_req_continue_data_def)
  with c show ?thesis by (auto simp: consumed_def)
qed

text \<open>Modules that are not loaded are passed over.\<close>

lemma preview_loop_loaded: "process_preview_loop tick rs hs rq s w = process_preview_loop tick rs (loaded hs) rq s w"
  by (induction tick rs hs rq s w rule: process_preview_loop.induct)
    (auto simp: loaded_def split: prod.splits)

text \<open>What the handler makes of the request then: the modules get the preview for the body.\<close>

lemma process_refused:
  assumes "read_req_data (new_request hdr) s = ((b, rq), s1)" and "0 \<le> preview_size rq"
    and "loaded (hd_handlers rh) = h # hs" and "ask_modifier md_preview (hn_symbols h) rq w = ((rs, rq1), w1)"
    and "status_of rs = CONTINUE" and "s_good s1" and "s_wev s1 = W_bad k # v" and "\<not> ieof (q_payload rq1)"
    and "sort_encapsulated_header (q_header rq1) = es @ [(e, off)]" and "e = ''req-body'' \<or> e = ''res-body''"
    and "process_modify rh (set_request_payload (q_payload rq1) rq1) w1 = ((rs', q2), w2)"
  shows "\<exists>s2. process tick rh hdr s w =
      (case rs' of
         Some r \<Rightarrow> ((r, q_header q2), s2, w2)
       | None \<Rightarrow> (case server_error tick w2 of (err, w3) \<Rightarrow> ((err, q_header q2), s2, w3))) \<and>
    \<not> s_good s2 \<and> s_in s2 = s_in s1 \<and> s_out s2 = s_out s1 @ take k (status_line (r_header rs))"
proof -
  obtain s2 where c: "preview_continue rs rq1 s1 = ((True, set_request_payload (q_payload rq1) rq1), s2)"
      "\<not> s_good s2" "s_in s2 = s_in s1" "s_out s2 = s_out s1 @ take k (status_line (r_header rs))"
    using continue_refused [where rs = rs, OF assms(6-10)] by blast
  have "hn_name h \<noteq> []" using assms(3) by (auto simp: loaded_def dest: filter_eq_ConsD)
  then have "process_preview tick rh rq s1 w = ((None, set_request_payload (q_payload rq1) rq1), s2, w1)"
    using assms(3-5) c(1) by (simp add: process_preview_def preview_loop_loaded [of tick None "hd_handlers rh"])
  with assms(2) have p: "(if 0 \<le> preview_size rq then process_preview tick rh rq s1 w else ((None, rq), s1, w)) =
      ((None, set_request_payload (q_payload rq1) rq1), s2, w1)" by simp
  have m: "(case None of None \<Rightarrow> process_modify rh (set_request_payload (q_payload rq1) rq1) w1
      | Some r \<Rightarrow> ((Some r, set_request_payload (q_payload rq1) rq1), w1)) = ((rs', q2), w2)"
    using assms(11) by simp
  from process_steps [OF assms(1) p m] c show ?thesis by blast
qed

section \<open>What is pushed out\<close>

text \<open>
  Every response ends with a \<open>flush\<close>, and reading leaves the stream good only when it was: so a
  connection that is good when the worker is done with it has nothing left in its buffer.
\<close>

definition pushed :: "sock \<Rightarrow> bool" where
  "pushed s \<longleftrightarrow> (s_good s \<longrightarrow> s_flushed s = length (s_out s))"

lemma pushed_consumed: "consumed s s' \<Longrightarrow> pushed s \<Longrightarrow> pushed s'"
  by (auto simp: pushed_def consumed_def)

lemma pushed_flush: "pushed (sock_flush s)"
  by (auto simp: pushed_def sock_flush_def Let_def split: list.splits wevent.splits)

lemma pushed_response: "pushed (snd (send_response rs s))"
  by (auto simp: send_response_def pushed_flush split: prod.splits)

lemma pushed_continue: "pushed s \<Longrightarrow> pushed (snd (preview_continue rs rq s))"
proof -
  assume p: "pushed s"
  obtain ok s1 where r: "send_response rs s = (ok, s1)" by fastforce
  then have "pushed s1" using pushed_response [of rs s] by simp
  with p r pushed_consumed [OF rqc.consumes [of s1 rq]] show ?thesis by (auto simp: preview_continue_def)
qed

lemma pushed_preview: "pushed s \<Longrightarrow> pushed (fst (snd (process_preview_loop tick rs hs rq s w)))"
proof (induction tick rs hs rq s w rule: process_preview_loop.induct)
  case (2 tick rs h hs rq s w)
  obtain r q v where a: "ask_modifier md_preview (hn_symbols h) rq w = ((r, q), v)" by (metis prod.exhaust)
  obtain ok q' s1 where c: "preview_continue r q s = ((ok, q'), s1)" by (metis prod.exhaust)
  have "pushed s1" using pushed_continue [OF 2(3), of r q] c by simp
  with 2 a c show ?case by (auto split: prod.splits)
qed simp

lemma pushed_process:
  assumes "pushed s"
  shows "pushed (fst (snd (process tick rh hdr s w)))"
proof -
  obtain b rq s1 where d: "read_req_data (new_request hdr) s = ((b, rq), s1)" by (metis prod.exhaust)
  have s1: "pushed s1" using pushed_consumed [OF rqd.consumes [of s "new_request hdr"] assms] d by simp
  obtain rs q1 s2 w1 where p: "(if 0 \<le> preview_size rq then process_preview tick rh rq s1 w
      else ((None, rq), s1, w)) = ((rs, q1), s2, w1)" by (metis prod.exhaust)
  then have "pushed s2"
    using s1 pushed_preview [OF s1, of tick None "hd_handlers rh" rq w] by (auto simp: process_preview_def split: if_splits)
  moreover obtain rs' q2 w2 where m: "(case rs of None \<Rightarrow> process_modify rh q1 w1
      | Some r \<Rightarrow> ((Some r, q1), w1)) = ((rs', q2), w2)" by (metis prod.exhaust)
  ultimately show ?thesis
    unfolding process_steps [OF d p m] by (auto split: option.splits prod.splits)
qed

lemma pushed_respond:
  assumes "respond tick hs hdr s w = Some (x, s', w')" and "pushed s"
  shows "pushed s'"
proof (cases "find_req_handler hs (method_of hdr)")
  case None
  with assms show ?thesis by (auto simp: respond_def split: prod.splits)
next
  case (Some h)
  show ?thesis
  proof (cases h)
    case (Mod_handler rh)
    with Some assms(1) have "process tick rh hdr s w = (x, s', w')" by (simp add: respond_def handler_process_def)
    with pushed_process [OF assms(2), of tick rh hdr w] show ?thesis by simp
  qed (use Some assms in \<open>auto simp: respond_def handler_process_def split: option.splits\<close>)
qed

lemma pushed_serve:
  "serve_client tick hs s m w = Some (m', s', w') \<Longrightarrow> pushed s \<Longrightarrow> pushed s'"
proof (induction tick hs s m w rule: serve_client.induct)
  case (1 tick hs s m w)
  obtain hdr s1 where r: "read_req_header s = (hdr, s1)" by fastforce
  have s1: "pushed s1" using pushed_consumed [OF rqh.consumes [of s] 1(3)] r by simp
  show ?case
  proof (cases "s_timedout s1")
    case True
    with serve_client_timeout [OF r True, of tick hs m w] 1(2) s1 show ?thesis by simp
  next
    case nt: False
    show ?thesis
    proof (cases "respond tick hs hdr s1 w")
      case None
      with 1(2) r nt show ?thesis by (simp add: serve_client.simps [of tick hs s])
    next
      case (Some y)
      obtain rs hdr' s2 w1 where y: "y = ((rs, hdr'), s2, w1)" by (metis prod.exhaust)
      obtain ok s3 where sd: "send_response (set_connection hdr' rs) s2 = (ok, s3)" by fastforce
      have s3: "pushed s3" using pushed_response [of "set_connection hdr' rs" s2] sd by simp
      note st = serve_client_step [OF r nt Some [unfolded y] sd, of m]
      show ?thesis
        using 1(1) [OF r [symmetric] nt Some [unfolded y] refl refl refl sd [symmetric]] 1(2) st s3
        by (auto split: if_splits)
    qed
  qed
qed

end
