(* ===== verification/ServerLoop.thy ===== *)
theory ServerLoop
  imports Server
begin

text \<open>
  The main loop of the server under every schedule of its steps and of the signals (\<open>run_loop\<close> in
  \<open>Server\<close>): what no signal disturbs, what a full pool needs the \<open>SIGCHLD\<close> handler kept out of, that
  the process comes back to \<open>sigsuspend\<close> by itself, and that no termination signal is lost.
\<close>

section \<open>Runs\<close>

lemma run_loop_append:
  "run_loop fork (es @ fs) r w = (case run_loop fork es r w of Goes_on r' w' \<Rightarrow> run_loop fork fs r' w' | x \<Rightarrow> x)"
  by (induction es arbitrary: r w) (auto split: run_end.splits)

lemma run_loop_snoc:
  "run_loop fork (es @ [e]) r w = (case run_loop fork es r w of Goes_on r' w' \<Rightarrow> server_event fork e r' w' | x \<Rightarrow> x)"
  by (auto simp: run_loop_append split: run_end.splits)

text \<open>An invariant of the events, and of how a run may end.\<close>

lemma run_loop_invariant:
  assumes "I r" and "\<And>e r w r' w'. e \<in> set es \<Longrightarrow> I r \<Longrightarrow> server_event fork e r w = Goes_on r' w' \<Longrightarrow> I r'"
  shows "run_loop fork es r w = Goes_on r' w' \<Longrightarrow> I r'"
  using assms
proof (induction es arbitrary: r w)
  case (Cons e es)
  then obtain r1 w1 where e: "server_event fork e r w = Goes_on r1 w1" "run_loop fork es r1 w1 = Goes_on r' w'"
    by (auto split: run_end.splits)
  have "I r1" using Cons.prems(2) Cons.prems(3) [OF _ _ e(1)] by simp
  with Cons.IH [OF e(2)] Cons.prems(3) show ?case by (meson list.set_intros(2))
qed simp

section \<open>What holds whatever the signals do\<close>

text \<open>
  The manager is there and is no worker, its pool has all its entries, and the termination signals
  are blocked around \<open>sigsuspend\<close> only, so that only there one can be pending.
\<close>

definition manager_of :: "running \<Rightarrow> manager_t" where
  "manager_of r = (case sv_manager (rn_server r) of Live m \<Rightarrow> m | _ \<Rightarrow> undefined)"

definition pool_whole :: "manager_t \<Rightarrow> bool" where
  "pool_whole m \<longleftrightarrow> \<not> mg_worker m \<and> length (mg_pool m) = unat (mg_max_workers m)"

definition loop_inv :: "running \<Rightarrow> bool" where
  "loop_inv r \<longleftrightarrow> (\<exists>m. sv_manager (rn_server r) = Live m \<and> pool_whole m) \<and> \<not> sv_terminating (rn_server r) \<and>
     (rn_blocked r \<longrightarrow> rn_point r = Woken \<or> rn_point r = Leaving) \<and> (rn_point r = Woken \<longrightarrow> rn_blocked r) \<and>
     (rn_term r \<longrightarrow> rn_blocked r)"

lemma pool_whole_reap: "pool_whole m \<Longrightarrow> pool_whole (reap_worker p m)"
proof -
  assume w: "pool_whole m"
  obtain found pool where r: "reap_loop p (mg_pool m) = (found, pool)" by fastforce
  have "length pool = length es" if "reap_loop p es = (found, pool)" for es found pool
    using that by (induction es arbitrary: found pool) (auto split: if_splits prod.splits)
  from this [OF r] w r show ?thesis by (simp add: pool_whole_def reap_worker_def)
qed

lemma pool_whole_step: "pool_whole m \<Longrightarrow> manager_step fork m pt w = Inl (m', pt', w') \<Longrightarrow> pool_whole m'"
  by (cases pt) (auto simp: pool_whole_def record_worker_def split: if_splits prod.splits fork_result.splits)

lemma manager_step_point:
  "manager_step fork m pt w = Inl (m', pt', w') \<Longrightarrow> pt \<notin> {Suspended, Woken, Leaving} \<Longrightarrow> pt' \<noteq> Suspended \<and> pt' \<noteq> Woken"
  by (cases pt) (auto split: if_splits prod.splits fork_result.splits)

lemma sigchld_whole:
  assumes "sv_manager sv = Live m" and "pool_whole m"
  shows "\<exists>m'. sigchld_handler ps sv = Some (sv\<lparr>sv_manager := Live m'\<rparr>) \<and> pool_whole m'"
  using assms
proof (induction ps arbitrary: sv m)
  case Nil
  then have "sv\<lparr>sv_manager := Live m\<rparr> = sv" by (cases sv) simp
  with Nil show ?case by (intro exI [of _ m]) simp
next
  case (Cons p ps)
  let ?sv = "sv\<lparr>sv_manager := Live (reap_worker p m)\<rparr>"
  obtain m' where "sigchld_handler ps ?sv = Some (?sv\<lparr>sv_manager := Live m'\<rparr>)" "pool_whole m'"
    using Cons.IH [of ?sv "reap_worker p m"] pool_whole_reap Cons.prems(2) by auto
  with Cons.prems(1) show ?case by auto
qed

text \<open>What the handler does where there is a manager: it ends the process.\<close>

lemma take_termination_ends:
  assumes "sv_manager (rn_server r) = Live m"
  obtains acts where "take_termination r w =
      Terminated_by ((rn_server r)\<lparr>sv_terminating := True, sv_manager := Dangling\<rparr>) acts"
    and "termination_handler (rn_server r) =
      Some ((rn_server r)\<lparr>sv_terminating := True, sv_manager := Dangling\<rparr>, acts)"
  using assms by (auto simp: take_termination_def termination_handler_def Let_def)

lemma take_termination_term:
  assumes "sv_manager (rn_server r) = Live m"
  shows "\<exists>sv acts. take_termination r w = Terminated_by sv acts"
  using take_termination_ends [OF assms, of w] by metis

lemma unblock_goes_on:
  assumes "unblock r w = Goes_on r' w'" and "sv_manager (rn_server r) = Live m"
  shows "r' = r\<lparr>rn_blocked := False\<rparr> \<and> \<not> rn_term r \<and> w' = w"
proof -
  have "take_termination (r\<lparr>rn_blocked := False, rn_term := False\<rparr>) w \<noteq> Goes_on r' w'"
    using take_termination_ends [of "r\<lparr>rn_blocked := False, rn_term := False\<rparr>" m w] assms(2) by fastforce
  with assms(1) show ?thesis by (auto simp: unblock_def split: if_splits)
qed

lemma loop_inv_step:
  assumes "loop_inv r" and "process_step fork r w = Goes_on r' w'"
  shows "loop_inv r'"
proof -
  obtain m where m: "sv_manager (rn_server r) = Live m" "pool_whole m" using assms(1) by (auto simp: loop_inv_def)
  note f = assms(1) [unfolded loop_inv_def]
  show ?thesis
  proof (cases "rn_point r \<in> {Suspended, Woken, Leaving}")
    case True
    with assms(2) f m show ?thesis
      by (auto simp: process_step_def loop_inv_def pool_whole_def dest!: unblock_goes_on [where m = m]
          split: if_splits)
  next
    case False
    then obtain m' pt' where s: "manager_step fork m (rn_point r) w = Inl (m', pt', w')"
        "r' = r\<lparr>rn_server := (rn_server r)\<lparr>sv_manager := Live m'\<rparr>, rn_point := pt'\<rparr>"
      using assms(2) m(1) by (cases "rn_point r") (auto simp: process_step_def split: sum.splits)
    have "\<not> rn_blocked r" using f False by auto
    with s f pool_whole_step [OF m(2) s(1)] manager_step_point [OF s(1) False] show ?thesis
      by (auto simp: loop_inv_def)
  qed
qed

lemma loop_inv_event:
  assumes "loop_inv r" and "server_event fork e r w = Goes_on r' w'"
  shows "loop_inv r'"
proof (cases e)
  case Step
  with assms loop_inv_step show ?thesis by fastforce
next
  case (Sig_child ps)
  obtain m where m: "sv_manager (rn_server r) = Live m" "pool_whole m" using assms(1) by (auto simp: loop_inv_def)
  from sigchld_whole [OF m, of ps] obtain m' where
    s: "sigchld_handler ps (rn_server r) = Some ((rn_server r)\<lparr>sv_manager := Live m'\<rparr>)" "pool_whole m'" by blast
  with Sig_child assms show ?thesis by (cases "rn_point r = Suspended") (auto simp: loop_inv_def after_handler_def)
next
  case Sig_term
  obtain m where m: "sv_manager (rn_server r) = Live m" using assms(1) by (auto simp: loop_inv_def)
  show ?thesis
  proof (cases "rn_blocked r")
    case True
    with Sig_term assms show ?thesis by (auto simp: loop_inv_def)
  next
    case False
    with take_termination_ends [OF m, of w] Sig_term assms(2) show ?thesis by fastforce
  qed
qed

lemma loop_inv_run: "run_loop fork es r w = Goes_on r' w' \<Longrightarrow> loop_inv r \<Longrightarrow> loop_inv r'"
  by (rule run_loop_invariant [where I = loop_inv]) (auto intro: loop_inv_event)

lemma loop_inv_entered:
  "sv_manager sv = Live m \<Longrightarrow> pool_whole m \<Longrightarrow> \<not> sv_terminating sv \<Longrightarrow> loop_inv (entered sv)"
  by (simp add: loop_inv_def entered_def)

section \<open>How a run ends\<close>

text \<open>In the manager, or by a termination signal.\<close>

definition no_child :: "('w \<Rightarrow> fork_result \<times> 'w) \<Rightarrow> bool" where
  "no_child fork \<longleftrightarrow> (\<forall>w. fst (fork w) \<noteq> Fork_child)"

lemma manager_step_stays: "no_child fork \<Longrightarrow> \<exists>x. manager_step fork m pt w = Inl x"
  by (cases pt) (auto simp: no_child_def split: prod.splits fork_result.splits, metis fst_conv)

lemma process_step_ends:
  assumes "loop_inv r" and "no_child fork"
  shows "case process_step fork r w of Goes_on _ _ \<Rightarrow> True | Terminated_by _ _ \<Rightarrow> rn_term r | _ \<Rightarrow> False"
proof -
  obtain m where m: "sv_manager (rn_server r) = Live m" using assms(1) by (auto simp: loop_inv_def)
  have un: "case unblock (r\<lparr>rn_point := pt\<rparr>) w of Goes_on _ _ \<Rightarrow> True | Terminated_by _ _ \<Rightarrow> rn_term r | _ \<Rightarrow> False" for pt
    using take_termination_term [of "r\<lparr>rn_point := pt, rn_blocked := False, rn_term := False\<rparr>" m w] m
    by (cases "rn_term r") (auto simp: unblock_def)
  obtain m' pt' w' where s: "manager_step fork m (rn_point r) w = Inl (m', pt', w')"
    using manager_step_stays [OF assms(2)] by (metis prod.exhaust)
  show ?thesis
    using assms(1) m s un by (cases "rn_point r") (auto simp: process_step_def loop_inv_def)
qed

lemma server_event_ends:
  assumes "loop_inv r" and "no_child fork"
  shows "case server_event fork e r w of
      Goes_on r' _ \<Rightarrow> rn_term r' \<longrightarrow> rn_term r \<or> e = Sig_term
    | Terminated_by _ _ \<Rightarrow> rn_term r \<or> e = Sig_term
    | _ \<Rightarrow> False"
proof -
  obtain m where m: "sv_manager (rn_server r) = Live m" "pool_whole m" using assms(1) by (auto simp: loop_inv_def)
  show ?thesis
  proof (cases e)
    case Step
    have "rn_term r' \<longrightarrow> rn_term r" if "process_step fork r w = Goes_on r' w'" for r' w'
      using that m(1) by (auto simp: process_step_def dest!: unblock_goes_on [where m = m]
          split: point.splits if_splits sum.splits)
    with Step process_step_ends [OF assms, of w] show ?thesis by (auto split: run_end.splits)
  next
    case (Sig_child ps)
    with sigchld_whole [OF m, of ps] show ?thesis by (auto simp: after_handler_def)
  next
    case Sig_term
    with take_termination_term [OF m(1), of w] show ?thesis by (cases "rn_blocked r") auto
  qed
qed

lemma run_loop_ends:
  assumes "no_child fork"
  shows "loop_inv r \<Longrightarrow> case run_loop fork es r w of
      Goes_on _ _ \<Rightarrow> True | Terminated_by _ _ \<Rightarrow> rn_term r \<or> Sig_term \<in> set es | _ \<Rightarrow> False"
proof (induction es arbitrary: r w)
  case (Cons e es)
  note ev = server_event_ends [OF Cons.prems assms, of e w]
  show ?case
  proof (cases "server_event fork e r w")
    case (Goes_on r1 w1)
    with Cons.IH [OF loop_inv_event [OF Cons.prems Goes_on], of w1] ev show ?thesis
      by (auto split: run_end.splits)
  qed (use ev in \<open>auto\<close>)
qed simp

section \<open>No termination signal is lost\<close>

text \<open>
  Wherever the signal arrives, it ends the process at once or, where it is blocked, with the next
  step; every worker that is recorded then is asked to stop.
\<close>

lemma shutdown_whole: "pool_whole m \<Longrightarrow> shutdown True m = map Kill_term (pids m)"
  by (simp add: pool_whole_def shutdown_def pids_def filter_map comp_def)

definition killed :: "sv_action list \<Rightarrow> int set" where
  "killed acts = {p. Manager_action (Kill_term p) \<in> set acts}"

lemma termination_kills:
  assumes "sv_manager sv = Live m" and "pool_whole m" and "termination_handler sv = Some (sv', acts)"
  shows "killed acts = set (pids m)" and "sv_manager sv' = Dangling"
  using assms by (auto simp: killed_def termination_handler_def shutdown_server_def shutdown_whole Let_def)

lemma termination_taken_at:
  assumes "loop_inv r"
  shows "\<exists>n sv' acts. n \<le> 1 \<and> run_loop fork (Sig_term # replicate n Step) r w = Terminated_by sv' acts \<and>
    killed acts = set (pids (manager_of r)) \<and> sv_manager sv' = Dangling \<and> Raise_default \<in> set acts"
proof -
  obtain m where m: "sv_manager (rn_server r) = Live m" "pool_whole m" using assms by (auto simp: loop_inv_def)
  have mo: "manager_of r = m" using m(1) by (simp add: manager_of_def)
  have taken: "\<exists>sv' acts. take_termination r1 v = Terminated_by sv' acts \<and> killed acts = set (pids m) \<and>
      sv_manager sv' = Dangling \<and> Raise_default \<in> set acts" if "rn_server r1 = rn_server r" for r1 v
  proof -
    from m(1) that have l: "sv_manager (rn_server r1) = Live m" by simp
    obtain acts where t: "take_termination r1 v =
          Terminated_by ((rn_server r1)\<lparr>sv_terminating := True, sv_manager := Dangling\<rparr>) acts"
        "termination_handler (rn_server r1) =
          Some ((rn_server r1)\<lparr>sv_terminating := True, sv_manager := Dangling\<rparr>, acts)"
      by (rule take_termination_ends [OF l])
    have "Raise_default \<in> set acts" using t(2) l by (auto simp: termination_handler_def Let_def)
    with t(1) termination_kills [OF l m(2) t(2)] show ?thesis by simp
  qed
  show ?thesis
  proof (cases "rn_blocked r")
    case False
    with taken [of r w] mo show ?thesis by (intro exI [of _ 0]) auto
  next
    case True
    let ?r = "r\<lparr>rn_term := True\<rparr>"
    have "rn_point r = Woken \<or> rn_point r = Leaving" "\<not> sv_terminating (rn_server r)"
      using assms True by (auto simp: loop_inv_def)
    then obtain r1 where "process_step fork ?r w = take_termination r1 w" "rn_server r1 = rn_server r"
    proof (elim disjE)
      assume "rn_point r = Woken"
      with True m(1) that [of "r\<lparr>rn_point := if mg_worker m then Leaving else Test, rn_blocked := False, rn_term := False\<rparr>"]
      show thesis by (simp add: process_step_def unblock_def)
    next
      assume "\<not> sv_terminating (rn_server r)" "rn_point r = Leaving"
      with True that [of "r\<lparr>rn_point := Suspended, rn_blocked := False, rn_term := False\<rparr>"]
      show thesis by (simp add: process_step_def unblock_def)
    qed
    with True taken [of r1 w] mo show ?thesis
      by (intro exI [of _ 1]) auto
  qed
qed

text \<open>Once it is pending the next step takes it, whatever other signals come before.\<close>

lemma pending_taken:
  assumes "Step \<in> set fs"
  shows "loop_inv r \<Longrightarrow> rn_term r \<Longrightarrow> \<exists>sv acts. run_loop fork fs r w = Terminated_by sv acts"
  using assms
proof (induction fs arbitrary: r w)
  case (Cons e fs)
  obtain m where m: "sv_manager (rn_server r) = Live m" "\<not> sv_terminating (rn_server r)" "pool_whole m"
      "rn_blocked r" "rn_point r = Woken \<or> rn_point r = Leaving"
    using Cons.prems by (auto simp: loop_inv_def)
  note taken = take_termination_term [of _ m]
  show ?case
  proof (cases e)
    case Step
    show ?thesis
      using m(5) m(1,2,4) Cons.prems(2) Step
        taken [of "r\<lparr>rn_point := if mg_worker m then Leaving else Test, rn_blocked := False, rn_term := False\<rparr>" w]
        taken [of "r\<lparr>rn_point := Suspended, rn_blocked := False, rn_term := False\<rparr>" w]
      by (elim disjE) (auto simp: process_step_def unblock_def)
  next
    case (Sig_child ps)
    then have fs: "Step \<in> set fs" using Cons.prems(3) by simp
    obtain r1 where e: "server_event fork e r w = Goes_on r1 w" "rn_term r1"
      using sigchld_whole [OF m(1,3), of ps] Sig_child Cons.prems(2) by (auto simp: after_handler_def)
    from Cons.IH [OF loop_inv_event [OF Cons.prems(1) e(1)] e(2) fs] e(1) show ?thesis by simp
  next
    case Sig_term
    then have fs: "Step \<in> set fs" using Cons.prems(3) by simp
    have e: "server_event fork e r w = Goes_on (r\<lparr>rn_term := True\<rparr>) w" using Sig_term m(4) by simp
    from Cons.IH [OF loop_inv_event [OF Cons.prems(1) e] _ fs] e show ?thesis by simp
  qed
qed simp

lemma termination_ends:
  assumes "loop_inv r" and "Step \<in> set fs"
  shows "\<exists>sv acts. run_loop fork (Sig_term # fs) r w = Terminated_by sv acts"
proof (cases "rn_blocked r")
  case True
  have e: "server_event fork Sig_term r w = Goes_on (r\<lparr>rn_term := True\<rparr>) w" using True by simp
  from pending_taken [OF assms(2) loop_inv_event [OF assms(1) e]] e show ?thesis by simp
next
  case False
  with assms(1) take_termination_term [of r _ w] show ?thesis by (auto simp: loop_inv_def)
qed

section \<open>A full pool\<close>

text \<open>
  The steps of the manager are those of \<open>mstep\<close>, a new child having a number that no child has.
\<close>

lemma manager_step_mstep:
  assumes "manager_step fork m pt w = Inl (m', pt', w')" and "pt \<notin> {Suspended, Woken, Leaving}"
    and "\<And>p w'. fork w = (Fork_parent p, w') \<Longrightarrow> 0 < p \<and> p \<notin> set al \<union> set zs"
  shows "\<exists>al'. mstep may (at m al zs pt) (at m' al' zs pt')"
proof (cases pt)
  case Test
  with assms(1) show ?thesis
    using mstep.Return [of "at m al zs pt" may] mstep.Enter [of "at m al zs pt" may] by (auto split: if_splits)
next
  case (At i)
  let ?y = "at m al zs pt"
  show ?thesis
  proof (cases "i < mg_max_workers m \<and> wp_pid (mg_pool m ! unat i) = 0")
    case False
    with At assms(1) show ?thesis
      using mstep.Again [of ?y i may] mstep.Skip [of ?y i may] by (auto split: if_splits)
  next
    case True
    obtain f w1 where f: "fork w = (f, w1)" by fastforce
    show ?thesis
    proof (cases f)
      case Fork_error
      with True At f assms(1) show ?thesis using mstep.Fork_fails [of ?y i may] by auto
    next
      case Fork_child
      with True At f assms(1) show ?thesis by simp
    next
      case (Fork_parent p)
      with f have "0 < p" "p \<notin> set al \<union> set zs" using assms(3) by auto
      with True At f assms(1) Fork_parent mstep.Fork [of ?y i p may] show ?thesis by auto
    qed
  qed
next
  case (Forked i p)
  with assms(1) show ?thesis using mstep.Load [of "at m al zs pt" i p may] by auto
next
  case (Loaded i p n)
  with assms(1) show ?thesis using mstep.Store [of "at m al zs pt" i p n may] by auto
next
  case (Counted i p)
  with assms(1) show ?thesis using mstep.Record [of "at m al zs pt" i p may] by auto
qed (use assms(2) in auto)

text \<open>The invariants of \<open>Reaper\<close>, over the manager and its program point.\<close>

definition kept_count :: "manager_t \<Rightarrow> point \<Rightarrow> bool" where
  "kept_count m pt \<longleftrightarrow> count_inv (at m [] [] pt) \<and> full_inv (at m [] [] pt)"

lemma kept_count_children: "count_inv (at m al zs pt) \<Longrightarrow> count_inv (at m [] [] pt)"
  by (simp add: count_inv_def)

lemma kept_count_move:
  "kept_count m pt \<Longrightarrow> mstep (\<lambda>_. False) (at m [] [] pt) (at m' al' [] pt') \<Longrightarrow> kept_count m' pt'"
  using count_inv_step [of "\<lambda>_. False" "at m [] [] pt" "at m' al' [] pt'"]
    full_inv_step [of "\<lambda>_. False" "at m [] [] pt" "at m' al' [] pt'"] kept_count_children [of m' al' "[]" pt']
  by (auto simp: kept_count_def whole_increment_def full_inv_def)

lemma kept_count_step:
  assumes "kept_count m pt" and "forks_ok fork" and "manager_step fork m pt w = Inl (m', pt', w')"
    and "pt \<notin> {Suspended, Woken, Leaving}"
  shows "kept_count m' pt'"
proof -
  obtain al' where "mstep (\<lambda>_. False) (at m [] [] pt) (at m' al' [] pt')"
    using manager_step_mstep [of fork m pt w m' pt' w' "[]" "[]" "\<lambda>_. False"] assms(2-4) by (auto simp: forks_ok_def)
  with kept_count_move [OF assms(1)] show ?thesis by blast
qed

text \<open>The points the handler has to be kept out of.\<close>

definition exposed :: "point \<Rightarrow> bool" where
  "exposed pt \<longleftrightarrow> pt = Leaving \<or> (\<exists>i p n. pt = Loaded i p n)"

lemma kept_count_reap:
  assumes "kept_count m pt" and "p \<noteq> 0" and "\<not> exposed pt"
  shows "kept_count (reap_worker p m) (if pt = Suspended then Woken else pt)"
proof -
  let ?y = "at m [] [p] pt" and ?may = "\<lambda>q. q = pt"
  have "mstep ?may ?y (?y\<lparr>ms_mgr := reap_worker p (ms_mgr ?y), ms_zombies := removeAll p (ms_zombies ?y),
      ms_point := if ms_point ?y = Suspended then Woken else ms_point ?y\<rparr>)"
    by (rule mstep.Reap) simp_all
  also have "?y\<lparr>ms_mgr := reap_worker p (ms_mgr ?y), ms_zombies := removeAll p (ms_zombies ?y),
      ms_point := if ms_point ?y = Suspended then Woken else ms_point ?y\<rparr> =
      at (reap_worker p m) [] [] (if pt = Suspended then Woken else pt)"
    by (cases "pt = Suspended") (simp_all add: at_def)
  finally have s: "mstep ?may ?y (at (reap_worker p m) [] [] (if pt = Suspended then Woken else pt))" .
  have "count_inv ?y" using assms(1,2) by (simp add: kept_count_def count_inv_def)
  moreover have "whole_increment ?may" using assms(3) by (auto simp: whole_increment_def exposed_def)
  ultimately have "count_inv (at (reap_worker p m) [] [] (if pt = Suspended then Woken else pt))"
    by (rule count_inv_step [OF s])
  with assms(3) show ?thesis by (auto simp: kept_count_def full_inv_def exposed_def)
qed

lemma kept_count_woken: "kept_count m Suspended \<Longrightarrow> kept_count m Woken"
  by (auto simp: kept_count_def count_inv_def full_inv_def pending_def under_way_def)

lemma sigchld_kept:
  assumes "sv_manager sv = Live m" and "kept_count m pt" and "0 \<notin> set ps" and "\<not> exposed pt"
  shows "\<exists>m'. sigchld_handler ps sv = Some (sv\<lparr>sv_manager := Live m'\<rparr>) \<and>
    kept_count m' (if pt = Suspended then Woken else pt)"
  using assms
proof (induction ps arbitrary: sv m pt)
  case Nil
  then have "sv\<lparr>sv_manager := Live m\<rparr> = sv" by (cases sv) simp
  with Nil kept_count_woken show ?case by (intro exI [of _ m]) auto
next
  case (Cons p ps)
  let ?sv = "sv\<lparr>sv_manager := Live (reap_worker p m)\<rparr>" and ?pt = "if pt = Suspended then Woken else pt"
  have "kept_count (reap_worker p m) ?pt" "\<not> exposed ?pt"
    using kept_count_reap [OF Cons.prems(2), of p] Cons.prems(3,4) by (auto simp: exposed_def)
  then obtain m' where "sigchld_handler ps ?sv = Some (?sv\<lparr>sv_manager := Live m'\<rparr>)"
      "kept_count m' (if ?pt = Suspended then Woken else ?pt)"
    using Cons.IH [of ?sv "reap_worker p m" ?pt] Cons.prems(3) by auto
  with Cons.prems(1) show ?case by (auto split: if_splits)
qed

definition pool_inv :: "running \<Rightarrow> bool" where
  "pool_inv r \<longleftrightarrow> loop_inv r \<and> kept_count (manager_of r) (rn_point r)"

lemma pool_inv_event:
  assumes "pool_inv r" and "forks_ok fork" and "server_event fork e r w = Goes_on r' w'"
    and "\<And>ps. e = Sig_child ps \<Longrightarrow> 0 \<notin> set ps \<and> \<not> exposed (rn_point r)"
  shows "pool_inv r'"
proof -
  have l: "loop_inv r" and k: "kept_count (manager_of r) (rn_point r)" using assms(1) by (simp_all add: pool_inv_def)
  have l': "loop_inv r'" by (rule loop_inv_event [OF l assms(3)])
  obtain m where m: "sv_manager (rn_server r) = Live m" "pool_whole m" using l by (auto simp: loop_inv_def)
  then have mo: "manager_of r = m" by (simp add: manager_of_def)
  have same: "kept_count (manager_of r') (rn_point r')"
    if "rn_server r' = rn_server r" "kept_count m (rn_point r')" using that m(1) by (simp add: manager_of_def)
  show ?thesis
  proof (cases e)
    case Step
    show ?thesis
    proof (cases "rn_point r \<in> {Suspended, Woken, Leaving}")
      case True
      have "kept_count m Woken \<Longrightarrow> kept_count m Test" "kept_count m Leaving \<Longrightarrow> kept_count m Suspended"
        by (auto simp: kept_count_def count_inv_def full_inv_def pending_def under_way_def)
      with True Step assms(3) k mo m l' show ?thesis
        by (auto simp: pool_inv_def process_step_def pool_whole_def manager_of_def
            dest!: unblock_goes_on [where m = m] split: if_splits)
    next
      case False
      then obtain m' pt' where s: "manager_step fork m (rn_point r) w = Inl (m', pt', w')"
          "r' = r\<lparr>rn_server := (rn_server r)\<lparr>sv_manager := Live m'\<rparr>, rn_point := pt'\<rparr>"
        using assms(3) Step m(1) by (cases "rn_point r") (auto simp: process_step_def split: sum.splits)
      from kept_count_step [OF k [unfolded mo] assms(2) s(1) False] s(2) l' show ?thesis
        by (simp add: pool_inv_def manager_of_def)
    qed
  next
    case (Sig_child ps)
    with assms(4) have c: "0 \<notin> set ps" "\<not> exposed (rn_point r)" by auto
    from sigchld_kept [OF m(1) k [unfolded mo] c] Sig_child assms(3) l' show ?thesis
      by (auto simp: pool_inv_def after_handler_def manager_of_def split: if_splits)
  next
    case Sig_term
    with take_termination_term [OF m(1), of w] assms(3) k mo m(1) l' show ?thesis
      by (auto simp: pool_inv_def manager_of_def split: if_splits)
  qed
qed

text \<open>
  Where the handler runs in a run, and the runs in which it does not run at the points it should be
  kept out of. The program keeps it out of none.
\<close>

definition handler_at :: "('w \<Rightarrow> fork_result \<times> 'w) \<Rightarrow> event list \<Rightarrow> running \<Rightarrow> 'w \<Rightarrow> point \<Rightarrow> bool" where
  "handler_at fork es r w pt \<longleftrightarrow>
     (\<exists>es1 ps es2 r' w'. es = es1 @ Sig_child ps # es2 \<and> run_loop fork es1 r w = Goes_on r' w' \<and> rn_point r' = pt)"

definition undisturbed :: "('w \<Rightarrow> fork_result \<times> 'w) \<Rightarrow> event list \<Rightarrow> running \<Rightarrow> 'w \<Rightarrow> bool" where
  "undisturbed fork es r w \<longleftrightarrow> (\<forall>pt. handler_at fork es r w pt \<longrightarrow> \<not> exposed pt)"

lemma undisturbed_Cons:
  assumes "undisturbed fork (e # es) r w" and "server_event fork e r w = Goes_on r' w'"
  shows "undisturbed fork es r' w'"
  unfolding undisturbed_def
proof (intro allI impI)
  fix pt
  assume "handler_at fork es r' w' pt"
  then obtain es1 ps es2 r1 w1 where "es = es1 @ Sig_child ps # es2" "run_loop fork es1 r' w' = Goes_on r1 w1"
      "rn_point r1 = pt" by (auto simp: handler_at_def)
  then have "handler_at fork (e # es) r w pt"
    using assms(2) unfolding handler_at_def by (intro exI [of _ "e # es1"]) auto
  with assms(1) show "\<not> exposed pt" by (simp add: undisturbed_def)
qed

lemma undisturbed_Nil [simp]: "undisturbed fork [] r w"
  by (simp add: undisturbed_def handler_at_def)

lemma undisturbed_ConsI:
  assumes "\<And>ps. e = Sig_child ps \<Longrightarrow> \<not> exposed (rn_point r)"
    and "\<And>r' w'. server_event fork e r w = Goes_on r' w' \<Longrightarrow> undisturbed fork es r' w'"
  shows "undisturbed fork (e # es) r w"
  unfolding undisturbed_def
proof (intro allI impI)
  fix pt
  assume "handler_at fork (e # es) r w pt"
  then obtain es1 ps es2 r1 w1 where h: "e # es = es1 @ Sig_child ps # es2"
      "run_loop fork es1 r w = Goes_on r1 w1" "rn_point r1 = pt" by (auto simp: handler_at_def)
  show "\<not> exposed pt"
  proof (cases es1)
    case Nil
    with h assms(1) show ?thesis by simp
  next
    case (Cons d es1')
    then have "d = e" "es = es1' @ Sig_child ps # es2" using h(1) by simp_all
    moreover obtain r2 w2 where "server_event fork d r w = Goes_on r2 w2" "run_loop fork es1' r2 w2 = Goes_on r1 w1"
      using h(2) Cons by (auto split: run_end.splits)
    ultimately show ?thesis using assms(2) h(3) unfolding undisturbed_def handler_at_def by blast
  qed
qed

lemma undisturbed_head: "undisturbed fork (Sig_child ps # es) r w \<Longrightarrow> \<not> exposed (rn_point r)"
  unfolding undisturbed_def handler_at_def by (metis append_Nil run_loop.simps(1))

definition reaps_children :: "event list \<Rightarrow> bool" where
  "reaps_children es \<longleftrightarrow> (\<forall>ps. Sig_child ps \<in> set es \<longrightarrow> 0 \<notin> set ps)"

lemma pool_inv_run:
  assumes "run_loop fork es r w = Goes_on r' w'" and "pool_inv r" and "forks_ok fork"
    and "undisturbed fork es r w" and "reaps_children es"
  shows "pool_inv r'"
  using assms
proof (induction es arbitrary: r w)
  case (Cons e es)
  then obtain r1 w1 where e: "server_event fork e r w = Goes_on r1 w1" "run_loop fork es r1 w1 = Goes_on r' w'"
    by (auto split: run_end.splits)
  have "0 \<notin> set ps \<and> \<not> exposed (rn_point r)" if "e = Sig_child ps" for ps
    using that Cons.prems(4,5) undisturbed_head [of fork ps es r w] by (auto simp: reaps_children_def)
  from pool_inv_event [OF Cons.prems(2,3) e(1) this] have "pool_inv r1" .
  from Cons.IH [OF e(2) this Cons.prems(3) undisturbed_Cons [OF Cons.prems(4) e(1)]] Cons.prems(5)
  show ?case by (simp add: reaps_children_def)
qed simp

lemma undisturbed_steps: "undisturbed fork (replicate n Step) r w" "reaps_children (replicate n Step)"
proof -
  have "Sig_child ps \<notin> set (replicate n Step)" for ps by simp
  then show "undisturbed fork (replicate n Step) r w"
    unfolding undisturbed_def handler_at_def by (metis in_set_conv_decomp)
  show "reaps_children (replicate n Step)" by (simp add: reaps_children_def)
qed

lemma pool_inv_settled:
  assumes "pool_inv r" and "rn_point r = Suspended"
  shows "settled (rn_server r)"
proof -
  obtain m where m: "sv_manager (rn_server r) = Live m" using assms(1) by (auto simp: pool_inv_def loop_inv_def)
  with assms show ?thesis
    by (auto simp: pool_inv_def manager_of_def kept_count_def count_inv_def full_inv_def pending_def
        settled_def pool_ok_def)
qed

section \<open>The server comes to rest\<close>

text \<open>Steps of the manager, one after another, compute the functions of \<open>Manager\<close>.\<close>

definition moves :: "('w \<Rightarrow> fork_result \<times> 'w) \<Rightarrow> manager_t \<times> point \<times> 'w \<Rightarrow> manager_t \<times> point \<times> 'w \<Rightarrow> bool" where
  "moves fork x y \<longleftrightarrow> (case x of (m, pt, w) \<Rightarrow>
     pt \<notin> {Suspended, Woken, Leaving} \<and> manager_step fork m pt w = Inl y)"

lemma moves_steps:
  assumes "(moves fork)\<^sup>*\<^sup>* (m, pt, w) (m', pt', w')" and "sv_manager (rn_server r) = Live m" and "rn_point r = pt"
  shows "\<exists>n. run_loop fork (replicate n Step) r w =
    Goes_on (r\<lparr>rn_server := (rn_server r)\<lparr>sv_manager := Live m'\<rparr>, rn_point := pt'\<rparr>) w'"
  using assms(1)
proof (induction "(m', pt', w')" arbitrary: m' pt' w' rule: rtranclp_induct)
  case base
  have "r\<lparr>rn_server := (rn_server r)\<lparr>sv_manager := Live m\<rparr>, rn_point := pt\<rparr> = r"
    using assms(2,3) by (cases r; cases "rn_server r") auto
  then show ?case by (intro exI [of _ 0]) simp
next
  case (step y)
  obtain m1 pt1 w1 where y: "y = (m1, pt1, w1)" by (metis prod.exhaust)
  let ?r = "r\<lparr>rn_server := (rn_server r)\<lparr>sv_manager := Live m1\<rparr>, rn_point := pt1\<rparr>"
  obtain n where n: "run_loop fork (replicate n Step) r w = Goes_on ?r w1" using step.hyps(3) [OF y] by blast
  have s: "pt1 \<notin> {Suspended, Woken, Leaving}" "manager_step fork m1 pt1 w1 = Inl (m', pt', w')"
    using step.hyps(2) y by (simp_all add: moves_def)
  then have "process_step fork ?r w1 =
      Goes_on (r\<lparr>rn_server := (rn_server r)\<lparr>sv_manager := Live m'\<rparr>, rn_point := pt'\<rparr>) w'"
    by (cases pt1) (auto simp: process_step_def)
  with n run_loop_snoc [of fork "replicate n Step" Step r w] show ?case
    by (intro exI [of _ "Suc n"]) (simp add: replicate_append_same)
qed

lemma move_spawn:
  assumes "i < mg_max_workers m" and "wp_pid (mg_pool m ! unat i) = 0" and "fork w = (Fork_parent p, w1)"
    and "spawn_worker i (Fork_parent p) m = Spawned m1"
  shows "(moves fork)\<^sup>*\<^sup>* (m, At i, w) (m1, At (i + 1), w1)"
proof -
  let ?n = "mg_workers_count m"
  have "moves fork (m, At i, w) (m, Forked i p, w1)" using assms(1-3) by (simp add: moves_def)
  moreover have "moves fork (m, Forked i p, w1) (m, Loaded i p ?n, w1)" by (simp add: moves_def)
  moreover have "moves fork (m, Loaded i p ?n, w1) (m\<lparr>mg_workers_count := ?n + 1\<rparr>, Counted i p, w1)"
    by (simp add: moves_def)
  moreover have "moves fork (m\<lparr>mg_workers_count := ?n + 1\<rparr>, Counted i p, w1) (m1, At (i + 1), w1)"
    using assms(4) by (simp add: moves_def spawn_worker_steps)
  ultimately show ?thesis by (meson converse_rtranclp_into_rtranclp rtranclp.rtrancl_refl)
qed

lemma respawn_moves:
  assumes "respawn fork (map of_nat [k..<n]) m w = Manager_at m' w'" and "n = unat (mg_max_workers m)" and "k \<le> n"
  shows "(moves fork)\<^sup>*\<^sup>* (m, At (of_nat k), w) (m', Test, w')"
  using assms
proof (induction "n - k" arbitrary: k m w)
  case 0
  then have k: "k = unat (mg_max_workers m)" by simp
  then have "\<not> (of_nat k :: u32) < mg_max_workers m" by simp
  then have "moves fork (m, At (of_nat k), w) (m, Test, w)" by (simp add: moves_def)
  with 0 k show ?case by auto
next
  case (Suc d)
  then have k: "k < n" "d = n - Suc k" by simp_all
  then have up: "[k..<n] = k # [Suc k..<n]" by (simp add: upt_conv_Cons)
  have "k < 2 ^ 32" using k(1) Suc.prems(2) unsigned_less [where 'a = nat and w = "mg_max_workers m"] by simp
  then have uk: "unat (of_nat k :: u32) = k" by (simp add: unat_of_nat_small)
  then have lt: "(of_nat k :: u32) < mg_max_workers m" using k(1) Suc.prems(2) by (simp add: word_less_nat_alt)
  have next_k: "of_nat k + 1 = (of_nat (Suc k) :: u32)" by simp
  show ?case
  proof (cases "wp_pid (mg_pool m ! k) = 0")
    case False
    with Suc.hyps(1) [OF k(2), of m w] Suc.prems up uk k(1)
    have "(moves fork)\<^sup>*\<^sup>* (m, At (of_nat (Suc k)), w) (m', Test, w')" by simp
    moreover have "moves fork (m, At (of_nat k), w) (m, At (of_nat (Suc k)), w)"
      using False lt uk next_k by (simp add: moves_def del: of_nat_Suc)
    ultimately show ?thesis by (rule converse_rtranclp_into_rtranclp [rotated])
  next
    case free: True
    obtain fr w1 where fk: "fork w = (fr, w1)" by fastforce
    show ?thesis
    proof (cases fr)
      case Fork_error
      with Suc.hyps(1) [OF k(2), of m w1] Suc.prems up uk k(1) free fk
      have "(moves fork)\<^sup>*\<^sup>* (m, At (of_nat (Suc k)), w1) (m', Test, w')" by (simp add: spawn_worker_def)
      moreover have "moves fork (m, At (of_nat k), w) (m, At (of_nat (Suc k)), w1)"
        using free lt uk next_k fk Fork_error by (simp add: moves_def del: of_nat_Suc)
      ultimately show ?thesis by (rule converse_rtranclp_into_rtranclp [rotated])
    next
      case Fork_child
      with Suc.prems(1) up uk free fk show ?thesis by (simp add: spawn_worker_def)
    next
      case (Fork_parent p)
      obtain m1 where m1: "spawn_worker (of_nat k) (Fork_parent p) m = Spawned m1"
          "mg_max_workers m1 = mg_max_workers m" by (simp add: spawn_worker_def)
      with Suc.hyps(1) [OF k(2), of m1 w1] Suc.prems up uk k(1) free fk Fork_parent
      have "(moves fork)\<^sup>*\<^sup>* (m1, At (of_nat (Suc k)), w1) (m', Test, w')" by simp
      moreover have "(moves fork)\<^sup>*\<^sup>* (m, At (of_nat k), w) (m1, At (of_nat k + 1), w1)"
        using move_spawn [of "of_nat k" m fork w p w1 m1] lt free uk fk Fork_parent m1(1) by simp
      ultimately show ?thesis using next_k by (metis rtranclp_trans)
    qed
  qed
qed

lemma manage_loop_moves:
  assumes "manage_loop fork m w = Some (Manager_at m' w')"
  shows "(moves fork)\<^sup>*\<^sup>* (m, Test, w) (m', Leaving, w')"
proof -
  define P where "P = (\<lambda>fork' m w r. fork' = fork \<longrightarrow> r = Manager_at m' w' \<longrightarrow> (moves fork)\<^sup>*\<^sup>* (m, Test, w) (m', Leaving, w'))"
  have "P fork m w (Manager_at m' w')"
  proof (rule manage_loop.raw_induct [where P = P, OF _ assms])
    fix loop fork' m w r
    assume IH: "\<And>fork' m w r. loop fork' m w = Some r \<Longrightarrow> P fork' m w r"
      and body: "(if mg_workers_count m = mg_max_workers m then Some (Manager_at m w)
        else case respawn fork' (worker_ids (mg_max_workers m)) m w of
             Manager_at m' w' \<Rightarrow> loop fork' m' w'
           | Child_at c w' \<Rightarrow> Some (Child_at c w')
           | Raised_at m' w' \<Rightarrow> Some (Raised_at m' w')) = Some r"
    show "P fork' m w r"
      unfolding P_def
    proof (intro impI)
      assume f: "fork' = fork" and r: "r = Manager_at m' w'"
      show "(moves fork)\<^sup>*\<^sup>* (m, Test, w) (m', Leaving, w')"
      proof (cases "mg_workers_count m = mg_max_workers m")
        case True
        with body r show ?thesis by (auto simp: moves_def intro!: r_into_rtranclp)
      next
        case False
        then obtain m1 w1 where rs: "respawn fork (worker_ids (mg_max_workers m)) m w = Manager_at m1 w1"
            "loop fork m1 w1 = Some (Manager_at m' w')"
          using body r f by (auto split: pass.splits)
        have "(moves fork)\<^sup>*\<^sup>* (m, At 0, w) (m1, Test, w1)"
          using respawn_moves [of fork 0 "unat (mg_max_workers m)" m w m1 w1] rs(1) by (simp add: worker_ids_def)
        moreover have "moves fork (m, Test, w) (m, At 0, w)" using False by (simp add: moves_def)
        moreover have "(moves fork)\<^sup>*\<^sup>* (m1, Test, w1) (m', Leaving, w')"
          using IH [OF rs(2)] by (simp add: P_def)
        ultimately show ?thesis by (meson converse_rtranclp_into_rtranclp rtranclp_trans)
      qed
    qed
  qed
  then show ?thesis by (simp add: P_def)
qed

text \<open>From an entry of the inner loop on, where every fork works.\<close>

lemma at_leaves:
  assumes "\<And>w. \<exists>p w'. fork w = (Fork_parent p, w') \<and> 0 < p" and "pool_ok m"
  shows "\<exists>m' w'. (moves fork)\<^sup>*\<^sup>* (m, At i, w) (m', Leaving, w')"
proof -
  have fo: "forks_ok fork" using assms(1) unfolding forks_ok_def by (metis prod.inject fork_result.inject)
  have test: "\<exists>m' w'. (moves fork)\<^sup>*\<^sup>* (m, Test, w) (m', Leaving, w')" if ok: "pool_ok m" for m w
  proof -
    obtain m' w' where "manage_loop fork m w = Some (Manager_at m' w')"
      using manage_workers_fills [of fork m w, OF assms(1) ok] ok
      by (auto simp: manage_workers_def pool_ok_def)
    from manage_loop_moves [OF this] show ?thesis by blast
  qed
  show ?thesis
  proof (cases "i < mg_max_workers m")
    case False
    then have "moves fork (m, At i, w) (m, Test, w)" by (simp add: moves_def)
    with test [OF assms(2), of w] show ?thesis by (meson converse_rtranclp_into_rtranclp)
  next
    case True
    let ?is = "map of_nat [unat i..<unat (mg_max_workers m)] :: u32 list"
    have "set ?is \<subseteq> set (worker_ids (mg_max_workers m))" by (auto simp: worker_ids_def)
    then have ids: "ids_of m ?is" using worker_ids_ok [of m] by (auto simp: ids_of_def)
    obtain m1 w1 where r: "respawn fork ?is m w = Manager_at m1 w1"
      using respawn_fills [of fork m ?is w, OF assms ids] by blast
    have "(moves fork)\<^sup>*\<^sup>* (m, At (of_nat (unat i)), w) (m1, Test, w1)"
      by (rule respawn_moves [OF r refl]) (use True in \<open>simp add: word_less_nat_alt\<close>)
    moreover have "pool_ok m1" using respawn_pool [OF fo assms(2) ids r] by simp
    ultimately show ?thesis using test [of m1 w1] by (auto intro: rtranclp_trans)
  qed
qed

lemma manager_leaves:
  assumes "\<And>w. \<exists>p w'. fork w = (Fork_parent p, w') \<and> 0 < p" and "kept_count m pt"
    and "pt \<notin> {Suspended, Woken, Leaving}"
  shows "\<exists>m' w'. (moves fork)\<^sup>*\<^sup>* (m, pt, w) (m', Leaving, w')"
proof -
  have ok: "kept_count m' (At i) \<Longrightarrow> pool_ok m'" "kept_count m' Test \<Longrightarrow> pool_ok m'" for m' i
    by (simp_all add: kept_count_def count_inv_def pool_ok_def pending_def)
  have "kept_count m pt \<Longrightarrow> manager_step fork m pt w = Inl (m', pt', w') \<Longrightarrow> pt \<notin> {Suspended, Woken, Leaving} \<Longrightarrow>
      kept_count m' pt'" for m pt w m' pt' w'
    using kept_count_step [of m pt fork w] assms(1) unfolding forks_ok_def by (metis prod.inject fork_result.inject)
  then have move: "kept_count m' pt'" "moves fork (m, pt, w) (m', pt', w')"
    if "kept_count m pt" "manager_step fork m pt w = Inl (m', pt', w')" "pt \<notin> {Suspended, Woken, Leaving}" for m pt w m' pt' w'
    using that by (auto simp: moves_def)
  have first: "\<exists>m' w'. (moves fork)\<^sup>*\<^sup>* x (m', Leaving, w')"
    if "moves fork x y" "\<exists>m' w'. (moves fork)\<^sup>*\<^sup>* y (m', Leaving, w')" for x y
    using that by (meson converse_rtranclp_into_rtranclp)
  have counted: "\<exists>m' w'. (moves fork)\<^sup>*\<^sup>* (m, Counted i p, w) (m', Leaving, w')" if "kept_count m (Counted i p)" for m i p w
  proof -
    let ?m = "record_worker i p m"
    have s: "kept_count ?m (At (i + 1))" "moves fork (m, Counted i p, w) (?m, At (i + 1), w)"
      using move [OF that, of w] by simp_all
    show ?thesis by (rule first [OF s(2) at_leaves [OF assms(1) ok(1) [OF s(1)]]])
  qed
  have loaded: "\<exists>m' w'. (moves fork)\<^sup>*\<^sup>* (m, Loaded i p n, w) (m', Leaving, w')" if "kept_count m (Loaded i p n)" for m i p n w
    proof -
    let ?m = "m\<lparr>mg_workers_count := n + 1\<rparr>"
    have s: "kept_count ?m (Counted i p)" "moves fork (m, Loaded i p n, w) (?m, Counted i p, w)"
      using move [OF that, of w] by simp_all
    show ?thesis by (rule first [OF s(2) counted [OF s(1)]])
  qed
  show ?thesis
  proof (cases pt)
    case Test
    with ok(2) assms(2) have p: "pool_ok m" by simp
    show ?thesis
    proof (cases "mg_workers_count m = mg_max_workers m")
      case True
      then have "moves fork (m, pt, w) (m, Leaving, w)" using Test by (simp add: moves_def)
      then show ?thesis by blast
    next
      case False
      then have "moves fork (m, pt, w) (m, At 0, w)" using Test by (simp add: moves_def)
      with at_leaves [of fork m 0 w, OF assms(1) p] show ?thesis by (meson converse_rtranclp_into_rtranclp)
    qed
  next
    case (At i)
    with at_leaves [of fork m i w, OF assms(1) ok(1)] assms(2) show ?thesis by simp
  next
    case (Forked i p)
    with move [OF assms(2), of w] have s: "kept_count m (Loaded i p (mg_workers_count m))"
        "moves fork (m, pt, w) (m, Loaded i p (mg_workers_count m), w)" by simp_all
    show ?thesis by (rule first [OF s(2) loaded [OF s(1)]])
  qed (use assms(2,3) loaded counted in auto)
qed

text \<open>
  Left alone, the process comes to \<open>sigsuspend\<close>, with a full pool, after finitely many steps; or it
  takes a termination signal that was pending.
\<close>

definition rests :: "('w \<Rightarrow> fork_result \<times> 'w) \<Rightarrow> running \<Rightarrow> 'w \<Rightarrow> bool" where
  "rests fork r w \<longleftrightarrow> (\<exists>n. case run_loop fork (replicate n Step) r w of
     Goes_on r' _ \<Rightarrow> rn_point r' = Suspended \<and> settled (rn_server r')
   | Terminated_by _ _ \<Rightarrow> rn_term r
   | _ \<Rightarrow> False)"

lemma rests_after:
  assumes "run_loop fork (replicate k Step) r w = Goes_on r1 w1" and "rests fork r1 w1" and "rn_term r1 \<Longrightarrow> rn_term r"
  shows "rests fork r w"
proof -
  obtain n where n: "case run_loop fork (replicate n Step) r1 w1 of
      Goes_on r' _ \<Rightarrow> rn_point r' = Suspended \<and> settled (rn_server r')
    | Terminated_by _ _ \<Rightarrow> rn_term r1 | _ \<Rightarrow> False" using assms(2) by (auto simp: rests_def)
  have "run_loop fork (replicate (k + n) Step) r w = run_loop fork (replicate n Step) r1 w1"
    using assms(1) by (simp add: replicate_add run_loop_append)
  with n assms(3) show ?thesis unfolding rests_def by (intro exI [of _ "k + n"]) (auto split: run_end.splits)
qed

lemma rests_leaving:
  assumes "pool_inv r" and "forks_ok fork" and "rn_point r = Leaving"
  shows "rests fork r w"
proof -
  obtain m where m: "sv_manager (rn_server r) = Live m" "\<not> sv_terminating (rn_server r)"
    using assms(1) by (auto simp: pool_inv_def loop_inv_def)
  have blocked: "rests fork r w" if b: "pool_inv r" "rn_point r = Leaving" "rn_blocked r" "sv_manager (rn_server r) = Live m"
      "\<not> sv_terminating (rn_server r)" for r
  proof (cases "rn_term r")
    case True
    obtain sv acts where "take_termination (r\<lparr>rn_point := Suspended, rn_blocked := False, rn_term := False\<rparr>) w =
        Terminated_by sv acts"
      using take_termination_term [of "r\<lparr>rn_point := Suspended, rn_blocked := False, rn_term := False\<rparr>" m w] b(4) by auto
    with b True show ?thesis
      unfolding rests_def by (intro exI [of _ 1]) (simp add: process_step_def unblock_def)
  next
    case False
    let ?r = "r\<lparr>rn_point := Suspended, rn_blocked := False\<rparr>"
    have s: "server_event fork Step r w = Goes_on ?r w" using b False by (simp add: process_step_def unblock_def)
    have "pool_inv ?r" by (rule pool_inv_event [OF b(1) assms(2) s]) simp
    then have "settled (rn_server ?r)" by (rule pool_inv_settled) simp
    with s show ?thesis unfolding rests_def by (intro exI [of _ 1]) simp
  qed
  show ?thesis
  proof (cases "rn_blocked r")
    case True
    with blocked assms(1,3) m show ?thesis by blast
  next
    case False
    let ?r = "r\<lparr>rn_blocked := True\<rparr>"
    have s: "server_event fork Step r w = Goes_on ?r w" using False assms(3) by (simp add: process_step_def)
    have "pool_inv ?r" by (rule pool_inv_event [OF assms(1,2) s]) simp
    with blocked [of ?r] assms(3) m have "rests fork ?r w" by simp
    with rests_after [of fork 1 r w ?r w] s show ?thesis by simp
  qed
qed

lemma comes_to_rest:
  assumes "\<And>w. \<exists>p w'. fork w = (Fork_parent p, w') \<and> 0 < p" and "pool_inv r"
  shows "rests fork r w"
proof -
  have fo: "forks_ok fork" using assms(1) unfolding forks_ok_def by (metis prod.inject fork_result.inject)
  have nc: "no_child fork" using assms(1) unfolding no_child_def by (metis fst_conv fork_result.distinct(5))
  have inside: "rests fork r w" if i: "pool_inv r" "rn_point r \<notin> {Suspended, Woken, Leaving}" for r w
  proof -
    obtain m where m: "sv_manager (rn_server r) = Live m" using i(1) by (auto simp: pool_inv_def loop_inv_def)
    then have "kept_count m (rn_point r)" using i(1) by (simp add: pool_inv_def manager_of_def)
    from manager_leaves [of fork, OF assms(1) this i(2)] obtain m' w' where
      "(moves fork)\<^sup>*\<^sup>* (m, rn_point r, w) (m', Leaving, w')" by blast
    from moves_steps [OF this m refl] obtain n where n: "run_loop fork (replicate n Step) r w =
        Goes_on (r\<lparr>rn_server := (rn_server r)\<lparr>sv_manager := Live m'\<rparr>, rn_point := Leaving\<rparr>) w'" by blast
    have "pool_inv (r\<lparr>rn_server := (rn_server r)\<lparr>sv_manager := Live m'\<rparr>, rn_point := Leaving\<rparr>)"
      by (rule pool_inv_run [OF n i(1) fo undisturbed_steps])
    from rests_after [OF n rests_leaving [OF this fo]] show ?thesis by simp
  qed
  show ?thesis
  proof (cases "rn_point r")
    case Suspended
    with pool_inv_settled [OF assms(2)] show ?thesis
      unfolding rests_def by (intro exI [of _ 0]) simp
  next
    case Leaving
    with rests_leaving [OF assms(2) fo] show ?thesis by simp
  next
    case Woken
    have "loop_inv r" using assms(2) by (simp add: pool_inv_def)
    note ends = server_event_ends [OF this nc, of Step w]
    show ?thesis
    proof (cases "server_event fork Step r w")
      case (Goes_on r1 w1)
      have i: "pool_inv r1" by (rule pool_inv_event [OF assms(2) fo Goes_on]) simp
      obtain m where m: "sv_manager (rn_server r) = Live m" "\<not> mg_worker m"
        using assms(2) by (auto simp: pool_inv_def loop_inv_def pool_whole_def)
      then have "rn_point r1 = Test"
        using Goes_on Woken by (auto simp: process_step_def dest!: unblock_goes_on [where m = m])
      with inside [OF i] have "rests fork r1 w1" by simp
      with rests_after [of fork 1 r w r1 w1] Goes_on ends show ?thesis by simp
    next
      case (Terminated_by sv acts)
      with ends show ?thesis unfolding rests_def by (intro exI [of _ 1]) simp
    qed (use ends in auto)
  qed (use inside [OF assms(2)] in auto)
qed

text \<open>The whole: a server that starts with a full pool, undisturbed.\<close>

lemma pool_inv_entered:
  assumes "settled sv" and "\<not> sv_terminating sv"
  shows "pool_inv (entered sv)"
proof -
  obtain m where m: "sv_manager sv = Live m" "pool_ok m" "mg_workers_count m = mg_max_workers m"
    using assms(1) by (auto simp: settled_def)
  then have "loop_inv (entered sv)" using assms(2) by (intro loop_inv_entered) (auto simp: pool_whole_def pool_ok_def)
  with m show ?thesis
    by (auto simp: pool_inv_def manager_of_def entered_def kept_count_def count_inv_def full_inv_def pool_ok_def
        pending_def under_way_def)
qed

definition stays_full :: "('w \<Rightarrow> fork_result \<times> 'w) \<Rightarrow> event list \<Rightarrow> 'w run_end \<Rightarrow> bool" where
  "stays_full fork es x \<longleftrightarrow> (case x of
     Goes_on r w \<Rightarrow> (rn_point r = Suspended \<longrightarrow> settled (rn_server r)) \<and> rests fork r w
   | Terminated_by _ _ \<Rightarrow> Sig_term \<in> set es
   | _ \<Rightarrow> False)"

lemma server_run_full:
  assumes "\<And>w. \<exists>p w'. fork w = (Fork_parent p, w') \<and> 0 < p" and "settled sv" and "\<not> sv_terminating sv"
    and "undisturbed fork es (entered sv) w" and "reaps_children es"
  shows "stays_full fork es (server_run fork es sv w)"
proof -
  have fo: "forks_ok fork" using assms(1) unfolding forks_ok_def by (metis prod.inject fork_result.inject)
  have nc: "no_child fork" using assms(1) unfolding no_child_def by (metis fst_conv fork_result.distinct(5))
  note i = pool_inv_entered [OF assms(2,3)]
  have s: "server_run fork es sv w = run_loop fork es (entered sv) w"
    using assms(2) by (auto simp: server_run_def settled_def)
  have "loop_inv (entered sv)" "\<not> rn_term (entered sv)" using i by (simp_all add: pool_inv_def entered_def)
  with run_loop_ends [OF nc, of "entered sv" es w] pool_inv_run [OF _ i fo assms(4,5)]
    comes_to_rest [of fork, OF assms(1)] pool_inv_settled
  show ?thesis
    by (cases "run_loop fork es (entered sv) w") (auto simp: stays_full_def s)
qed

end
