(* ===== verification/Startup.thy ===== *)
theory Startup
  imports ServerLoop IcapText
begin

text \<open>
  The way from \<open>main\<close> to the running server: the signal handlers, \<open>daemonize\<close>
  (\<open>src/bitz-server.cpp\<close>) and \<open>main\<close> (\<open>src/main.cpp\<close>) as a whole. What the system answers to
  each call is a field of a record; \<open>fork\<close> and \<open>mkdir\<close> act on a world \<open>'w\<close>.
\<close>

section \<open>Signal handlers and globals\<close>

datatype handled = H_SIGCHLD | H_SIGTERM | H_SIGQUIT | H_SIGINT

text \<open>Each \<open>init_sig..._handler\<close> ends the process when \<open>sigaction\<close> fails.\<close>

definition init_sigchld_handler :: "(handled \<Rightarrow> int) \<Rightarrow> unit outcome" where
  "init_sigchld_handler sigaction = (if sigaction H_SIGCHLD < 0 then Exit_failure else Done ())"

definition init_sigterm_handler :: "(handled \<Rightarrow> int) \<Rightarrow> unit outcome" where
  "init_sigterm_handler sigaction = (if sigaction H_SIGTERM < 0 then Exit_failure else Done ())"

definition init_sigquit_handler :: "(handled \<Rightarrow> int) \<Rightarrow> unit outcome" where
  "init_sigquit_handler sigaction = (if sigaction H_SIGQUIT < 0 then Exit_failure else Done ())"

definition init_sigint_handler :: "(handled \<Rightarrow> int) \<Rightarrow> unit outcome" where
  "init_sigint_handler sigaction = (if sigaction H_SIGINT < 0 then Exit_failure else Done ())"

text \<open>The first that fails ends it.\<close>

fun in_turn :: "unit outcome list \<Rightarrow> unit outcome" where
  "in_turn [] = Done ()"
| "in_turn (r # rs) = (case r of Done _ \<Rightarrow> in_turn rs | _ \<Rightarrow> r)"

definition init_signal_handlers :: "(handled \<Rightarrow> int) \<Rightarrow> unit outcome" where
  "init_signal_handlers sigaction =
     in_turn [init_sigchld_handler sigaction, init_sigterm_handler sigaction,
       init_sigquit_handler sigaction, init_sigint_handler sigaction]"

lemma init_signal_handlers_done:
  "(\<And>h. 0 \<le> sigaction h) \<Longrightarrow> init_signal_handlers sigaction = Done ()"
  by (simp add: init_signal_handlers_def init_sigchld_handler_def init_sigterm_handler_def
      init_sigquit_handler_def init_sigint_handler_def not_less)

text \<open>What is installed for the three termination signals only logs before it goes on.\<close>

definition sigterm_handler :: "server_t \<Rightarrow> (server_t \<times> sv_action list) option" where
  "sigterm_handler sv = termination_handler sv"

definition sigquit_handler :: "server_t \<Rightarrow> (server_t \<times> sv_action list) option" where
  "sigquit_handler sv = termination_handler sv"

definition sigint_handler :: "server_t \<Rightarrow> (server_t \<times> sv_action list) option" where
  "sigint_handler sv = termination_handler sv"

text \<open>The action of each signal; only \<open>SIGCHLD\<close> is not a termination.\<close>

definition handle :: "int list \<Rightarrow> handled \<Rightarrow> server_t \<Rightarrow> (server_t \<times> sv_action list) option" where
  "handle reaped h sv =
     (case h of
        H_SIGCHLD \<Rightarrow> map_option (\<lambda>sv'. (sv', [])) (sigchld_handler reaped sv)
      | H_SIGTERM \<Rightarrow> sigterm_handler sv
      | H_SIGQUIT \<Rightarrow> sigquit_handler sv
      | H_SIGINT \<Rightarrow> sigint_handler sv)"

lemma handle_termination:
  "h \<noteq> H_SIGCHLD \<Longrightarrow> handle reaped h sv = termination_handler sv"
  by (cases h) (simp_all add: handle_def sigterm_handler_def sigquit_handler_def sigint_handler_def)

definition server_init :: "(handled \<Rightarrow> int) \<Rightarrow> server_t outcome" where
  "server_init sigaction =
     (case init_signal_handlers sigaction of Done _ \<Rightarrow> Done init | _ \<Rightarrow> Exit_failure)"

section \<open>Becoming a daemon\<close>

text \<open>
  What the system answers. \<open>d_open\<close> gets the working directory, None where \<open>chdir\<close> failed, which
  is not looked at, and the path as it was given.
\<close>

record daemon_calls =
  d_fork :: int
  d_setsid :: int
  d_fork_again :: int
  d_chdir :: "string \<Rightarrow> bool"
  d_open :: "string option \<Rightarrow> string \<Rightarrow> int"
  d_lockf :: int
  d_getpid :: int

text \<open>
  How a process leaves \<open>daemonize\<close>: it goes on, with what it wrote to the pid file; it exits; or
  the text of the process id does not fit the ten characters of its buffer.
\<close>

datatype daemonized = Daemon server_t string | Daemon_exits bool | Daemon_overflow

definition daemonize :: "daemon_calls \<Rightarrow> string \<Rightarrow> string \<Rightarrow> server_t \<Rightarrow> daemonized" where
  "daemonize d rundir pidfile sv =
     (if d_fork d < 0 then Daemon_exits False
      else if 0 < d_fork d then Daemon_exits True
      else if d_setsid d < 0 then Daemon_exits False
      else if d_fork_again d < 0 then Daemon_exits False
      else if 0 < d_fork_again d then Daemon_exits True
      else
        let cwd = (if d_chdir d rundir then Some rundir else None);
            sv = sv\<lparr>sv_pidfd := d_open d cwd pidfile\<rparr>
        in if sv_pidfd sv = - 1 then Daemon_exits False
           else if d_lockf d = - 1 then Daemon_exits False
           else
             let sv = sv\<lparr>sv_pid := d_getpid d\<rparr>;
                 str = itoa (sv_pid sv) @ [LF]
             in if 10 \<le> length str then Daemon_overflow
                else Daemon (sv\<lparr>sv_daemon := True\<rparr>) str)"

section \<open>The whole program\<close>

record 'w machine =
  mc_sigaction :: "handled \<Rightarrow> int"
  mc_options :: "getopt list"
  mc_debug_junk :: int
  mc_file :: "string \<Rightarrow> libconfig"       \<comment> \<open>what the configuration library makes of a file\<close>
  mc_default_file :: string
  mc_count_junk :: "nat \<Rightarrow> u32"
  mc_mkdir :: "string \<Rightarrow> 'w \<Rightarrow> mkdir_result \<times> 'w"
  mc_daemon :: daemon_calls
  mc_listen :: "int \<Rightarrow> bool"             \<comment> \<open>the listening socket opens on this port\<close>
  mc_pool_junk :: "nat \<Rightarrow> worker_pool_t"
  mc_fork :: "'w \<Rightarrow> fork_result \<times> 'w"

datatype 'w program_end =
    Exits bool
  | Aborts
  | Hangs                    \<comment> \<open>in \<open>mkdirp\<close>\<close>
  | Overflows
  | Worker_process manager_t
  | Serves server_t "'w run_end"

text \<open>\<open>main\<close>, step by step; the debug flag decides whether the process becomes a daemon.\<close>

definition serve :: "'w machine \<Rightarrow> event list \<Rightarrow> config_t \<Rightarrow> server_t \<Rightarrow> 'w \<Rightarrow> 'w program_end" where
  "serve mc es c sv w =
     (case start (mc_fork mc) (mc_listen mc (c_port c)) (mc_pool_junk mc) c sv w of
        Inr ch \<Rightarrow> Worker_process ch
      | Inl (Done (sv1, w1)) \<Rightarrow> Serves sv1 (server_run (mc_fork mc) es sv1 w1)
      | Inl _ \<Rightarrow> Exits False)"

definition main_program :: "'w machine \<Rightarrow> event list \<Rightarrow> 'w \<Rightarrow> 'w program_end" where
  "main_program mc es w =
     (case server_init (mc_sigaction mc) of
        Done sv \<Rightarrow>
          (case read_options (mc_debug_junk mc) (mc_options mc) of
             Exit_success \<Rightarrow> Exits True
           | Exit_usage \<Rightarrow> Exits False
           | Options op \<Rightarrow>
               (case initialise (mc_count_junk mc)
                   (mc_file mc (if o_config_file op \<noteq> [] then o_config_file op else mc_default_file mc)) new_config of
                  Exit_failure \<Rightarrow> Exits False
                | Aborted \<Rightarrow> Aborts
                | Done c \<Rightarrow>
                    (case create_directories (mc_mkdir mc) op c w of
                       None \<Rightarrow> Hangs
                     | Some (Done w1) \<Rightarrow>
                         if o_debug_flag op \<noteq> 1 then
                           (case daemonize (mc_daemon mc) (dirpath (c_pid_file c)) (c_pid_file c) sv of
                              Daemon sv1 _ \<Rightarrow> serve mc es c sv1 w1
                            | Daemon_exits ok \<Rightarrow> Exits ok
                            | Daemon_overflow \<Rightarrow> Overflows)
                         else serve mc es c sv w1
                     | Some _ \<Rightarrow> Exits False)))
      | _ \<Rightarrow> Exits False)"

section \<open>Properties\<close>

text \<open>What \<open>daemonize\<close> needs of the system to go on.\<close>

definition daemon_works :: "daemon_calls \<Rightarrow> string \<Rightarrow> string \<Rightarrow> bool" where
  "daemon_works d rundir pidfile \<longleftrightarrow>
     d_fork d = 0 \<and> 0 \<le> d_setsid d \<and> d_fork_again d = 0 \<and> d_chdir d rundir \<and>
     d_open d (Some rundir) pidfile \<noteq> - 1 \<and> d_lockf d \<noteq> - 1 \<and> length (itoa (d_getpid d)) < 9"

lemma daemonize_works:
  assumes "daemon_works d rundir pidfile"
  shows "daemonize d rundir pidfile sv =
    Daemon (sv\<lparr>sv_pidfd := d_open d (Some rundir) pidfile, sv_pid := d_getpid d, sv_daemon := True\<rparr>)
      (itoa (d_getpid d) @ [LF])"
  using assms by (simp add: daemon_works_def daemonize_def Let_def)

text \<open>Only the process that has the pid file open and locked goes on.\<close>

lemma daemonize_locked:
  assumes "daemonize d rundir pidfile sv = Daemon sv' str"
  shows "sv_pidfd sv' \<noteq> - 1 \<and> d_lockf d \<noteq> - 1 \<and> sv_daemon sv' \<and> sv_manager sv' = sv_manager sv \<and>
    sv_terminating sv' = sv_terminating sv"
  using assms by (auto simp: daemonize_def Let_def split: if_splits)

lemma serve_full:
  assumes "\<And>w. \<exists>p w'. mc_fork mc w = (Fork_parent p, w') \<and> 0 < p" and "mc_listen mc (c_port c)"
    and "\<not> sv_terminating sv" and "reaps_children es"
  shows "\<exists>sv1 w1 r. serve mc es c sv w = Serves sv1 r \<and> settled sv1 \<and> r = server_run (mc_fork mc) es sv1 w1 \<and>
    (undisturbed (mc_fork mc) es (entered sv1) w1 \<longrightarrow> stays_full (mc_fork mc) es r)"
proof -
  obtain m w1 where st: "start (mc_fork mc) True (mc_pool_junk mc) c sv w =
        Inl (Done (sv\<lparr>sv_manager := Live m\<rparr>, w1))"
      "pool_ok m" "mg_workers_count m = mg_max_workers m"
    using start_fills [where fork = "mc_fork mc" and junk = "mc_pool_junk mc" and c = c and sv = sv and w = w,
        OF assms(1)] by blast
  let ?sv = "sv\<lparr>sv_manager := Live m\<rparr>"
  have s: "settled ?sv" "\<not> sv_terminating ?sv" using st assms(3) by (auto simp: settled_def)
  have "stays_full (mc_fork mc) es (server_run (mc_fork mc) es ?sv w1)"
    if "undisturbed (mc_fork mc) es (entered ?sv) w1"
    by (rule server_run_full [OF assms(1) s that assms(4)])
  with st(1) s(1) assms(2) show ?thesis
    by (intro exI [of _ ?sv] exI [of _ w1] exI [of _ "server_run (mc_fork mc) es ?sv w1"]) (simp add: serve_def)
qed

lemma create_directories_absolute:
  assumes "mkdir_laws mk path_exists" and "dirpath (c_pid_file c) = CHR ''/'' # d1"
    and "dirpath (c_log_file c) = CHR ''/'' # d2"
  shows "\<exists>r. create_directories mk op c w = Some r \<and>
    (\<forall>w'. r = Done w' \<longrightarrow> path_exists (dirpath (c_log_file c)) w' \<and>
       (o_debug_flag op \<noteq> 1 \<longrightarrow> path_exists (dirpath (c_pid_file c)) w')) \<and> r \<noteq> Aborted"
proof -
  obtain ok1 w1 where m1: "mkdirp mk (dirpath (c_pid_file c)) w = Some (ok1, w1)"
      "ok1 \<longrightarrow> path_exists (dirpath (c_pid_file c)) w1"
    using mkdirp_absolute [OF assms(1,2)] by blast
  have "\<exists>ok2 w2. mkdirp mk (dirpath (c_log_file c)) v = Some (ok2, w2) \<and>
      (ok2 \<longrightarrow> path_exists (dirpath (c_log_file c)) w2) \<and> (\<forall>q. path_exists q v \<longrightarrow> path_exists q w2)" for v
    using mkdirp_absolute [OF assms(1,3)] by blast
  from this [of w] this [of w1] m1 show ?thesis
    by (cases "o_debug_flag op \<noteq> 1"; cases ok1) (auto simp: create_directories_def)
qed

text \<open>Serving leaves the daemon's fields as they are.\<close>

lemma serve_daemon:
  assumes "serve mc es c sv w = Serves sv1 r"
  shows "sv_daemon sv1 = sv_daemon sv \<and> sv_pidfd sv1 = sv_pidfd sv"
  using assms by (auto simp: serve_def start_def split: sum.splits outcome.splits option.splits pass.splits)

end
