(* ===== verification/Examples.thy ===== *)
theory Examples
  imports Child Leaks LostWrites Startup
begin

text \<open>
  Concrete inputs: a connection, a clock, a table of handlers with the module echo, and
  requests, on which the properties are applied.
\<close>

section \<open>A connection and a server\<close>

definition demo_env :: env_t where
  "demo_env = \<lparr>e_clock = \<lparr>cl_date = ''Mon Jan  1'', cl_time = 1, cl_clock = 2,
     cl_package = ''bitz-server 2.0''\<rparr>, e_junk = False\<rparr>"

definition demo_tick :: "unit tick" where
  "demo_tick w = (demo_env, w)"

definition demo_sock :: "string \<Rightarrow> sock" where
  "demo_sock input = \<lparr>s_in = input, s_good = True, s_gcount = 0, s_out = [], s_flushed = 0,
     s_rthrow = [], s_wev = [], s_tmo = False, s_timedout = False, s_junk = (\<lambda>_. 0)\<rparr>"

lemma demo_sock_simps [simp]:
  "s_in (demo_sock i) = i" "s_out (demo_sock i) = []" "live (demo_sock i)" "calm (demo_sock i)"
  "s_good (demo_sock i)"
  by (simp_all add: demo_sock_def live_def calm_def)

definition demo_junk :: "unit symbols_t" where
  "demo_junk = \<lparr>sy_modifier = None, sy_create = (\<lambda>w. (echo demo_tick, w)), sy_destroy = (\<lambda>_ w. w)\<rparr>"

definition demo_linker :: "unit linker" where
  "demo_linker file = (if file = ''echo.so'' then Some (echo_library demo_tick) else None)"

definition demo_config :: config_t where
  "demo_config = new_config\<lparr>c_req_handlers :=
     map (\<lambda>n. \<lparr>rc_name = n, rc_class_name = n, rc_modules_count = 1,
        rc_modules = Some [\<lparr>mc_name = ''echo'', mc_module = ''echo.so''\<rparr>]\<rparr>) [''REQMOD'', ''RESPMOD'']\<rparr>"

definition demo_handler :: "string \<Rightarrow> unit request_handler" where
  "demo_handler mth = \<lparr>hd_method = mth, hd_handlers =
     [load_handler demo_linker demo_junk \<lparr>mc_name = ''echo'', mc_module = ''echo.so''\<rparr>]\<rparr>"

definition demo_table :: "unit req_handlers" where
  "demo_table =
     [(''OPTIONS'', Options_handler (request_handler.extend \<lparr>hd_method = ''OPTIONS'', hd_handlers = []\<rparr>
         \<lparr>hd_methods = [''REQMOD'', ''RESPMOD'']\<rparr>)),
      (''REQMOD'', Mod_handler (demo_handler ''REQMOD'')),
      (''RESPMOD'', Mod_handler (demo_handler ''RESPMOD''))]"

lemma demo_loaded: "load_req_handlers demo_linker demo_junk demo_config = Some demo_table"
  by (simp add: load_req_handlers_def new_request_handler_def demo_config_def new_config_def
      demo_table_def demo_handler_def register_handler_def request_handler.defs Let_def)

lemma demo_config_ok: "config_ok demo_config"
  by (simp add: config_ok_def demo_config_def new_config_def entry_ok_def)

lemma demo_linker_ok: "linker_ok demo_linker"
  using echo_p.modifier_contract_axioms echo_m.modifier_contract_axioms
  by (auto simp: linker_ok_def demo_linker_def echo_library_def split: if_splits)

lemma demo_table_ok: "table_ok demo_table"
  using load_req_handlers_ok [OF demo_config_ok demo_linker_ok, of demo_junk] demo_loaded by auto

lemma demo_echo_only: "echo_only demo_tick (demo_handler mth)"
  by (rule echo_only_loaded [where linker = demo_linker and junk = demo_junk
        and m = "\<lparr>mc_name = ''echo'', mc_module = ''echo.so''\<rparr>"])
    (simp_all add: demo_handler_def demo_linker_def)

lemma demo_find:
  "find_req_handler demo_table ''REQMOD'' = Some (Mod_handler (demo_handler ''REQMOD''))"
  "find_req_handler demo_table ''RESPMOD'' = Some (Mod_handler (demo_handler ''RESPMOD''))"
  "find_req_handler demo_table ''OPTIONS'' = Some (Options_handler
     (request_handler.extend \<lparr>hd_method = ''OPTIONS'', hd_handlers = []\<rparr> \<lparr>hd_methods = [''REQMOD'', ''RESPMOD'']\<rparr>))"
  "find_req_handler demo_table ''FOO'' = None"
  by (simp_all add: demo_table_def find_req_handler_def)

section \<open>Requests\<close>

definition demo_request :: "string \<Rightarrow> request_t" where
  "demo_request mth = \<lparr>rq_method = mth, rq_uri = ''icap://h/s'', rq_protocol = ''ICAP/1.0''\<rparr>"

definition demo_fields :: "(string \<times> string) list" where
  "demo_fields = [(''Host'', ''h''), (''Allow'', ''204'')]"

definition demo_preview_fields :: "(string \<times> string) list" where
  "demo_preview_fields = [(''Host'', ''h''), (''Preview'', ''3'')]"

definition demo_kept_fields :: "(string \<times> string) list" where
  "demo_kept_fields = [(''Connection'', ''keep-alive''), (''Preview'', ''3'')]"

definition demo_hdr :: string where
  "demo_hdr = ''GET / HTTP/1.1'' @ CRLF @ CRLF"

definition demo_rhdr :: string where
  "demo_rhdr = ''HTTP/1.1 200 OK'' @ CRLF @ CRLF"

definition demo_chunks :: "wire_chunk list" where
  "demo_chunks = [(''3'', [], ''abc'')]"

definition demo_chunks2 :: "wire_chunk list" where
  "demo_chunks2 = [(''2'', '';x=1'', ''de''), (''01'', [], ''f'')]"

lemma demo_texts:
  "demo_hdr \<noteq> []" "demo_rhdr \<noteq> []" "length demo_hdr = 18" "length demo_rhdr = 19"
  "chunk_data demo_chunks = ''abc''" "chunk_data demo_chunks2 = ''def''"
  "\<not> keeps demo_fields" "\<not> keeps demo_preview_fields" "keeps demo_kept_fields"
  "map_of (rev demo_kept_fields) ''Preview'' = Some ''3''" "map_of (rev demo_fields) ''Preview'' = None" "map_of (rev demo_preview_fields) ''Preview'' = Some ''3''"
  "rq_method (demo_request mth) = mth" "rq_uri (demo_request mth) = ''icap://h/s''"
  "rq_protocol (demo_request mth) = ''ICAP/1.0''"
  by (simp_all add: demo_hdr_def demo_rhdr_def demo_chunks_def demo_chunks2_def chunk_data_def
      demo_fields_def demo_preview_fields_def demo_kept_fields_def keeps_def demo_request_def)

lemma demo_atoi: "0 \<le> atoi ''3''"
  by code_simp

lemma demo_itoa: "itoa 0 = ''0''" "itoa 18 = ''18''" "itoa 19 = ''19''" "itoa 37 = ''37''"
  by (simp_all add: itoa_def digit_char_def num_digits.simps char_of_eq_iff)

lemma demo_requests_ok:
  "request_ok (demo_request ''REQMOD'') demo_fields (reqmod_entities demo_hdr)"
  "request_ok (demo_request ''REQMOD'') demo_preview_fields (reqmod_entities demo_hdr)"
  "request_ok (demo_request ''REQMOD'') demo_kept_fields (reqmod_entities demo_hdr)"
  "request_ok (demo_request ''OPTIONS'') demo_kept_fields [(''null-body'', 0)]"
  "request_ok (demo_request ''RESPMOD'') demo_fields (respmod_entities demo_hdr demo_rhdr)"
  "request_ok (demo_request ''OPTIONS'') demo_fields [(''null-body'', 0)]"
  "request_ok (demo_request ''FOO'') demo_fields [(''null-body'', 0)]"
  by (simp_all add: request_ok_def demo_request_def demo_fields_def demo_preview_fields_def demo_kept_fields_def
      reqmod_entities_def respmod_entities_def demo_texts token_def positive_def is_space_def field_ok_def trimmed_def
      entities_ok_def entities_def request_lines_def field_line_def entities_text_def entity_text_def
      header_line_def demo_itoa)

lemma demo_bodies_ok:
  "body_ok demo_chunks ''0'' []" "body_ok demo_chunks2 ''0'' []" "body_ok demo_chunks ''0'' ''; ieof''"
  "chunk_extension [] = []" "chunk_extension ''; ieof'' = ''ieof''"
  by (simp_all add: body_ok_def demo_chunks_def demo_chunks2_def size_ok_def ext_ok_def hextodec_def
    positive_def is_space_def chunk_extension_def trim_def ltrim_def rtrim_def digit_val_def num_value_def)

text \<open>A preview that was read, and a connection that refuses the answer to it.\<close>

lemma demo_preview_read:
  obtains h s rq s1 where "read_req_data (new_request h) s = ((True, rq), s1)"
    and "s_good s1" and "s_wev s1 = [W_bad 5]" and "s_in s1 = body_text demo_chunks2 ''0'' []" and "s_out s1 = []"
    and "0 \<le> preview_size rq" and "q_payload rq = reqmod_payload demo_hdr ''abc'' False"
    and "method_of (q_header rq) = ''REQMOD''"
    and "fst (last (sort_encapsulated_header (q_header rq))) = ''req-body''"
    and "sort_encapsulated_header (q_header rq) \<noteq> []"
proof -
  let ?s = "demo_sock (request_head (demo_request ''REQMOD'') demo_preview_fields (reqmod_entities demo_hdr) @
    demo_hdr @ body_text demo_chunks ''0'' [] @ body_text demo_chunks2 ''0'' [])"
  let ?p = "reqmod_payload demo_hdr ''abc'' False"
  obtain h s1 s2 where h: "method_of h = ''REQMOD''"
      "h_encapsulated h = fold (\<lambda>(k, v). smap_set k v) (reqmod_entities demo_hdr) init_encapsulated"
      "read_req_data (new_request h) s1 = ((True, set_request_payload ?p (new_request h)), s2)"
      "live s2" "s_in s2 = body_text demo_chunks2 ''0'' []" "s_out s2 = []"
      "0 \<le> preview_size (set_request_payload ?p (new_request h))"
    by (rule reqmod_preview_read [of ?s "demo_request ''REQMOD''" demo_preview_fields demo_hdr demo_chunks "''0''" "[]"
        "body_text demo_chunks2 ''0'' []" "''3''"])
      (simp_all add: demo_requests_ok demo_texts demo_bodies_ok demo_atoi)
  let ?rq = "set_request_payload ?p (new_request h)"
  have b: "read_req_data (new_request h) (s1\<lparr>s_wev := [W_bad 5]\<rparr>) = ((True, ?rq), s2\<lparr>s_wev := [W_bad 5]\<rparr>)"
    using brqd.blind_run [OF h(3)] by simp
  have m: "method_of (q_header ?rq) = ''REQMOD''" "q_payload ?rq = ?p"
    using h(1) by (simp_all add: set_request_payload_def new_request_def q_header_set)
  note le = last_entity_reqmod [of "q_header (new_request h)" demo_hdr ?p]
  show thesis
    by (rule that [OF b]) (use h m le in \<open>simp_all add: live_def calm_def reqmod_payload_def empty_payload_def
      reqmod_entities_def demo_texts new_request_def set_request_payload_def\<close>)
qed

section \<open>A session\<close>

text \<open>
  OPTIONS and a REQMOD request with a preview on a kept connection, then a RESPMOD request that
  ends it, and one more that is not served.
\<close>

definition demo_session :: "client_request list" where
  "demo_session =
     [\<lparr>cr_line = demo_request ''OPTIONS'', cr_fields = demo_kept_fields, cr_content = Header_only [(''null-body'', 0)]\<rparr>,
      \<lparr>cr_line = demo_request ''REQMOD'', cr_fields = demo_kept_fields,
        cr_content = Reqmod_preview demo_hdr (demo_chunks, ''0'', []) (demo_chunks2, ''0'', [])\<rparr>,
      \<lparr>cr_line = demo_request ''RESPMOD'', cr_fields = demo_fields,
        cr_content = Respmod demo_hdr demo_rhdr (demo_chunks2, ''0'', [])\<rparr>,
      \<lparr>cr_line = demo_request ''FOO'', cr_fields = demo_fields, cr_content = Header_only [(''null-body'', 0)]\<rparr>]"

lemma demo_session_ok: "\<forall>r\<in>set demo_session. well_formed r"
  using demo_atoi
  by (simp add: demo_session_def well_formed_def cr_method_def preview_field_def announces_preview_def
      demo_requests_ok demo_texts demo_bodies_ok)

lemma demo_module_table: "module_table demo_tick Echo demo_table"
  using echo_serves [OF demo_echo_only] by (auto simp: module_table_def demo_find)
    (simp_all add: request_handler.defs demo_table_def find_req_handler_def)

text \<open>The kept connection, the echo of the whole body, the close, and what is left.\<close>

lemma demo_session_result:
  "session demo_tick Echo demo_session 5 () =
    (reply ''ICAP/1.0 200 OK'' (options_fields True (e_clock demo_env)) ''null-body=0'' [] @
     reply ''ICAP/1.0 100 Continue'' (tl (closing_fields (e_clock demo_env))) ''null-body=0'' [] @
     reply ''ICAP/1.0 200 OK'' (connection_fields True (e_clock demo_env)) ''req-hdr=0, req-body=18''
       (demo_hdr @ sent_body ''abcdef'') @
     reply ''ICAP/1.0 200 OK'' (connection_fields False (e_clock demo_env)) ''res-hdr=0, res-body=19''
       (demo_rhdr @ sent_body ''def''),
     True, [demo_session ! 3], 2, ())"
  by (simp add: demo_session_def keeps_connection_def demo_texts demo_tick_def cr_method_def
      echo_text_def echo_fields_def demo_itoa)

section \<open>A store, and a module whose answer is replaced\<close>

definition empty_heap :: heap where
  "empty_heap = \<lparr>hp_next = 0, hp_store = Map.empty\<rparr>"

lemma empty_heap_ok: "heap_ok empty_heap"
  by (simp add: heap_ok_def empty_heap_def)

definition failing_module :: "unit modifier" where
  "failing_module =
     \<lparr>md_modify = (\<lambda>rq w. ((new_response (e_clock demo_env) False SERVER_ERROR, rq), w)),
      md_preview = (\<lambda>rq w. ((new_response (e_clock demo_env) False SERVER_ERROR, rq), w)),
      md_delete = (\<lambda>w. w)\<rparr>"

definition two_modules :: "unit request_handler" where
  "two_modules = \<lparr>hd_method = ''REQMOD'', hd_handlers =
     [\<lparr>hn_name = ''failing'', hn_symbols =
        \<lparr>sy_modifier = None, sy_create = (\<lambda>w. (failing_module, w)), sy_destroy = md_delete\<rparr>\<rparr>,
      \<lparr>hn_name = ''echo'', hn_symbols =
        \<lparr>sy_modifier = None, sy_create = (\<lambda>w. (echo demo_tick, w)), sy_destroy = md_delete\<rparr>\<rparr>]\<rparr>"

definition demo_rq :: request where
  "demo_rq = new_request (new_request_header [])"

text \<open>A store with one request in it.\<close>

definition demo_heap :: heap where
  "demo_heap = \<lparr>hp_next = 2, hp_store =
     [0 \<mapsto> Request_header (q_header demo_rq), 1 \<mapsto> Request 0 (q_payload demo_rq)]\<rparr>"

lemma demo_heap_ok: "heap_ok demo_heap" "request_at 1 0 demo_rq demo_heap"
  by (auto simp: heap_ok_def demo_heap_def request_at_def)

lemma two_modules_asked:
  "process_modify two_modules demo_rq () = ((Some (echo_modify demo_env demo_rq), demo_rq), ())"
  "asked (\<lambda>r. status_of r = OK) (modify_answers (loaded (hd_handlers two_modules)) demo_rq ()) = 2"
  using echo_modify_status [of demo_env demo_rq]
  by (simp_all add: process_modify_def two_modules_def loaded_def ask_modifier_def failing_module_def echo_def
      demo_tick_def new_response_def response_header_fields(5))

section \<open>A worker with two clients\<close>

text \<open>A world that is the queue of the connections that wait.\<close>

definition queue_tick :: "sock list tick" where
  "queue_tick w = (demo_env, w)"

definition queue_accept :: "sock list \<Rightarrow> sock option \<times> sock list" where
  "queue_accept w = (case w of [] \<Rightarrow> (None, []) | s # ss \<Rightarrow> (Some s, ss))"

definition queue_linker :: "sock list linker" where
  "queue_linker file = (if file = ''echo.so'' then Some (echo_library queue_tick) else None)"

definition queue_junk :: "sock list symbols_t" where
  "queue_junk = \<lparr>sy_modifier = None, sy_create = (\<lambda>w. (echo queue_tick, w)), sy_destroy = (\<lambda>_ w. w)\<rparr>"

lemma queue_ok:
  "module_configured queue_tick Echo queue_linker demo_config"
  "queued queue_tick queue_accept (\<lambda>w. w)"
proof -
  show "module_configured queue_tick Echo queue_linker demo_config"
    using demo_config_ok by (auto simp: module_configured_def library_of_def demo_config_def new_config_def queue_linker_def)
  show "queued queue_tick queue_accept (\<lambda>w. w)"
    by (simp add: queued_def queue_tick_def queue_accept_def split: list.splits)
qed

definition demo_clients :: "client_request list list" where
  "demo_clients = [[demo_session ! 2], [demo_session ! 3]]"

definition demo_queue :: "sock list" where
  "demo_queue = map (\<lambda>rs. demo_sock (concat (map request_bytes rs))) demo_clients"

lemma demo_clients_ok: "list_all2 client demo_queue demo_clients"
  using demo_session_ok
  by (simp add: demo_queue_def demo_clients_def client_def demo_session_def keeps_connection_def demo_texts)

lemma demo_clients_see:
  "clients queue_tick Echo queue_accept demo_clients 2 demo_queue =
    [reply ''ICAP/1.0 200 OK'' (connection_fields False (e_clock demo_env)) ''res-hdr=0, res-body=19''
       (demo_rhdr @ sent_body ''def''),
     reply ''ICAP/1.0 405 Method not allowed for service'' (connection_fields False (e_clock demo_env))
       ''null-body=0'' []]"
  by (simp add: demo_clients_def demo_session_def keeps_connection_def demo_texts queue_tick_def cr_method_def
      echo_text_def echo_fields_def demo_itoa)

text \<open>The same with modpy: a path is configured, and the interpreter finds the script there.\<close>

definition queue_python :: libconfig where
  "queue_python = \<lparr>lc_read = File_ok, lc_int = Map.empty, lc_string = Map.empty, lc_handlers = None,
     lc_modules = Some [''modpy'' \<mapsto> [''module_path'' \<mapsto> ''/opt/py'']]\<rparr>"

definition queue_importer :: "sock list importer" where
  "queue_importer path name w =
     (if path = ''/opt/py'' \<and> name = ''modpy'' then Some (script_module queue_tick) else None, w)"

definition queue_undefined :: "sock list undefined_t" where
  "queue_undefined = \<lparr>ub_create = (\<lambda>w. (echo queue_tick, w)),
     ub_answer = (\<lambda>rq w. ((new_response (e_clock demo_env) True SERVER_ERROR, rq), w)), ub_delete = (\<lambda>_. [])\<rparr>"

definition script_linker :: "sock list linker" where
  "script_linker file =
     (if file = ''modpy.so'' then Some (py_library queue_tick queue_undefined queue_importer queue_python) else None)"

definition script_config :: config_t where
  "script_config = new_config\<lparr>c_req_handlers :=
     map (\<lambda>n. \<lparr>rc_name = n, rc_class_name = n, rc_modules_count = 1,
        rc_modules = Some [\<lparr>mc_name = ''modpy'', mc_module = ''modpy.so''\<rparr>]\<rparr>) [''REQMOD'', ''RESPMOD'']\<rparr>"

lemma queue_script_imported: "script_imported queue_tick queue_importer queue_python"
  by (simp add: script_imported_def queue_importer_def queue_python_def load_configs_def module_config_def
      lookup_value_def Let_def)

lemma script_configured: "module_configured queue_tick Script script_linker script_config"
proof -
  have "config_ok script_config" by (simp add: config_ok_def script_config_def new_config_def entry_ok_def)
  moreover have "library_of queue_tick Script (py_library queue_tick queue_undefined queue_importer queue_python)"
    using queue_script_imported by (auto simp: library_of_def)
  ultimately show ?thesis
    by (auto simp: module_configured_def script_config_def new_config_def script_linker_def)
qed

lemma script_linker_ok: "linker_ok script_linker"
proof -
  have "library_of queue_tick Script (py_library queue_tick queue_undefined queue_importer queue_python)"
    using queue_script_imported by (auto simp: library_of_def)
  from library_contract [OF this] show ?thesis
    by (auto simp: linker_ok_def script_linker_def split: if_splits)
qed

text \<open>One client whose preview holds the whole body.\<close>

definition demo_whole :: client_request where
  "demo_whole = \<lparr>cr_line = demo_request ''REQMOD'', cr_fields = demo_preview_fields,
     cr_content = Reqmod_whole_preview demo_hdr (demo_chunks, ''0'', ''; ieof'')\<rparr>"

definition script_clients :: "client_request list list" where
  "script_clients = [[demo_whole], [demo_session ! 2]]"

definition script_queue :: "sock list" where
  "script_queue = map (\<lambda>rs. demo_sock (concat (map request_bytes rs))) script_clients"

lemma demo_whole_ok: "well_formed demo_whole" "\<not> keeps_connection demo_whole"
  using demo_atoi
  by (simp_all add: demo_whole_def well_formed_def cr_method_def preview_field_def announces_preview_def
      keeps_connection_def demo_requests_ok demo_texts demo_bodies_ok)

lemma script_clients_ok: "list_all2 client script_queue script_clients"
  using demo_session_ok demo_whole_ok
  by (simp add: script_queue_def script_clients_def client_def demo_session_def keeps_connection_def demo_texts)

lemma script_clients_see:
  "clients queue_tick Script queue_accept script_clients 2 script_queue =
    [reply ''ICAP/1.0 204 No modifications needed'' (connection_fields False (e_clock demo_env)) ''null-body=0'' [],
     reply ''ICAP/1.0 200 OK'' (connection_fields False (e_clock demo_env)) ''res-hdr=0, res-body=19''
       (demo_rhdr @ sent_body ''def'')]"
  using demo_whole_ok(2)
  by (simp add: script_clients_def demo_whole_def demo_session_def keeps_connection_def demo_texts queue_tick_def
      echo_text_def echo_fields_def demo_itoa)

section \<open>Pools\<close>

definition demo_manager :: "int list \<Rightarrow> manager_t" where
  "demo_manager ps = \<lparr>mg_worker = False, mg_max_workers = of_nat (length ps), mg_max_worker_requests = 5,
     mg_comm_timeout = 0, mg_workers_count = of_nat (length (filter (\<lambda>p. p \<noteq> 0) ps)), mg_worker_id = 0,
     mg_pool = map (\<lambda>p. \<lparr>wp_pid = p, wp_id = 0, wp_worker = False\<rparr>) ps\<rparr>"

declare demo_manager_def [pool_defs] filled_def [pool_defs] pids_def [pool_defs]
  under_way_def [pool_defs] pending_def [pool_defs] count_inv_def [pool_defs] workers_inv_def [pool_defs]
  full_inv_def [pool_defs] whole_spawn_def [pool_defs] whole_increment_def [pool_defs] pool_ok_def [pool_defs]

section \<open>Forks and signals\<close>

text \<open>Every fork works; children end while the server sleeps, and before it tests the count.\<close>

definition demo_fork :: "nat \<Rightarrow> fork_result \<times> nat" where
  "demo_fork n = (Fork_parent (int (Suc n)), Suc n)"

lemma demo_fork_works: "\<exists>p w'. demo_fork w = (Fork_parent p, w') \<and> 0 < p"
  by (simp add: demo_fork_def)

definition demo_events :: "event list" where
  "demo_events = [Step, Step, Sig_child [1, 2], Step, Sig_child [3], Step, Step]"

lemma demo_events_ok: "reaps_children demo_events"
  "settled sv \<Longrightarrow> undisturbed fork demo_events (entered sv) w"
proof -
  show "reaps_children demo_events" by (auto simp: reaps_children_def demo_events_def)
  assume s: "settled sv"
  then obtain m where m: "sv_manager sv = Live m" "\<not> mg_worker m" by (auto simp: settled_def pool_ok_def)
  show "undisturbed fork demo_events (entered sv) w"
    unfolding demo_events_def
    by (intro undisturbed_ConsI undisturbed_Nil; cases "sv_terminating sv")
      (use m in \<open>auto simp: entered_def process_step_def unblock_def after_handler_def exposed_def reap_worker_rest\<close>)
qed

section \<open>A machine that starts the server\<close>

text \<open>Worlds count the forks; \<open>mkdir\<close> always works.\<close>

definition demo_machine :: "string \<Rightarrow> string \<Rightarrow> nat machine" where
  "demo_machine pid_file log_file =
     \<lparr>mc_sigaction = (\<lambda>_. 0), mc_options = [Opt_config ''bitz.conf''], mc_debug_junk = 0,
      mc_file = (\<lambda>_. \<lparr>lc_read = File_ok, lc_int = [''max_workers'' \<mapsto> 2],
        lc_string = [''pid_file'' \<mapsto> pid_file, ''log_file'' \<mapsto> log_file], lc_handlers = None, lc_modules = None\<rparr>),
      mc_default_file = ''/etc/bitz/bitz-server.conf'', mc_count_junk = (\<lambda>_. 99),
      mc_mkdir = (\<lambda>p w. (Mk_ok, w)),
      mc_daemon = \<lparr>d_fork = 0, d_setsid = 7, d_fork_again = 0, d_chdir = (\<lambda>_. True), d_open = (\<lambda>_ _. 0),
        d_lockf = 0, d_getpid = 4711\<rparr>,
      mc_listen = (\<lambda>_. True), mc_pool_junk = (\<lambda>_. \<lparr>wp_pid = 9, wp_id = 9, wp_worker = True\<rparr>),
      mc_fork = demo_fork\<rparr>"

lemma demo_machine_starts:
  "\<exists>op c. read_options (mc_debug_junk (demo_machine ''/run/bitz.pid'' ''/var/log/bitz.log''))
      (mc_options (demo_machine ''/run/bitz.pid'' ''/var/log/bitz.log'')) = Options op \<and>
    initialise (mc_count_junk (demo_machine ''/run/bitz.pid'' ''/var/log/bitz.log''))
      (mc_file (demo_machine ''/run/bitz.pid'' ''/var/log/bitz.log'')
        (if o_config_file op \<noteq> [] then o_config_file op
         else mc_default_file (demo_machine ''/run/bitz.pid'' ''/var/log/bitz.log''))) new_config = Done c \<and>
    create_directories (mc_mkdir (demo_machine ''/run/bitz.pid'' ''/var/log/bitz.log'')) op c (0 :: nat) =
      Some (Done 0) \<and>
    daemon_works (mc_daemon (demo_machine ''/run/bitz.pid'' ''/var/log/bitz.log''))
      (dirpath (c_pid_file c)) (c_pid_file c) \<and>
    dirpath (c_pid_file c) = ''/run'' \<and> dirpath (c_log_file c) = ''/var/log''"
proof -
  have d: "dirpath ''/run/bitz.pid'' = ''/run''" "dirpath ''/var/log/bitz.log'' = ''/var/log''"
    using dirpath_append [of "''bitz.pid''" "''/run''"] dirpath_append [of "''bitz.log''" "''/var/log''"]
    by simp_all
  have m: "mkdirp (\<lambda>p w. (Mk_ok, w)) p w = Some (True, w)" for p and w :: nat
    by (simp add: mkdirp.simps)
  have i: "length (itoa 4711) < 9" by (simp add: itoa_def num_digits.simps)
  show ?thesis
    using d m i by (simp add: demo_machine_def read_options_def initialise_def lookup_value_def
        read_req_handler_configs_def create_directories_def daemon_works_def new_config_def)
qed

end
