(* ===== verification/PyRefs.thy ===== *)
theory PyRefs
  imports Modpy
begin

text \<open>
  The references to Python objects that \<open>modules/modpy\<close> holds: each function of \<open>py.cpp\<close> and
  \<open>interface.cpp\<close> as the list of the references it gets and gives up, in the order of its calls.
  What a call of the Python C API does to a reference is that of its documentation: a new
  reference, a borrowed one, one that the callee keeps for itself (stolen).
\<close>

section \<open>References\<close>

text \<open>The objects, by the variable or the key they are held under.\<close>

datatype pyobj =
    Sys_path | Module_path | Module_name | Interface_module
  | Method_attr | Call_result | Call_args | Request_capsule
  | Result_dict | Payload_dict | Item string

datatype ref_event =
    New pyobj
  | Borrow pyobj
  | Steal pyobj
  | Hand_over pyobj
  | Decref pyobj

text \<open>
  The references to an object that the code owns after the events: \<open>Steal\<close> is given to a
  container, \<open>Hand_over\<close> to the caller of a function that returns a new reference.
\<close>

fun owned_change :: "ref_event \<Rightarrow> pyobj \<Rightarrow> int" where
  "owned_change (New x) y = (if x = y then 1 else 0)"
| "owned_change (Borrow _) _ = 0"
| "owned_change (Steal x) y = (if x = y then -1 else 0)"
| "owned_change (Hand_over x) y = (if x = y then -1 else 0)"
| "owned_change (Decref x) y = (if x = y then -1 else 0)"

definition owned :: "ref_event list \<Rightarrow> pyobj \<Rightarrow> int" where
  "owned es y = (\<Sum>e\<leftarrow>es. owned_change e y)"

lemma owned_simps [simp]:
  "owned [] y = 0" "owned (e # es) y = owned_change e y + owned es y"
  "owned (es @ es') y = owned es y + owned es' y"
  by (simp_all add: owned_def)

section \<open>The functions\<close>

text \<open>
  The call of \<open>init\<close> or \<open>cleanup\<close>, where it does not raise; the attribute is released even where
  there is none.
\<close>

definition procedure_refs :: "'f attr \<Rightarrow> ref_event list" where
  "procedure_refs a =
     (case a of
        No_attr \<Rightarrow> [Decref Method_attr]
      | Not_callable \<Rightarrow> [New Method_attr, Decref Method_attr]
      | Callable _ \<Rightarrow> [New Method_attr, New Call_result, Decref Call_result, Decref Method_attr])"

definition init_python_refs :: "py_config_t \<Rightarrow> 'w pymodule option \<Rightarrow> ref_event list" where
  "init_python_refs cfg pymodule =
     (if pc_module_path cfg \<noteq> [] then [Borrow Sys_path, New Module_path] else []) @
     [New Module_name] @
     (case pymodule of None \<Rightarrow> [] | Some m \<Rightarrow> New Interface_module # procedure_refs (pm_init m)) @
     [Decref Module_name, Decref Module_path, Decref Sys_path]"

definition python_response_refs :: "'w pymodule option \<Rightarrow> string \<Rightarrow> pyresult \<Rightarrow> ref_event list" where
  "python_response_refs pymodule mth result =
     (case pymodule of
        None \<Rightarrow> []
      | Some m \<Rightarrow>
          (case pm_method m mth of No_attr \<Rightarrow> [] | _ \<Rightarrow> [New Method_attr]) @
          [New Call_args, New Request_capsule, Steal Request_capsule] @
          (case (pm_method m mth, result) of
             (Callable _, Response_capsule _) \<Rightarrow> [New Call_result, Decref Call_result]
           | (Callable _, Other_object) \<Rightarrow> [New Call_result, Decref Call_result]
           | _ \<Rightarrow> []) @
          [Decref Call_args, Decref Method_attr])"

definition cleanup_python_refs :: "'w pymodule option \<Rightarrow> ref_event list" where
  "cleanup_python_refs pymodule =
     (case pymodule of
        None \<Rightarrow> []
      | Some m \<Rightarrow> procedure_refs (pm_cleanup m) @ [Decref Interface_module])"

text \<open>
  \<open>PyDict_SetItemString\<close> takes a reference of its own: the one its argument was made with stays
  with the caller.
\<close>

definition set_item_refs :: "string \<Rightarrow> ref_event list" where
  "set_item_refs k = [New (Item k)]"

definition bitz_get_request_refs :: "request option \<Rightarrow> ref_event list" where
  "bitz_get_request_refs p =
     [New Result_dict] @
     (case p of
        None \<Rightarrow> []
      | Some _ \<Rightarrow>
          concat (map set_item_refs [''request'', ''uri'', ''protocol'']) @
          [New Payload_dict] @
          concat (map set_item_refs [''req_header'', ''req_body'', ''res_header'', ''res_body'', ''ieof'']) @
          [Decref Payload_dict]) @
     [Hand_over Result_dict]"

section \<open>What is owned in the end\<close>

lemma owned_procedure: "a \<noteq> No_attr \<Longrightarrow> owned (procedure_refs a) y = 0"
  by (simp add: procedure_refs_def split: attr.splits)

text \<open>
  The life of one object \<open>Py\<close> that works: everything is released as often as it was obtained,
  but \<open>sys.path\<close>, which was only borrowed, once too often.
\<close>

definition life_refs :: "py_config_t \<Rightarrow> 'w pymodule \<Rightarrow> (string \<times> pyresult) list \<Rightarrow> ref_event list" where
  "life_refs cfg m calls = init_python_refs cfg (Some m) @
     concat (map (\<lambda>(mth, r). python_response_refs (Some m) mth r) calls) @ cleanup_python_refs (Some m)"

lemma owned_response:
  "pm_method m mth \<noteq> No_attr \<Longrightarrow> owned (python_response_refs (Some m) mth r) y = 0"
  by (auto simp: python_response_refs_def split: attr.splits pyresult.splits)

lemma owned_responses:
  "\<forall>(mth, r)\<in>set calls. pm_method m mth \<noteq> No_attr \<Longrightarrow>
    owned (concat (map (\<lambda>(mth, r). python_response_refs (Some m) mth r) calls)) y = 0"
  by (induction calls) (auto simp: owned_response)

lemma owned_life:
  assumes "pc_module_path cfg \<noteq> []" and "pm_init m \<noteq> No_attr" and "pm_cleanup m \<noteq> No_attr"
    and "\<forall>(mth, r)\<in>set calls. pm_method m mth \<noteq> No_attr"
  shows "owned (life_refs cfg m calls) y = (if y = Sys_path then -1 else 0)"
  using assms(1-3) owned_responses [OF assms(4), of y]
  by (simp add: life_refs_def init_python_refs_def cleanup_python_refs_def owned_procedure)

lemma owned_get_request:
  "owned (bitz_get_request_refs (Some rq)) y =
    (case y of Item k \<Rightarrow> (if k \<in> {''request'', ''uri'', ''protocol'', ''req_header'', ''req_body'',
       ''res_header'', ''res_body'', ''ieof''} then 1 else 0) | _ \<Rightarrow> 0)"
  by (cases y) (auto simp: bitz_get_request_refs_def set_item_refs_def)

text \<open>What is defined where a run is.\<close>

lemma defined_use:
  "python_response tick (Some m) mth rq w = Some r \<Longrightarrow> pm_method m mth \<noteq> No_attr"
  by (auto simp: python_response_def Let_def)

lemma defined_procedure: "call_procedure a w = Some w' \<Longrightarrow> a \<noteq> No_attr"
  by (auto simp: call_procedure_def)

lemma defined_init:
  assumes "init_python import_module cfg w = Some (Some m, w')"
  shows "pc_module_path cfg \<noteq> []" and "pm_init m \<noteq> No_attr"
  using assms by (auto simp: init_python_def dest: defined_procedure split: prod.splits option.splits if_splits)

lemma defined_cleanup: "cleanup_python (Some m) w = Some w' \<Longrightarrow> pm_cleanup m \<noteq> No_attr"
  by (auto simp: cleanup_python_def dest: defined_procedure)

end
