(* ===== verification/TestClient.thy ===== *)
theory TestClient
  imports Child
begin

text \<open>
  The test client of the repository, \<open>test/icap-client.py\<close>: five connections, one request each,
  and what is received printed. Its requests are of the kinds \<open>Session\<close> knows, so what a worker
  answers, and what the script prints, follows from the specification.
\<close>

section \<open>The script\<close>

definition client_host :: string where
  "client_host = ''localhost''"

definition client_service :: string where
  "client_service = ''icap://icap.server.net/sample-service''"

text \<open>What each connection is sent, one string per call of \<open>send\<close>.\<close>

definition options_sends :: "string list" where
  "options_sends =
     [''OPTIONS '' @ client_service @ '' ICAP/1.0'' @ CRLF,
      ''Host: '' @ client_host @ CRLF,
      ''User-Agent: Python ICAP tester'' @ CRLF,
      CRLF]"

definition get_sends :: "string list" where
  \<open>get_sends =
     [''REQMOD '' @ client_service @ '' ICAP/1.0'' @ CRLF,
      ''Host: '' @ client_host @ CRLF,
      ''Encapsulated: req-hdr=0, null-body=170'' @ CRLF,
      CRLF,
      ''GET / HTTP/1.1'' @ CRLF,
      ''Host: www.origin-server.com'' @ CRLF,
      ''Accept: text/html, text/plain'' @ CRLF,
      ''Accept-Encoding: compress'' @ CRLF,
      ''Cookie: ff39fk3jur@4ii0e02i'' @ CRLF,
      ''If-None-Match: "xyzzy", "r2d2xxxe"'' @ CRLF,
      CRLF]\<close>

definition post_sends :: "string list" where
  "post_sends =
     [''REQMOD '' @ client_service @ '' ICAP/1.0'' @ CRLF,
      ''Host: '' @ client_host @ CRLF,
      ''Encapsulated: req-hdr=0, req-body=147'' @ CRLF,
      CRLF,
      ''POST /origin-resource/form.pl HTTP/1.1'' @ CRLF,
      ''Host: www.origin-server.com'' @ CRLF,
      ''Accept: text/html, text/plain'' @ CRLF,
      ''Accept-Encoding: compress'' @ CRLF,
      ''Pragma: no-cache'' @ CRLF,
      CRLF,
      ''1e'' @ CRLF,
      ''I am posting this information.'' @ CRLF,
      ''0'' @ CRLF,
      CRLF]"

definition preview_sends :: "string list" where
  "preview_sends =
     [''REQMOD '' @ client_service @ '' ICAP/1.0'' @ CRLF,
      ''Host: '' @ client_host @ CRLF,
      ''Preview: 1024'' @ CRLF,
      ''Encapsulated: req-hdr=0, req-body=147'' @ CRLF,
      CRLF,
      ''POST /origin-resource/form.pl HTTP/1.1'' @ CRLF,
      ''Host: www.origin-server.com'' @ CRLF,
      ''Accept: text/html, text/plain'' @ CRLF,
      ''Accept-Encoding: compress'' @ CRLF,
      ''Pragma: no-cache'' @ CRLF,
      CRLF,
      ''1e'' @ CRLF,
      ''I am posting this information.'' @ CRLF,
      ''0; ieof'' @ CRLF @ CRLF]"

definition respmod_sends :: "string list" where
  \<open>respmod_sends =
     [''RESPMOD '' @ client_service @ '' ICAP/1.0'' @ CRLF,
      ''Host: '' @ client_host @ CRLF,
      ''Encapsulated: req-hdr=0, res-hdr=137, res-body=296'' @ CRLF,
      CRLF,
      ''GET /origin-resource HTTP/1.1'' @ CRLF,
      ''Host: www.origin-server.com'' @ CRLF,
      ''Accept: text/html, text/plain, image/gif'' @ CRLF,
      ''Accept-Encoding: gzip, compress'' @ CRLF,
      CRLF,
      ''HTTP/1.1 200 OK'' @ CRLF,
      ''Date: Mon, 10 Jan 2000 09:52:22 GMT'' @ CRLF,
      ''Server: Apache/1.3.6 (Unix)'' @ CRLF,
      ''ETag: "63840-1ab7-378d415b"'' @ CRLF,
      ''Content-Type: text/html'' @ CRLF,
      ''Content-Length: 51'' @ CRLF,
      CRLF,
      ''33'' @ CRLF,
      ''This is data that was returned by an origin server.'' @ CRLF,
      ''0'' @ CRLF,
      CRLF]\<close>

definition test_script :: "(string \<times> string list) list" where
  "test_script =
     [(''----- OPTIONS -----'', options_sends), (''----- REQMOD - GET -----'', get_sends),
      (''----- REQMOD - POST -----'', post_sends), (''----- REQMOD - Message preview -----'', preview_sends),
      (''----- RESPMOD -----'', respmod_sends)]"

text \<open>
  What becomes of a connection: no socket, no connection, or what the calls of \<open>recv\<close> return, the
  empty string when the other side has closed.
\<close>

datatype connection_end = No_socket | No_connection | Received "string list"

fun recv_all :: "string list \<Rightarrow> string" where
  "recv_all [] = []"
| "recv_all (d # ds) = (if length d = 0 then [] else d @ recv_all ds)"

text \<open>The output of the script and its exit status; the same steps for each connection.\<close>

fun icap_client :: "(string \<times> string list) list \<Rightarrow> connection_end list \<Rightarrow> string \<times> int" where
  "icap_client ((banner, sends) # script) (oc # ocs) =
     (case oc of
        No_socket \<Rightarrow> (banner @ [LF], 1)
      | No_connection \<Rightarrow> (banner @ [LF], 2)
      | Received ds \<Rightarrow>
          case icap_client script ocs of
            (out, status) \<Rightarrow> (banner @ [LF] @ recv_all ds @ [LF] @ out, status))"
| "icap_client script ocs = ([], 0)"

lemma recv_all_pieces: "[] \<notin> set ds \<Longrightarrow> recv_all ds = concat ds"
  by (induction ds) auto

lemma icap_client_received:
  "list_all2 (\<lambda>ds out. [] \<notin> set ds \<and> concat ds = out) pss outs \<Longrightarrow> length outs = length script \<Longrightarrow>
    icap_client script (map Received pss) =
      (concat (map (\<lambda>((banner, _), out). banner @ [LF] @ out @ [LF]) (zip script outs)), 0)"
proof (induction pss outs arbitrary: script rule: list_all2_induct)
  case (Cons ds pss out outs)
  then show ?case by (cases script) (auto simp: recv_all_pieces)
qed simp

section \<open>Its requests\<close>

definition test_line :: "string \<Rightarrow> request_t" where
  "test_line mth = \<lparr>rq_method = mth, rq_uri = client_service, rq_protocol = ''ICAP/1.0''\<rparr>"

definition host_field :: "string \<times> string" where
  "host_field = (''Host'', client_host)"

definition posted_header :: string where
  "posted_header = concat (take 6 (drop 4 post_sends))"

definition posted_data :: string where
  "posted_data = ''I am posting this information.''"

definition returned_data :: string where
  "returned_data = ''This is data that was returned by an origin server.''"

definition got_header :: string where
  "got_header = concat (drop 4 get_sends)"

definition asked_header :: string where
  "asked_header = concat (take 5 (drop 4 respmod_sends))"

definition returned_header :: string where
  "returned_header = concat (take 7 (drop 9 respmod_sends))"

definition test_requests :: "client_request list" where
  "test_requests =
     [\<lparr>cr_line = test_line ''OPTIONS'', cr_fields = [host_field, (''User-Agent'', ''Python ICAP tester'')],
        cr_content = Header_only []\<rparr>,
      \<lparr>cr_line = test_line ''REQMOD'', cr_fields = [host_field], cr_content = Reqmod_bodyless got_header\<rparr>,
      \<lparr>cr_line = test_line ''REQMOD'', cr_fields = [host_field],
        cr_content = Reqmod posted_header ([(''1e'', [], posted_data)], ''0'', [])\<rparr>,
      \<lparr>cr_line = test_line ''REQMOD'', cr_fields = [host_field, (''Preview'', ''1024'')],
        cr_content = Reqmod_whole_preview posted_header ([(''1e'', [], posted_data)], ''0'', ''; ieof'')\<rparr>,
      \<lparr>cr_line = test_line ''RESPMOD'', cr_fields = [host_field],
        cr_content = Respmod asked_header returned_header ([(''33'', [], returned_data)], ''0'', [])\<rparr>]"

lemmas test_texts = posted_header_def posted_data_def returned_data_def got_header_def asked_header_def
  returned_header_def options_sends_def get_sends_def post_sends_def preview_sends_def respmod_sends_def

lemma test_lengths:
  "length got_header = 170" "length posted_header = 147" "length asked_header = 137"
  "length returned_header = 159" "length posted_data = 30" "length returned_data = 51"
  by (simp_all add: test_texts client_service_def client_host_def)

lemma test_itoa: "itoa 0 = ''0''" "itoa 170 = ''170''" "itoa 147 = ''147''" "itoa 137 = ''137''" "itoa 296 = ''296''"
  by (simp_all add: itoa_def digit_char_def num_digits.simps char_of_eq_iff)

lemma test_ends: "posted_header \<noteq> []" "got_header \<noteq> []" "asked_header \<noteq> []" "returned_header \<noteq> []"
  using test_lengths by (metis length_0_conv zero_neq_numeral)+

text \<open>The bytes the script sends are the bytes of these requests.\<close>

lemma test_entities:
  "entities_text (bodyless_entities got_header) = ''req-hdr=0, null-body=170''"
  "entities_text (reqmod_entities posted_header) = ''req-hdr=0, req-body=147''"
  "entities_text (respmod_entities asked_header returned_header) = ''req-hdr=0, res-hdr=137, res-body=296''"
  by (simp_all add: bodyless_entities_def reqmod_entities_def respmod_entities_def entities_text_def
      entity_text_def test_lengths test_itoa)

lemma test_heads:
  "bodyless_entities h \<noteq> []" "reqmod_entities h \<noteq> []" "respmod_entities h h' \<noteq> []"
  by (simp_all add: bodyless_entities_def reqmod_entities_def respmod_entities_def)

lemma test_bytes: "map request_bytes test_requests = map (\<lambda>(_, sends). concat sends) test_script"
  unfolding test_requests_def test_script_def list.map prod.case
proof (intro list.inject [THEN iffD2] conjI refl)
qed (simp_all add: request_bytes_def request_head_def request_lines_def test_line_def field_line_def
    host_field_def client_host_def test_entities test_heads body_text_def chunk_text.simps,
    simp_all add: test_texts client_host_def)

text \<open>They are well formed, and each closes its connection.\<close>

lemma test_bodies:
  "body_ok [(''1e'', [], posted_data)] ''0'' []" "body_ok [(''1e'', [], posted_data)] ''0'' ''; ieof''"
  "body_ok [(''33'', [], returned_data)] ''0'' []" "chunk_extension ''; ieof'' = ''ieof''"
  using test_ends test_lengths(5,6)
  by (simp_all add: body_ok_def size_ok_def ext_ok_def hextodec_def
    positive_def is_space_def chunk_extension_def trim_def ltrim_def rtrim_def digit_val_def num_value_def)
    (auto simp: posted_data_def returned_data_def)

lemma test_requests_ok:
  "request_ok (test_line ''OPTIONS'') [host_field, (''User-Agent'', ''Python ICAP tester'')] []"
  "request_ok (test_line ''REQMOD'') [host_field] (bodyless_entities got_header)"
  "request_ok (test_line ''REQMOD'') [host_field] (reqmod_entities posted_header)"
  "request_ok (test_line ''REQMOD'') [host_field, (''Preview'', ''1024'')] (reqmod_entities posted_header)"
  "request_ok (test_line ''RESPMOD'') [host_field] (respmod_entities asked_header returned_header)"
  by (simp_all add: request_ok_def test_line_def host_field_def client_host_def client_service_def token_def
      positive_def is_space_def field_ok_def trimmed_def request_lines_def test_heads test_entities field_line_def
      header_line_def)
    (simp_all add: entities_ok_def bodyless_entities_def reqmod_entities_def respmod_entities_def entities_def test_lengths)

lemma test_atoi: "0 \<le> atoi ''1024''"
  by code_simp

lemma test_requests_valid: "\<forall>r\<in>set test_requests. well_formed r \<and> \<not> keeps_connection r"
  using test_atoi
  by (simp add: test_requests_def well_formed_def test_requests_ok [unfolded test_line_def host_field_def]
      cr_method_def test_line_def preview_field_def announces_preview_def keeps_connection_def keeps_def
      host_field_def test_bodies test_ends test_lengths chunk_data_def)

section \<open>What the worker answers\<close>

text \<open>Clients with one request each, while the worker has requests left.\<close>

lemma clients_single:
  assumes "\<forall>r\<in>set rs. \<not> keeps_connection r" and "length rs \<le> unat m"
  shows "\<exists>ws. length ws = length rs \<and> clients tick md accept (map (\<lambda>r. [r]) rs) m w =
    map2 (\<lambda>r w. fst (answer tick md r (cr_content r) w)) rs ws"
  using assms
proof (induction rs arbitrary: m w)
  case Nil
  then show ?case by simp
next
  case (Cons r rs)
  have m: "0 < m" using Cons.prems(2) by (auto simp: word_gt_0)
  let ?w = "snd (accept w)"
  obtain t w1 where a: "answer tick md r (cr_content r) ?w = (t, w1)" by fastforce
  have "length rs \<le> unat (m - 1)" using Cons.prems(2) m unat_dec [of m] by (simp add: word_gt_0)
  then obtain ws where ws: "length ws = length rs" "clients tick md accept (map (\<lambda>r. [r]) rs) (m - 1) w1 =
      map2 (\<lambda>r w. fst (answer tick md r (cr_content r) w)) rs ws"
    using Cons.IH [of "m - 1" w1] Cons.prems(1) by auto
  have "clients tick md accept (map (\<lambda>r. [r]) (r # rs)) m w = t # clients tick md accept (map (\<lambda>r. [r]) rs) (m - 1) w1"
    using m a Cons.prems(1) by simp
  with ws a show ?case by (intro exI [of _ "?w # ws"]) simp
qed

text \<open>The answers, by the readings of the clock.\<close>

definition test_answers :: "module \<Rightarrow> clock \<Rightarrow> clock \<Rightarrow> clock \<Rightarrow> clock \<Rightarrow> clock \<Rightarrow> string list" where
  "test_answers md c1 c2 c3 c4 c5 =
     [reply ''ICAP/1.0 200 OK'' (options_fields False c1) ''null-body=0'' [],
      reply ''ICAP/1.0 200 OK'' (connection_fields False c2) ''req-hdr=0, null-body=170'' got_header,
      reply ''ICAP/1.0 200 OK'' (connection_fields False c3) ''req-hdr=0, req-body=147''
        (posted_header @ sent_body posted_data),
      (case md of
         Echo \<Rightarrow> reply ''ICAP/1.0 500 Server error'' (connection_fields False c4) ''null-body=0'' []
       | Script \<Rightarrow> reply ''ICAP/1.0 204 No modifications needed'' (connection_fields False c4) ''null-body=0'' []),
      reply ''ICAP/1.0 200 OK'' (connection_fields False c5) ''res-hdr=0, res-body=159''
        (returned_header @ sent_body returned_data)]"

lemma test_answered:
  assumes "length ws = 5"
  shows "\<exists>c1 c2 c3 c4 c5. map2 (\<lambda>r w. fst (answer tick md r (cr_content r) w)) test_requests ws =
    test_answers md c1 c2 c3 c4 c5"
proof -
  obtain w1 w2 w3 w4 w5 where ws: "ws = [w1, w2, w3, w4, w5]"
    using assms by (auto simp: eval_nat_numeral length_Suc_conv)
  let ?c = "\<lambda>w. e_clock (fst (tick w))"
  let ?c4 = "case md of Echo \<Rightarrow> ?c (snd (tick w4)) | Script \<Rightarrow> ?c w4"
  have i: "itoa 159 = ''159''" by (simp add: itoa_def digit_char_def num_digits.simps char_of_eq_iff)
  have "map2 (\<lambda>r w. fst (answer tick md r (cr_content r) w)) test_requests ws =
      test_answers md (?c w1) (?c w2) (?c w3) ?c4 (?c w5)"
    using test_ends test_lengths
    by (cases md) (auto simp: ws test_requests_def test_answers_def keeps_connection_def keeps_def host_field_def
        cr_method_def test_line_def echo_text_def echo_fields_def test_itoa i sent_body_def body_data_def
        chunk_data_def split: prod.splits)
  then show ?thesis by blast
qed

text \<open>The whole: five connections served by one worker, and what the script prints.\<close>

definition test_output :: "string list \<Rightarrow> string" where
  "test_output outs = concat (map2 (\<lambda>(banner, _) out. banner @ [LF] @ out @ [LF]) test_script outs)"

lemma test_connections:
  assumes "list_all2 (\<lambda>s (_, sends). live s \<and> s_out s = [] \<and> s_in s = concat sends) ss test_script"
  shows "list_all2 client ss (map (\<lambda>r. [r]) test_requests)"
proof -
  have len: "length test_requests = length test_script" by (simp add: test_requests_def test_script_def)
  have b: "request_bytes (test_requests ! i) = concat (snd (test_script ! i))" if "i < length test_script" for i
    using test_bytes that len by (metis (no_types, lifting) case_prod_beta nth_map)
  have v: "well_formed (test_requests ! i) \<and> \<not> keeps_connection (test_requests ! i)" if "i < length test_script" for i
    using test_requests_valid that len by simp
  show ?thesis
    using assms len b v by (auto simp: list_all2_conv_all_nth client_def case_prod_unfold)
qed

lemma test_client_served:
  assumes "module_configured tick md linker c" and "queued tick accept q"
    and "\<And>s. timeout (mg_comm_timeout m) s = Some s" and "5 \<le> unat (mg_max_worker_requests m)"
    and "list_all2 (\<lambda>s (_, sends). live s \<and> s_out s = [] \<and> s_in s = concat sends) (q w) test_script"
  shows "\<exists>closed deleted w' c1 c2 c3 c4 c5.
    worker_process linker junk c tick accept timeout m w = Some (closed, deleted, w') \<and>
    map s_out closed = test_answers md c1 c2 c3 c4 c5 \<and>
    (\<forall>pss. list_all2 (\<lambda>ds s. [] \<notin> set ds \<and> concat ds = s_out s) pss closed \<longrightarrow>
      icap_client test_script (map Received pss) = (test_output (test_answers md c1 c2 c3 c4 c5), 0))"
proof -
  have "list_all2 client (q w) (map (\<lambda>r. [r]) test_requests)" by (rule test_connections [OF assms(5)])
  from worker_process_clients [where timeout = timeout and m = m and junk = junk, OF assms(1,2,3) this]
  obtain closed deleted w' where
    wp: "worker_process linker junk c tick accept timeout m w = Some (closed, deleted, w')"
      "map s_out closed = clients tick md accept (map (\<lambda>r. [r]) test_requests) (mg_max_worker_requests m) w"
    by blast
  have len: "length test_requests = 5" by (simp add: test_requests_def)
  obtain ws where ws: "length ws = 5" "map s_out closed =
      map2 (\<lambda>r w. fst (answer tick md r (cr_content r) w)) test_requests ws"
    using clients_single [of test_requests "mg_max_worker_requests m" tick md accept w] test_requests_valid
      assms(4) len wp(2) by auto
  obtain c1 c2 c3 c4 c5 where out: "map s_out closed = test_answers md c1 c2 c3 c4 c5"
    using test_answered [OF ws(1), of tick md] ws(2) by metis
  have "icap_client test_script (map Received pss) = (test_output (test_answers md c1 c2 c3 c4 c5), 0)"
    if "list_all2 (\<lambda>ds s. [] \<notin> set ds \<and> concat ds = s_out s) pss closed" for pss
  proof -
    have "list_all2 (\<lambda>ds out. [] \<notin> set ds \<and> concat ds = out) pss (test_answers md c1 c2 c3 c4 c5)"
      using that by (simp flip: out add: list_all2_map2)
    from icap_client_received [OF this, of test_script] show ?thesis
      by (simp add: test_output_def test_answers_def test_script_def case_prod_unfold)
  qed
  with wp(1) out show ?thesis by blast
qed

end
