(* ===== verification/WireReference.thy ===== *)
theory WireReference
  imports IcapExchange
begin

text \<open>
  What a request is, as a function of the bytes alone: a reference for every reader of
  \<open>lib/icap/util.cpp\<close>, on whatever a client may send. A reader takes characters one by one, or
  buffers of 1024, and tests the stream as it goes; its reference cuts a string. On a connection
  whose reads do not raise the two are the same.
\<close>

section \<open>Readers and their references\<close>

text \<open>What is still to be read; None when the stream is not good any more.\<close>

definition unread :: "sock \<Rightarrow> string option" where
  "unread s = (if s_good s then Some (s_in s) else None)"

definition quiet :: "sock \<Rightarrow> bool" where
  "quiet s \<longleftrightarrow> \<not> (\<exists>b\<in>set (s_rthrow s). b)"

text \<open>The reference is given the values of uninitialised locals, by the length of the input.\<close>

type_synonym 'a reference = "(nat \<Rightarrow> u32) \<Rightarrow> string option \<Rightarrow> 'a \<times> string option"

locale reads_as = stream_reader rd for rd :: "sock \<Rightarrow> 'a \<times> sock" +
  fixes ref :: "'a reference"
  assumes as_ref: "quiet s \<Longrightarrow> quiet (snd (rd s)) \<and> apsnd unread (rd s) = ref (s_junk s) (unread s)"
begin

lemma reads_ref: "quiet s \<Longrightarrow> rd s = (x, s') \<Longrightarrow>
    quiet s' \<and> s_junk s' = s_junk s \<and> ref (s_junk s) (unread s) = (x, unread s')"
  using as_ref [of s] reader_junk [of s] by simp

end

lemma reads_as_pure: "reads_as (\<lambda>s. (x, s)) (\<lambda>j st. (x, st))"
  by unfold_locales simp_all

lemma reads_as_then:
  assumes f: "reads_as f f'" and g: "\<And>x. reads_as (g x) (g' x)"
  shows "reads_as (\<lambda>s. case f s of (x, s') \<Rightarrow> g x s') (\<lambda>j st. case f' j st of (x, st') \<Rightarrow> g' x j st')"
proof (intro_locales; unfold_locales)
  fix s
  obtain x s1 where s1: "f s = (x, s1)" by fastforce
  have cg: "consumed s (snd (g y s))" for y s
    using stream_reader.consumes [OF reads_as.axioms(1) [OF g]] .
  show "consumed s (snd (case f s of (x, s') \<Rightarrow> g x s'))"
    using stream_reader.consumes [OF reads_as.axioms(1) [OF f], of s] s1 cg consumed_trans by auto
  assume q: "quiet s"
  note a = reads_as.reads_ref [OF f q s1]
  obtain y s2 where s2: "g x s1 = (y, s2)" by fastforce
  have "quiet s1" using a by simp
  note b = reads_as.reads_ref [OF g this s2]
  show "quiet (snd (case f s of (x, s') \<Rightarrow> g x s')) \<and>
      apsnd unread (case f s of (x, s') \<Rightarrow> g x s') = (case f' (s_junk s) (unread s) of (x, st') \<Rightarrow> g' x (s_junk s) st')"
    using a b s1 s2 by simp
qed

lemma reads_as_result:
  "reads_as f f' \<Longrightarrow> reads_as (\<lambda>s. case f s of (x, s') \<Rightarrow> (h x, s')) (\<lambda>j st. case f' j st of (x, st') \<Rightarrow> (h x, st'))"
  by (erule reads_as_then [where g = "\<lambda>x s. (h x, s)" and g' = "\<lambda>x j st. (h x, st)"]) (rule reads_as_pure)

section \<open>Lines\<close>

text \<open>Where the first end of line is.\<close>

fun crlf_at :: "string \<Rightarrow> nat option" where
  "crlf_at (a # b # r) = (if a = CR \<and> b = LF then Some 0 else map_option Suc (crlf_at (b # r)))"
| "crlf_at _ = None"

text \<open>
  A line ends with an end of line, with a byte that is not positive, which is taken too, or with
  the input.
\<close>

definition line_of :: "bool \<Rightarrow> string option \<Rightarrow> string \<times> string option" where
  "line_of incl st =
     (case st of
        None \<Rightarrow> ([], None)
      | Some i \<Rightarrow>
          let p = takeWhile positive i
          in case crlf_at p of
               Some k \<Rightarrow> (take k i @ (if incl then CRLF else []), Some (drop (k + 2) i))
             | None \<Rightarrow> (p, if p = i then None else Some (drop (Suc (length p)) i)))"

text \<open>The line of the version with a buffer: no longer than the buffer, of which one byte ends it.\<close>

definition buffered_line_of :: "nat \<Rightarrow> string option \<Rightarrow> string \<times> string option" where
  "buffered_line_of n st =
     (case st of
        None \<Rightarrow> ([], None)
      | Some i \<Rightarrow>
          let p = takeWhile positive (take n i)
          in case crlf_at p of
               Some k \<Rightarrow> (take (k + 2) i, Some (drop (k + 2) i))
             | None \<Rightarrow> (p, if length p = n then Some (drop n i) else if p = i then None
                           else Some (drop (Suc (length p)) i)))"

lemma crlf_at_Cons: "a \<noteq> CR \<Longrightarrow> crlf_at (a # p) = map_option Suc (crlf_at p)"
  by (cases p) auto

lemma crlf_at_split: "crlf_at p = Some k \<Longrightarrow> p = take k p @ CRLF @ drop (k + 2) p"
  by (induction p arbitrary: k rule: crlf_at.induct) (auto split: if_splits)

lemma positive_CR [simp]: "positive CR"
  by (simp add: positive_def)

lemma crlf_at_length: "crlf_at p = Some k \<Longrightarrow> k + 2 \<le> length p"
  by (induction p arbitrary: k rule: crlf_at.induct) (auto split: if_splits)

definition stopped :: "sock \<Rightarrow> sock" where
  "stopped s = s\<lparr>s_gcount := 0, s_in := [], s_good := False, s_timedout := s_timedout s \<or> s_tmo s\<rparr>"

lemma read_line_loop_cut:
  assumes "s_good s"
  shows "read_line_loop incl line c_last s =
    (let p = takeWhile positive (s_in s)
     in case crlf_at (c_last # p) of
          Some k \<Rightarrow> (if incl then line @ take (k + 1) p else take (length line + k - 1) (line @ p),
                     s\<lparr>s_gcount := 1, s_in := drop (k + 1) (s_in s)\<rparr>)
        | None \<Rightarrow> (line @ p, if p = s_in s then stopped s
                             else s\<lparr>s_gcount := 1, s_in := drop (Suc (length p)) (s_in s)\<rparr>))"
  using assms
proof (induction "s_in s" arbitrary: line c_last s)
  case Nil
  then have "sock_get s = (None, stopped s)" by (simp add: sock_get_def stopped_def)
  with Nil.hyps [symmetric] show ?case by (subst read_line_loop.simps) simp
next
  case (Cons c i)
  let ?s = "s\<lparr>s_gcount := 1, s_in := i\<rparr>"
  have g: "sock_get s = (Some c, ?s)" using Cons.hyps(2) Cons.prems by (simp add: sock_get_def flip: Cons.hyps(2))
  have si: "s_in ?s = i" "s_good ?s" using Cons.prems by simp_all
  note ih = Cons.hyps(1) [where s = ?s and line = "line @ [c]" and c_last = c, OF si(1) [symmetric] si(2), unfolded si(1)]
  show ?case
  proof (cases "positive c")
    case False
    with g show ?thesis by (subst read_line_loop.simps) (simp flip: Cons.hyps(2))
  next
    case pos: True
    show ?thesis
    proof (cases "c_last = CR \<and> c = LF")
      case True
      with g pos show ?thesis by (subst read_line_loop.simps) (simp flip: Cons.hyps(2))
    next
      case False
      then have "read_line_loop incl line c_last s = read_line_loop incl (line @ [c]) c ?s"
        using g pos by (subst read_line_loop.simps) auto
      then show ?thesis
        unfolding ih using pos False
        by (auto simp: Let_def stopped_def simp flip: Cons.hyps(2) split: option.splits)
    qed
  qed
qed

lemma take_crlf: "crlf_at p = Some k \<Longrightarrow> take (k + 2) p = take k p @ CRLF"
proof -
  assume k: "crlf_at p = Some k"
  have "take (k + 2) p = take (k + 2) (take k p @ CRLF @ drop (k + 2) p)" using crlf_at_split [OF k] by simp
  also have "\<dots> = take k p @ CRLF" using crlf_at_length [OF k] by simp
  finally show ?thesis .
qed

lemma take_takeWhile: "n \<le> length (takeWhile P xs) \<Longrightarrow> take n (takeWhile P xs) = take n xs"
  by (metis append_take_drop_id nat_le_linear take_all_iff take_append takeWhile_eq_take take_take min.absorb1)

lemma positive_start: "\<not> positive c \<Longrightarrow> c \<noteq> CR"
  by auto

lemma read_line_cut:
  assumes "s_good s"
  shows "read_line incl s =
    (let p = takeWhile positive (s_in s)
     in case crlf_at p of
          Some k \<Rightarrow> (take k (s_in s) @ (if incl then CRLF else []), s\<lparr>s_gcount := 1, s_in := drop (k + 2) (s_in s)\<rparr>)
        | None \<Rightarrow> (p, if p = s_in s then stopped s
                      else s\<lparr>s_gcount := 1, s_in := drop (Suc (length p)) (s_in s)\<rparr>))"
proof -
  let ?p = "takeWhile positive (s_in s)"
  have z: "CHR 0x00 \<noteq> CR" by (rule positive_start) (simp add: positive_def)
  note c = read_line_loop_cut [OF assms, of incl "[]" "CHR 0x00", unfolded crlf_at_Cons [OF z]]
  show ?thesis
  proof (cases "crlf_at ?p")
    case None
    with c show ?thesis by (simp add: read_line_def)
  next
    case (Some k)
    have "take k ?p = take k (s_in s)" by (rule take_takeWhile) (use crlf_at_length [OF Some] in simp)
    with c Some take_crlf [OF Some] show ?thesis by (simp add: read_line_def)
  qed
qed

interpretation rline: reads_as "read_line incl" "\<lambda>_. line_of incl" for incl
proof (intro_locales; unfold_locales)
  fix s
  assume q: "quiet s"
  show "quiet (snd (read_line incl s)) \<and> apsnd unread (read_line incl s) = line_of incl (unread s)"
  proof (cases "s_good s")
    case True
    with q show ?thesis
      by (auto simp: read_line_cut line_of_def unread_def quiet_def stopped_def Let_def split: option.splits)
  next
    case False
    then have "read_line incl s = ([], s\<lparr>s_gcount := 0\<rparr>)"
      by (simp add: read_line_def read_line_loop.simps [of incl "[]" _ s] sock_get_def)
    with q False show ?thesis by (simp add: line_of_def unread_def quiet_def)
  qed
qed

lemma read_line_buf_loop_cut:
  assumes "s_good s" and "int (length buf) + int n = N - 1"
  shows "read_line_buf_loop N True buf c_last s =
    (let p = takeWhile positive (take n (s_in s))
     in case crlf_at (c_last # p) of
          Some k \<Rightarrow> (buf @ take (k + 1) p, s\<lparr>s_gcount := 1, s_in := drop (k + 1) (s_in s)\<rparr>)
        | None \<Rightarrow> (buf @ p,
            if length p = n then (if n = 0 then s else s\<lparr>s_gcount := 1, s_in := drop n (s_in s)\<rparr>)
            else if p = s_in s then stopped s
            else s\<lparr>s_gcount := 1, s_in := drop (Suc (length p)) (s_in s)\<rparr>))"
  using assms
proof (induction n arbitrary: buf c_last s)
  case 0
  then show ?case by (subst read_line_buf_loop.simps) (simp add: Let_def)
next
  case (Suc n)
  have room: "int (length buf) < N - 1" using Suc.prems(2) by simp
  show ?case
  proof (cases "s_in s")
    case Nil
    then have "sock_get s = (None, stopped s)" using Suc.prems by (simp add: sock_get_def stopped_def)
    with Nil room show ?thesis by (subst read_line_buf_loop.simps) simp
  next
    case (Cons c i)
    let ?s = "s\<lparr>s_gcount := 1, s_in := i\<rparr>"
    have g: "sock_get s = (Some c, ?s)" using Cons Suc.prems by (simp add: sock_get_def)
    have si: "s_in ?s = i" "s_good ?s" "int (length (buf @ [c])) + int n = N - 1" using Suc.prems by simp_all
    note ih = Suc.IH [where s = ?s and buf = "buf @ [c]" and c_last = c, OF si(2,3), unfolded si(1)]
    show ?thesis
    proof (cases "positive c")
      case False
      with g room Cons show ?thesis by (subst read_line_buf_loop.simps) simp
    next
      case pos: True
      show ?thesis
      proof (cases "c_last = CR \<and> c = LF")
        case True
        with g pos room Cons show ?thesis by (subst read_line_buf_loop.simps) simp
      next
        case False
        then have "read_line_buf_loop N True buf c_last s = read_line_buf_loop N True (buf @ [c]) c ?s"
          using g pos room by (subst read_line_buf_loop.simps) auto
        then show ?thesis
          unfolding ih using pos False Cons
          by (auto simp: Let_def stopped_def split: option.splits)
      qed
    qed
  qed
qed

text \<open>The buffer of \<open>read_req_header\<close> takes 1023 characters.\<close>

interpretation rbuf: reads_as "read_line_buf ICAP_BUFFER_SIZE True"
  "\<lambda>_ st. case buffered_line_of 1023 st of (l, st') \<Rightarrow> ((int (length l), l), st')"
proof (intro_locales; unfold_locales)
  fix s
  assume q: "quiet s"
  have z: "CHR 0x00 \<noteq> CR" by (rule positive_start) (simp add: positive_def)
  show "quiet (snd (read_line_buf ICAP_BUFFER_SIZE True s)) \<and> apsnd unread (read_line_buf ICAP_BUFFER_SIZE True s) =
      (case buffered_line_of 1023 (unread s) of (l, st') \<Rightarrow> ((int (length l), l), st'))"
  proof (cases "s_good s")
    case True
    let ?p = "takeWhile positive (take 1023 (s_in s))"
    have "int (length []) + int 1023 = ICAP_BUFFER_SIZE - 1" by (simp add: ICAP_BUFFER_SIZE_def)
    note c = read_line_buf_loop_cut [OF True this, of "CHR 0x00", unfolded crlf_at_Cons [OF z]]
    show ?thesis
    proof (cases "crlf_at ?p")
      case None
      with c q True show ?thesis
        by (auto simp: read_line_buf_def buffered_line_of_def unread_def quiet_def stopped_def Let_def)
    next
      case (Some k)
      have k: "k + 2 \<le> length ?p" by (rule crlf_at_length [OF Some])
      have "length ?p \<le> 1023" by (metis length_takeWhile_le length_take min.bounded_iff)
      then have "take (k + 2) ?p = take (k + 2) (s_in s)"
        using take_takeWhile [of "k + 2" positive "take 1023 (s_in s)"] k by simp
      with c Some q True show ?thesis
        by (simp add: read_line_buf_def buffered_line_of_def unread_def quiet_def Let_def)
    qed
  next
    case False
    then have "read_line_buf ICAP_BUFFER_SIZE True s = ((0, []), s\<lparr>s_gcount := 0\<rparr>)"
      by (simp add: read_line_buf_def read_line_buf_loop.simps [of _ _ "[]" _ s] sock_get_def ICAP_BUFFER_SIZE_def)
    with q False show ?thesis by (simp add: buffered_line_of_def unread_def quiet_def)
  qed
qed

section \<open>The header section\<close>

definition unread_size :: "string option \<Rightarrow> nat" where
  "unread_size st = (case st of None \<Rightarrow> 0 | Some i \<Rightarrow> Suc (length i))"

lemma buffered_line_shorter:
  assumes "(l, st') = buffered_line_of n st" and "l \<noteq> []"
  shows "unread_size st' < unread_size st"
proof (cases st)
  case None
  with assms show ?thesis by (simp add: buffered_line_of_def)
next
  case (Some i)
  have "i \<noteq> []" using assms Some by (auto simp: buffered_line_of_def)
  moreover have "n \<noteq> 0"
  proof
    assume "n = 0"
    with assms Some show False by (simp add: buffered_line_of_def)
  qed
  ultimately show ?thesis using assms(1) Some
    by (auto simp: buffered_line_of_def unread_size_def Let_def split: option.splits if_splits)
qed

text \<open>The lines longer than an end of line, up to the first that is not; that one is dropped.\<close>

function header_text_of :: "string \<Rightarrow> string option \<Rightarrow> string \<times> string option" where
  "header_text_of data st =
     (case buffered_line_of 1023 st of
        (l, st') \<Rightarrow> if 2 < length l then header_text_of (data @ l) st' else (data, st'))"
  by pat_completeness auto
termination
  by (relation "measure (unread_size \<circ> snd)") (auto dest: buffered_line_shorter)

declare header_text_of.simps [simp del]

lemma read_header_lines_ref:
  assumes "quiet s"
  shows "quiet (snd (read_header_lines data s)) \<and> apsnd unread (read_header_lines data s) = header_text_of data (unread s)"
  using assms
proof (induction data s rule: read_header_lines.induct)
  case (1 data s)
  obtain n b s1 where r: "read_line_buf ICAP_BUFFER_SIZE True s = ((n, b), s1)" by (metis prod.exhaust)
  have a: "quiet s1" "buffered_line_of 1023 (unread s) = (b, unread s1)" "n = int (length b)"
    using rbuf.reads_ref [OF 1(2) r] by (auto split: prod.splits)
  show ?case
    using 1(1) [OF r [symmetric] refl _ a(1)] r a
    by (subst header_text_of.simps, subst (1 2) read_header_lines.simps) auto
qed

definition header_of :: "string option \<Rightarrow> request_header \<times> string option" where
  "header_of st = (case header_text_of [] st of (data, st') \<Rightarrow> (new_request_header data, st'))"

interpretation rheader: reads_as read_req_header "\<lambda>_. header_of"
proof (intro_locales; unfold_locales)
  fix s
  assume "quiet s"
  from read_header_lines_ref [OF this, of "[]"]
  show "quiet (snd (read_req_header s)) \<and> apsnd unread (read_req_header s) = header_of (unread s)"
    by (auto simp: read_req_header_def header_of_def apsnd_def map_prod_def split: prod.splits)
qed

section \<open>Counted data\<close>

text \<open>Data that is not there in full is cut to whole buffers.\<close>

definition data_of :: "int \<Rightarrow> string option \<Rightarrow> string \<times> string option" where
  "data_of sz st =
     (if sz \<le> 0 then ([], st)
      else case st of
        None \<Rightarrow> ([], None)
      | Some i \<Rightarrow>
          if nat sz \<le> length i then (take (nat sz) i, Some (drop (nat sz) i))
          else (take (1024 * (length i div 1024)) i, None))"

lemma quiet_hd: "quiet s \<Longrightarrow> \<not> (s_rthrow s \<noteq> [] \<and> hd (s_rthrow s))"
  by (cases "s_rthrow s") (auto simp: quiet_def)

lemma sock_read_quiet:
  assumes "quiet s" and "s_good s"
  shows "\<exists>s'. sock_read n s = (Some (take n (s_in s)), s') \<and> quiet s' \<and> s_gcount s' = min n (length (s_in s)) \<and>
    unread s' = (if n \<le> length (s_in s) then Some (drop n (s_in s)) else None)"
  using assms quiet_hd [OF assms(1)]
  by (cases "s_rthrow s") (auto simp: sock_read_def Let_def unread_def quiet_def)

lemma data_of_step:
  assumes "1024 < sz" and "1024 \<le> length i"
  shows "data_of sz (Some i) =
    (case data_of (sz - 1024) (Some (drop 1024 i)) of (d, st') \<Rightarrow> (take 1024 i @ d, st'))"
proof -
  have n: "nat sz = 1024 + nat (sz - 1024)" using assms(1) by simp
  have d: "length i div 1024 = Suc ((length i - 1024) div 1024)" using assms(2) by (simp add: le_div_geq)
  show ?thesis
    using assms unfolding data_of_def option.case n by (auto simp: take_add d add.commute)
qed

lemma read_data_loop_ref:
  assumes "quiet s"
  shows "quiet (snd (read_data_loop sz data s)) \<and>
    apsnd unread (read_data_loop sz data s) = (case data_of sz (unread s) of (d, st') \<Rightarrow> (data @ d, st'))"
  using assms
proof (induction sz data s rule: read_data_loop.induct)
  case (1 sz data s)
  note unf = read_data_loop.simps [of sz data s]
  show ?case
  proof (cases "0 < sz")
    case False
    with 1(3) show ?thesis by (simp add: unf data_of_def)
  next
    case pos: True
    let ?n = "nat (min sz ICAP_BUFFER_SIZE)"
    show ?thesis
    proof (cases "s_good s")
      case False
      with 1(3) pos show ?thesis by (simp add: unf sock_read_def data_of_def unread_def quiet_def)
    next
      case good: True
      obtain s1 where s1: "sock_read ?n s = (Some (take ?n (s_in s)), s1)" "quiet s1"
          "s_gcount s1 = min ?n (length (s_in s))"
          "unread s1 = (if ?n \<le> length (s_in s) then Some (drop ?n (s_in s)) else None)"
        using sock_read_quiet [OF 1(3) good, of ?n] by blast
      show ?thesis
      proof (cases "?n \<le> length (s_in s)")
        case False
        then have "\<not> s_good s1" "unread s1 = None" using s1(4) by (auto simp: unread_def split: if_splits)
        moreover have "length (s_in s) < 1024" "length (s_in s) < nat sz"
          using False by (simp_all add: ICAP_BUFFER_SIZE_def)
        ultimately show ?thesis
          using pos s1(1,2) good by (simp add: unf data_of_def unread_def)
      next
        case True
        then have g: "s_good s1" "s_gcount s1 = ?n" "unread s1 = Some (drop ?n (s_in s))" "unread s = Some (s_in s)"
          using s1(3,4) good by (auto simp: unread_def split: if_splits)
        have "read_data_loop sz data s = read_data_loop (sz - int ?n) (data @ take ?n (s_in s)) s1"
          using pos s1(1) g(1,2) by (simp add: unf)
        moreover have "quiet (snd (read_data_loop (sz - int ?n) (data @ take ?n (s_in s)) s1)) \<and>
            apsnd unread (read_data_loop (sz - int ?n) (data @ take ?n (s_in s)) s1) =
              (case data_of (sz - int ?n) (unread s1) of (d, st') \<Rightarrow> ((data @ take ?n (s_in s)) @ d, st'))"
          using 1(2) [OF pos s1(1) [symmetric] refl _ s1(2)] g(1,2) by simp
        moreover have "data_of sz (unread s) =
            (case data_of (sz - int ?n) (unread s1) of (d, st') \<Rightarrow> (take ?n (s_in s) @ d, st'))"
        proof (cases "sz \<le> 1024")
          case True
          with pos \<open>?n \<le> length (s_in s)\<close> show ?thesis
            by (simp add: g(3,4) ICAP_BUFFER_SIZE_def data_of_def)
        next
          case False
          with data_of_step [of sz "s_in s"] \<open>?n \<le> length (s_in s)\<close> show ?thesis
            by (simp add: g(3,4) ICAP_BUFFER_SIZE_def)
        qed
        ultimately show ?thesis by (simp split: prod.splits)
      qed
    qed
  qed
qed

interpretation rdata_ref: reads_as "read_data sz" "\<lambda>_. data_of sz" for sz
proof (intro_locales; unfold_locales)
  fix s
  assume "quiet s"
  from read_data_loop_ref [OF this, of sz "[]"]
  show "quiet (snd (read_data sz s)) \<and> apsnd unread (read_data sz s) = data_of sz (unread s)"
    by (simp add: read_data_def)
qed

section \<open>Chunks\<close>

text \<open>What a chunk header says; the size of one that is no number is the first argument.\<close>

definition chunk_head :: "u32 \<Rightarrow> string \<Rightarrow> chunk_t" where
  "chunk_head junk line =
     (let fields = split line '';'' in
      \<lparr>ck_size = (if fields ! 0 = [] then 0 else hextodec junk (fields ! 0)),
       ck_extention = (if length fields = 2 then trim (fields ! 1) else []), ck_data = []\<rparr>)"

definition here :: "string option \<Rightarrow> nat" where
  "here st = (case st of None \<Rightarrow> 0 | Some i \<Rightarrow> length i)"

definition chunk_of :: "chunk_t reference" where
  "chunk_of junk st =
     (case line_of False st of
        (line, st1) \<Rightarrow>
          let c = chunk_head (junk (here st1)) line
          in case (if 0 < ck_size c then data_of (sint (ck_size c)) st1 else ([], st1)) of
               (d, st2) \<Rightarrow> (c\<lparr>ck_data := d\<rparr>, snd (data_of 2 st2)))"

lemma read_line_junk:
  assumes "read_line False s = (line, s')" and "line \<noteq> []"
  shows "junk_here s' = s_junk s (here (unread s'))"
proof (cases "s_good s")
  case True
  with assms show ?thesis
    by (auto simp: read_line_cut Let_def stopped_def unread_def here_def junk_here_def split: option.splits if_splits)
next
  case False
  with assms show ?thesis
    by (simp add: read_line_def read_line_loop.simps [of False "[]" _ s] sock_get_def)
qed

lemma read_chunk_header_head:
  assumes "read_line False s = (line, s')"
  shows "read_chunk_header \<lparr>ck_size = 0, ck_extention = [], ck_data = []\<rparr> s =
    (chunk_head (s_junk s (here (unread s'))) line, s')"
proof -
  have "split line '';'' ! 0 = []" if "line = []" using that split_none [of "[]" "'';''"] by simp
  with read_line_junk [OF assms] have "junk_here s' = s_junk s (here (unread s')) \<or> split line '';'' ! 0 = []" by blast
  with assms show ?thesis by (auto simp: read_chunk_header_def chunk_head_def Let_def)
qed

interpretation rchunk: reads_as read_chunk chunk_of
proof (intro_locales; unfold_locales)
  fix s
  assume q: "quiet s"
  obtain line s1 where l: "read_line False s = (line, s1)" by fastforce
  note a = rline.reads_ref [OF q l]
  let ?c = "chunk_head (s_junk s (here (unread s1))) line"
  obtain d s2 where d: "(if 0 < ck_size ?c then read_data (sint (ck_size ?c)) s1 else ([], s1)) = (d, s2)"
    by fastforce
  have b: "quiet s2 \<and> s_junk s2 = s_junk s \<and>
      (if 0 < ck_size ?c then data_of (sint (ck_size ?c)) (unread s1) else ([], unread s1)) = (d, unread s2)"
    using rdata_ref.reads_ref [of s1 "sint (ck_size ?c)" d s2] a d by (auto split: if_splits)
  obtain e s3 where e: "read_data 2 s2 = (e, s3)" by fastforce
  have c: "quiet s3 \<and> s_junk s3 = s_junk s \<and> data_of 2 (unread s2) = (e, unread s3)"
    using rdata_ref.reads_ref [OF _ e] b by simp
  have "ck_data ?c = []" by (simp add: chunk_head_def Let_def)
  then have "?c\<lparr>ck_data := []\<rparr> = ?c" by simp
  then have "read_chunk s = (?c\<lparr>ck_data := d\<rparr>, s3)"
    using d e by (auto simp: read_chunk_def Let_def read_chunk_header_head [OF l] split: if_splits prod.splits)
  moreover have "chunk_of (s_junk s) (unread s) = (?c\<lparr>ck_data := d\<rparr>, unread s3)"
    using a b c by (simp add: chunk_of_def Let_def)
  ultimately show "quiet (snd (read_chunk s)) \<and> apsnd unread (read_chunk s) = chunk_of (s_junk s) (unread s)"
    using c by simp
qed

lemma line_of_size: "line_of incl st = (l, st') \<Longrightarrow> unread_size st' \<le> unread_size st"
  by (auto simp: line_of_def unread_size_def Let_def split: option.splits if_splits)

lemma data_of_size: "data_of sz st = (d, st') \<Longrightarrow> unread_size st' \<le> unread_size st \<and> (d \<noteq> [] \<longrightarrow> unread_size st' < unread_size st)"
  by (auto simp: data_of_def unread_size_def split: option.splits if_splits)

lemma chunk_of_size:
  assumes "(c, st') = chunk_of junk st" and "ck_data c \<noteq> []"
  shows "unread_size st' < unread_size st"
proof -
  obtain line st1 where l: "line_of False st = (line, st1)" by fastforce
  let ?c = "chunk_head (junk (here st1)) line"
  obtain d st2 where d: "(if 0 < ck_size ?c then data_of (sint (ck_size ?c)) st1 else ([], st1)) = (d, st2)" by fastforce
  obtain e st3 where e: "data_of 2 st2 = (e, st3)" by fastforce
  have "c = ?c\<lparr>ck_data := d\<rparr>" "st' = st3" using assms(1) l d e by (simp_all add: chunk_of_def Let_def)
  moreover from this assms(2) have "unread_size st2 < unread_size st1"
    using d data_of_size [of "sint (ck_size ?c)" st1 d st2] by (auto split: if_splits)
  ultimately show ?thesis using line_of_size [OF l] data_of_size [OF e] by simp
qed

text \<open>Chunks up to the first of size 0, or the first whose data is not of its size.\<close>

function chunks_of :: "string \<Rightarrow> (chunk_t \<times> string) reference" where
  "chunks_of payload junk st =
     (case chunk_of junk st of
        (c, st') \<Rightarrow>
          if length (ck_data c) = unat (ck_size c) \<and> 0 < ck_size c
          then chunks_of (payload @ ck_data c) junk st'
          else ((c, payload @ ck_data c), st'))"
  by pat_completeness auto
termination
proof (relation "measure (\<lambda>(_, _, st). unread_size st)", goal_cases)
  case (2 payload junk st c st')
  then have "ck_data c \<noteq> []" by (auto simp: word_gt_0 unat_eq_zero)
  with 2 show ?case by (simp add: chunk_of_size)
qed simp

declare chunks_of.simps [simp del]

lemma payload_loop_ref:
  assumes "quiet s"
  shows "quiet (snd (payload_loop payload s)) \<and>
    apsnd unread (payload_loop payload s) = chunks_of payload (s_junk s) (unread s)"
  using assms
proof (induction payload s rule: payload_loop.induct)
  case (1 payload s)
  obtain c s1 where c: "read_chunk s = (c, s1)" by fastforce
  note a = rchunk.reads_ref [OF 1(2) c]
  show ?case
  proof (cases "length (ck_data c) = unat (ck_size c) \<and> 0 < ck_size c")
    case True
    then have "payload_loop payload s = payload_loop (payload @ ck_data c) s1"
      using c by (subst payload_loop.simps) (simp add: Let_def)
    moreover have "chunks_of payload (s_junk s) (unread s) = chunks_of (payload @ ck_data c) (s_junk s) (unread s1)"
      using True a by (subst chunks_of.simps) simp
    ultimately show ?thesis using 1(1) [OF c [symmetric] refl] True a by simp
  next
    case False
    then have "payload_loop payload s = ((c, payload @ ck_data c), s1)"
      using c by (subst payload_loop.simps) (auto simp: Let_def)
    moreover have "chunks_of payload (s_junk s) (unread s) = ((c, payload @ ck_data c), unread s1)"
      using False a by (subst chunks_of.simps) auto
    ultimately show ?thesis using a by simp
  qed
qed

definition chunked_of :: "string \<Rightarrow> (bool \<times> string) reference" where
  "chunked_of payload junk st =
     (case chunks_of payload junk st of ((c, payload'), st') \<Rightarrow> ((ck_extention c = ''ieof'', payload'), st'))"

interpretation rchunked: reads_as "read_chunked_payload payload" "chunked_of payload" for payload
proof (intro_locales; unfold_locales)
  fix s
  assume "quiet s"
  from payload_loop_ref [OF this, of payload]
  show "quiet (snd (read_chunked_payload payload s)) \<and>
      apsnd unread (read_chunked_payload payload s) = chunked_of payload (s_junk s) (unread s)"
    by (cases "payload_loop payload s") (auto simp: read_chunked_payload_def chunked_of_def dest: sym split: prod.splits)
qed

section \<open>Requests\<close>

text \<open>A part of known length; one of an unknown name is not read.\<close>

definition part_of :: "string \<Rightarrow> int \<Rightarrow> payload_t \<Rightarrow> string option \<Rightarrow> payload_t \<times> string option" where
  "part_of entity n payload st =
     (if entity \<in> {''req-hdr'', ''req-body'', ''res-hdr'', ''res-body''}
      then case data_of n st of (d, st') \<Rightarrow> (put_part entity d payload, st') else (payload, st))"

definition body_of :: "string \<Rightarrow> payload_t \<Rightarrow> payload_t reference" where
  "body_of entity payload junk st =
     (if entity \<in> {''req-body'', ''res-body''}
      then case chunked_of (if entity = ''req-body'' then req_body payload else res_body payload) junk st of
        ((ie, d), st') \<Rightarrow> ((put_part entity d payload)\<lparr>ieof := ie\<rparr>, st')
      else (payload, st))"

text \<open>The entities in the order of their offsets, without those that are not there.\<close>

fun parts_of :: "encapsulated_header_data_t list \<Rightarrow> payload_t \<Rightarrow> payload_t reference" where
  "parts_of [] payload junk st = (payload, st)"
| "parts_of [(entity, off)] payload junk st = body_of entity payload junk st"
| "parts_of ((entity, off) # (next, off') # es) payload junk st =
     (case (if off < off' then part_of entity (off' - off) payload st else (payload, st)) of
        (payload', st') \<Rightarrow> parts_of ((next, off') # es) payload' junk st')"

definition request_data_of :: "request \<Rightarrow> (bool \<times> request) reference" where
  "request_data_of rq junk st =
     (case parts_of (filter (\<lambda>e. 0 \<le> snd e) (sort_encapsulated_header (q_header rq))) empty_payload junk st of
        (payload, st') \<Rightarrow> ((True, set_request_payload payload rq), st'))"

text \<open>A whole request: the header, and what it encapsulates.\<close>

definition request_of :: "(bool \<times> request) reference" where
  "request_of junk st = (case header_of st of (hdr, st') \<Rightarrow> request_data_of (new_request hdr) junk st')"

text \<open>The rest of a body behind a preview.\<close>

definition continued_of :: "request \<Rightarrow> (bool \<times> request) reference" where
  "continued_of rq junk st =
     (let es = sort_encapsulated_header (q_header rq)
      in if es = [] then ((False, rq), st)
         else case body_of (fst (last es)) (q_payload rq) junk st of
           (payload, st') \<Rightarrow> ((True, set_request_payload payload rq), st'))"

interpretation rpart_ref: reads_as "read_part entity n payload" "\<lambda>_. part_of entity n payload" for entity n payload
proof -
  note r = reads_as_result [OF rdata_ref.reads_as_axioms, of "\<lambda>d. put_part entity d payload" n]
  show "reads_as (read_part entity n payload) (\<lambda>_. part_of entity n payload)"
  proof (cases "entity \<in> {''req-hdr'', ''req-body'', ''res-hdr'', ''res-body''}")
    case True
    then have "read_part entity n payload = (\<lambda>s. case read_data n s of (d, s') \<Rightarrow> (put_part entity d payload, s'))"
      by (auto simp: read_part_def put_part_def fun_eq_iff)
    with r True show ?thesis by (simp add: part_of_def [abs_def])
  next
    case False
    then have "read_part entity n payload = (\<lambda>s. (payload, s))" by (auto simp: read_part_def fun_eq_iff)
    with False reads_as_pure [of payload] show ?thesis by (simp add: part_of_def [abs_def])
  qed
qed

interpretation rbody_ref: reads_as "read_body entity payload" "body_of entity payload" for entity payload
proof -
  let ?old = "if entity = ''req-body'' then req_body payload else res_body payload"
  note r = reads_as_result [OF rchunked.reads_as_axioms, of "\<lambda>(ie, d). (put_part entity d payload)\<lparr>ieof := ie\<rparr>" ?old]
  show "reads_as (read_body entity payload) (body_of entity payload)"
  proof (cases "entity \<in> {''req-body'', ''res-body''}")
    case True
    then have "read_body entity payload =
        (\<lambda>s. case read_chunked_payload ?old s of (x, s') \<Rightarrow> (case x of (ie, d) \<Rightarrow> (put_part entity d payload)\<lparr>ieof := ie\<rparr>, s'))"
      by (auto simp: read_body_def put_part_def fun_eq_iff split: prod.splits)
    moreover have "body_of entity payload = (\<lambda>j st. case chunked_of ?old j st of
        (x, st') \<Rightarrow> (case x of (ie, d) \<Rightarrow> (put_part entity d payload)\<lparr>ieof := ie\<rparr>, st'))"
      using True by (simp add: body_of_def fun_eq_iff split: prod.splits)
    ultimately show ?thesis using r by simp
  next
    case False
    then have "read_body entity payload = (\<lambda>s. (payload, s))" "body_of entity payload = (\<lambda>j st. (payload, st))"
      by (auto simp: read_body_def body_of_def fun_eq_iff)
    with reads_as_pure [of payload] show ?thesis by simp
  qed
qed

lemma reads_as_when: "reads_as f f' \<Longrightarrow> reads_as (\<lambda>s. if b then f s else (x, s)) (\<lambda>j st. if b then f' j st else (x, st))"
  by (cases b) (simp_all add: reads_as_pure)

lemma reads_as_parts:
  "sorted (map snd ps) \<Longrightarrow> reads_as (read_parts ps payload) (parts_of (filter (\<lambda>e. 0 \<le> snd e) ps) payload)"
proof (induction ps arbitrary: payload rule: induct_list012)
  case 1
  have "read_parts [] payload = (\<lambda>s. (payload, s))" "parts_of [] payload = (\<lambda>j st. (payload, st))"
    by (simp_all add: fun_eq_iff)
  with reads_as_pure [of payload] show ?case by simp
next
  case (2 e)
  obtain n off where e: "e = (n, off)" by fastforce
  have "read_parts [e] payload = (\<lambda>s. if 0 \<le> off then read_body n payload s else (payload, s))"
    using e by (auto simp: fun_eq_iff)
  moreover have "parts_of (filter (\<lambda>e. 0 \<le> snd e) [e]) payload =
      (\<lambda>j st. if 0 \<le> off then body_of n payload j st else (payload, st))"
    using e by (simp add: fun_eq_iff)
  ultimately show ?case using reads_as_when [OF rbody_ref.reads_as_axioms, of "0 \<le> off" n payload payload] by simp
next
  case (3 e e2 ps)
  obtain n off n2 off2 where e: "e = (n, off)" "e2 = (n2, off2)" by fastforce
  show ?case
  proof (cases "off < 0")
    case True
    then have "read_parts (e # e2 # ps) payload = read_parts (e2 # ps) payload" using e by (simp add: fun_eq_iff)
    with 3(2) [of payload] 3(3) True e show ?thesis by simp
  next
    case False
    then have off2: "0 \<le> off2" using 3(3) e by simp
    have "reads_as (\<lambda>s. case (if off < off2 then read_part n (off2 - off) payload s else (payload, s)) of
          (payload', s') \<Rightarrow> read_parts (e2 # ps) payload' s')
        (\<lambda>j st. case (if off < off2 then part_of n (off2 - off) payload st else (payload, st)) of
          (payload', st') \<Rightarrow> parts_of (filter (\<lambda>e. 0 \<le> snd e) (e2 # ps)) payload' j st')"
      by (rule reads_as_then [OF reads_as_when [OF rpart_ref.reads_as_axioms] 3(2)]) (use 3(3) in simp)
    moreover have "read_parts (e # e2 # ps) payload =
        (\<lambda>s. case (if off < off2 then read_part n (off2 - off) payload s else (payload, s)) of
          (payload', s') \<Rightarrow> read_parts (e2 # ps) payload' s')"
      using e False by (simp add: fun_eq_iff)
    moreover have "parts_of (filter (\<lambda>e. 0 \<le> snd e) (e # e2 # ps)) payload =
        (\<lambda>j st. case (if off < off2 then part_of n (off2 - off) payload st else (payload, st)) of
          (payload', st') \<Rightarrow> parts_of (filter (\<lambda>e. 0 \<le> snd e) (e2 # ps)) payload' j st')"
      using e False off2 by (simp add: fun_eq_iff)
    ultimately show ?thesis by simp
  qed
qed

interpretation rqdata: reads_as "read_req_data rq" "request_data_of rq" for rq
proof -
  let ?ps = "sort_encapsulated_header (q_header rq)"
  have "sorted (map snd ?ps)" using fold_insert_sorted(2) by (simp add: sort_encapsulated_header_def)
  from reads_as_result [OF reads_as_parts [OF this, of empty_payload], of "\<lambda>p. (True, set_request_payload p rq)"]
  show "reads_as (read_req_data rq) (request_data_of rq)"
    by (simp add: read_req_data_def [abs_def] request_data_of_def [abs_def])
qed

interpretation rqcont: reads_as "read_req_continue_data rq" "continued_of rq" for rq
proof -
  let ?es = "sort_encapsulated_header (q_header rq)"
  note r = reads_as_result [OF rbody_ref.reads_as_axioms, of "\<lambda>p. (True, set_request_payload p rq)"
    "fst (last ?es)" "q_payload rq"]
  show "reads_as (read_req_continue_data rq) (continued_of rq)"
    using r reads_as_pure [of "(False, rq)"]
    by (cases "?es = []") (simp_all add: read_req_continue_data_def [abs_def] continued_of_def [abs_def])
qed

text \<open>A request read from a connection.\<close>

lemma reads_as_request:
  "reads_as (\<lambda>s. case read_req_header s of (hdr, s') \<Rightarrow> read_req_data (new_request hdr) s') request_of"
  using reads_as_then [OF rheader.reads_as_axioms rqdata.reads_as_axioms]
  by (simp add: request_of_def [abs_def])

end
