(* ===== verification/WorkerObjects.thy ===== *)
theory WorkerObjects
  imports Leaks
begin

text \<open>
  \<open>Worker::run\<close> over the store. The stream of a connection is an object of the socket library,
  made by \<open>accept\<close> and deleted, which closes the connection, at the end of the loop. These are kept
  in a table of their own: an address is not used again, and deleting one that is not there is
  undefined. The function refines \<open>run\<close>; what it leaves in the table is counted.
\<close>

section \<open>Connections\<close>

record connections =
  cn_next :: addr
  cn_open :: "addr set"

definition connections_ok :: "connections \<Rightarrow> bool" where
  "connections_ok d \<longleftrightarrow> cn_open d \<subseteq> {..<cn_next d}"

definition open_connection :: "connections \<Rightarrow> addr \<times> connections" where
  "open_connection d = (cn_next d, \<lparr>cn_next = Suc (cn_next d), cn_open = insert (cn_next d) (cn_open d)\<rparr>)"

definition close_connection :: "addr \<Rightarrow> connections \<Rightarrow> connections option" where
  "close_connection a d = (if a \<in> cn_open d then Some (d\<lparr>cn_open := cn_open d - {a}\<rparr>) else None)"

section \<open>The loop of the worker\<close>

lemma serve_client_object_less:
  assumes "serve_client_object tick hs p s m w h = Some ((m', s', w'), h')" and "0 < m"
  shows "m' < m"
  using assms
proof (induction tick hs p s m w h rule: serve_client_object.induct)
  case (1 tick hs p s m w h)
  have dec: "m - 1 < m"
    using 1(3) unat_dec [of m] by (simp add: word_less_nat_alt unat_gt_0)
  obtain h0 where h0: "(case p of None \<Rightarrow> Some h | Some a \<Rightarrow> free_object a h) = Some h0"
    using 1(2) by (cases "case p of None \<Rightarrow> Some h | Some a \<Rightarrow> free_object a h")
      (simp_all add: serve_client_object.simps [of tick hs p])
  obtain hdr s1 where r: "read_req_header s = (hdr, s1)" by fastforce
  obtain qa h1 where n: "new_object (Request_header hdr) h0 = (qa, h1)" by fastforce
  note step0 = 1(2) [unfolded serve_client_object.simps [of tick hs p s m w h] h0 option.case r prod.case n]
  show ?case
  proof (cases "s_timedout s1")
    case True
    with step0 dec show ?thesis by simp
  next
    case nt: False
    obtain ra s2 w1 h2 where ro: "respond_object tick hs qa s1 w h1 = Some ((ra, s2, w1), h2)"
      using step0 nt by (auto split: option.splits)
    obtain keep s3 h3 where rp: "reply_object qa ra s2 h2 = Some ((keep, s3), h3)"
      using step0 nt ro by (auto split: option.splits)
    show ?thesis
    proof (cases "0 < m - 1 \<and> keep")
      case True
      with step0 nt ro rp have rec: "serve_client_object tick hs (Some qa) s3 (m - 1) w1 h3 = Some ((m', s', w'), h')"
        by simp
      have "m' < m - 1"
        using 1(1) [OF h0 r [symmetric] n [symmetric] nt ro refl refl refl rp refl refl True rec] True by simp
      with dec show ?thesis by simp
    next
      case False
      with step0 nt ro rp dec show ?thesis by (auto split: option.splits)
    qed
  qed
qed

text \<open>
  What a run gives: the connections served, as they were when they were closed, and the world. A
  connection whose timeout could not be set is not closed.
\<close>

function run_object :: "'w tick \<Rightarrow> ('w \<Rightarrow> sock option \<times> 'w) \<Rightarrow> (u32 \<Rightarrow> sock \<Rightarrow> sock option) \<Rightarrow> 'w req_handlers \<Rightarrow>
    u32 \<Rightarrow> u32 \<Rightarrow> 'w \<Rightarrow> heap \<Rightarrow> connections \<Rightarrow> ((sock list \<times> 'w) \<times> heap \<times> connections) option" where
  "run_object tick accept timeout hs max_requests comm_timeout w h d =
     (if 0 < max_requests then
        case accept w of
          (None, w1) \<Rightarrow> run_object tick accept timeout hs (max_requests - 1) comm_timeout w1 h d
        | (Some s, w1) \<Rightarrow>
            case open_connection d of
              (ca, d1) \<Rightarrow>
                case (if 0 < comm_timeout then timeout comm_timeout s else Some s) of
                  None \<Rightarrow> run_object tick accept timeout hs (max_requests - 1) comm_timeout w1 h d1
                | Some s1 \<Rightarrow>
                    case serve_client_object tick hs None s1 max_requests w1 h of
                      None \<Rightarrow> None
                    | Some ((max_requests', s', w2), h1) \<Rightarrow>
                        case close_connection ca d1 of
                          None \<Rightarrow> None
                        | Some d2 \<Rightarrow>
                            map_option (\<lambda>((closed, w'), hd'). ((s' # closed, w'), hd'))
                              (run_object tick accept timeout hs max_requests' comm_timeout w2 h1 d2)
      else Some (([], w), h, d))"
  by pat_completeness auto
termination
proof (relation "measure (\<lambda>(_, _, _, _, m, _, _, _, _). unat m)", goal_cases)
  case (2 tick accept timeout hs m comm w h d client w1)
  then show ?case using unat_dec [of m] by (simp add: unat_gt_0)
next
  case (3 tick accept timeout hs m comm w h d client w1 s ca d1)
  then show ?case using unat_dec [of m] by (simp add: unat_gt_0)
next
  case 4
  then show ?case using serve_client_object_less by (fastforce simp: word_less_nat_alt)
qed simp

declare run_object.simps [simp del]

section \<open>What a run leaves open\<close>

text \<open>The connections that are accepted and whose timeout cannot be set.\<close>

function unclosed :: "'w tick \<Rightarrow> ('w \<Rightarrow> sock option \<times> 'w) \<Rightarrow> (u32 \<Rightarrow> sock \<Rightarrow> sock option) \<Rightarrow> 'w req_handlers \<Rightarrow>
    u32 \<Rightarrow> u32 \<Rightarrow> 'w \<Rightarrow> nat" where
  "unclosed tick accept timeout hs m comm w =
     (if 0 < m then
        case accept w of
          (None, w1) \<Rightarrow> unclosed tick accept timeout hs (m - 1) comm w1
        | (Some s, w1) \<Rightarrow>
            case (if 0 < comm then timeout comm s else Some s) of
              None \<Rightarrow> Suc (unclosed tick accept timeout hs (m - 1) comm w1)
            | Some s1 \<Rightarrow>
                case serve_client tick hs s1 m w1 of
                  None \<Rightarrow> 0
                | Some (m', s', w2) \<Rightarrow> unclosed tick accept timeout hs m' comm w2
      else 0)"
  by pat_completeness auto
termination
proof (relation "measure (\<lambda>(_, _, _, _, m, _, _). unat m)", goal_cases)
  case (2 tick accept timeout hs m comm w client w1)
  then show ?case using unat_dec [of m] by (simp add: unat_gt_0)
next
  case (3 tick accept timeout hs m comm w client w1 s)
  then show ?case using unat_dec [of m] by (simp add: unat_gt_0)
next
  case 4
  then show ?case using serve_client_less by (fastforce simp: word_less_nat_alt)
qed simp

declare unclosed.simps [simp del]

definition leaves_open :: "connections \<Rightarrow> addr set \<Rightarrow> connections \<Rightarrow> bool" where
  "leaves_open d l d' \<longleftrightarrow> cn_next d \<le> cn_next d' \<and> l \<subseteq> {cn_next d..<cn_next d'} \<and> cn_open d' = cn_open d \<union> l"

lemma leaves_open_refl [simp]: "leaves_open d {} d"
  by (simp add: leaves_open_def)

lemma leaves_open_trans:
  assumes "leaves_open d l d'" and "leaves_open d' l' d''"
  shows "leaves_open d (l \<union> l') d''" and "l \<inter> l' = {}" and "finite l"
  using assms unfolding leaves_open_def by (force, force, meson finite_atLeastLessThan finite_subset)

lemma leaves_open_ok: "connections_ok d \<Longrightarrow> leaves_open d l d' \<Longrightarrow> connections_ok d'"
  unfolding leaves_open_def connections_ok_def by fastforce

lemma open_leaves: "open_connection d = (a, d') \<Longrightarrow> leaves_open d {a} d'"
  by (auto simp: open_connection_def leaves_open_def)

lemma close_opened:
  assumes "connections_ok d" and "open_connection d = (a, d')"
  obtains d'' where "close_connection a d' = Some d''" and "leaves_open d {} d''"
proof -
  have "cn_next d \<notin> cn_open d" using assms(1) by (auto simp: connections_ok_def)
  with assms(2) that show thesis by (auto simp: open_connection_def close_connection_def leaves_open_def)
qed

lemma run_object_refines:
  assumes "heap_ok h" and "connections_ok d"
  shows "case run tick accept timeout hs m comm w of
      None \<Rightarrow> run_object tick accept timeout hs m comm w h d = None
    | Some r \<Rightarrow> \<exists>left h' l d'. run_object tick accept timeout hs m comm w h d = Some (r, h', d') \<and>
        adds h left h' \<and> leaves_open d l d' \<and> card l = unclosed tick accept timeout hs m comm w"
  using assms
proof (induction tick accept timeout hs m comm w arbitrary: h d rule: run.induct)
  case (1 tick accept timeout hs m comm w)
  note unf = run.simps [of tick accept timeout hs m comm w]
    run_object.simps [of tick accept timeout hs m comm w h d] unclosed.simps [of tick accept timeout hs m comm w]
  obtain client w1 where a: "accept w = (client, w1)" by fastforce
  let ?c = "case client of None \<Rightarrow> None | Some s \<Rightarrow> if 0 < comm then timeout comm s else Some s"
  show ?case
  proof (cases "0 < m")
    case False
    then show ?thesis
      by (auto simp: unf intro!: exI [of _ Map.empty] exI [of _ "{}"])
  next
    case m: True
    show ?thesis
    proof (cases client)
      case None
      then show ?thesis using 1(1) [OF m a [symmetric] _ 1(3,4)] m a
        by (cases "run tick accept timeout hs (m - 1) comm w1") (simp_all add: unf)
    next
      case (Some s)
      obtain ca d1 where o: "open_connection d = (ca, d1)" by fastforce
      show ?thesis
      proof (cases "if 0 < comm then timeout comm s else Some s")
        case None
        note ih = 1(1) [OF m a [symmetric] _ 1(3) leaves_open_ok [OF 1(4) open_leaves [OF o]]]
        show ?thesis
        proof (cases "run tick accept timeout hs (m - 1) comm w1")
          case None
          with ih \<open>client = Some s\<close> \<open>(if 0 < comm then timeout comm s else Some s) = None\<close> m a o
          show ?thesis by (simp add: unf)
        next
          case (Some r)
          obtain left h' l d' where r: "run_object tick accept timeout hs (m - 1) comm w1 h d1 = Some (r, h', d')"
              "adds h left h'" "leaves_open d1 l d'" "card l = unclosed tick accept timeout hs (m - 1) comm w1"
            using ih Some \<open>client = Some s\<close> \<open>(if 0 < comm then timeout comm s else Some s) = None\<close> by auto
          note t = leaves_open_trans [OF open_leaves [OF o] r(3)]
          have "finite l" using leaves_open_trans(3) [OF r(3) leaves_open_refl] .
          then have "card ({ca} \<union> l) = Suc (card l)" using t(2) by simp
          with r t(1) Some \<open>client = Some s\<close> \<open>(if 0 < comm then timeout comm s else Some s) = None\<close> m a o
          show ?thesis by (fastforce simp: unf)
        qed
      next
        case s1: (Some s1)
        have c: "?c = Some s1" using Some s1 by simp
        have sv: "case serve_client tick hs s1 m w1 of
            None \<Rightarrow> serve_client_object tick hs None s1 m w1 h = None
          | Some r \<Rightarrow> \<exists>left h'. serve_client_object tick hs None s1 m w1 h = Some (r, h') \<and> adds h left h'"
          by (rule serve_client_object_refines [OF _ 1(3)]) (simp add: dropped_def)
        show ?thesis
        proof (cases "serve_client tick hs s1 m w1")
          case None
          with sv Some s1 m a o show ?thesis by (simp add: unf)
        next
          case served: (Some r1)
          obtain m' s' w2 where r1: "r1 = (m', s', w2)" by (cases r1)
          obtain left1 h1 where so: "serve_client_object tick hs None s1 m w1 h = Some ((m', s', w2), h1)" "adds h left1 h1"
            using sv served r1 by auto
          obtain d2 where cl: "close_connection ca d1 = Some d2" "leaves_open d {} d2"
            by (rule close_opened [OF 1(4) o])
          note ih = 1(2) [OF m a [symmetric] c served [unfolded r1] refl refl adds_ok [OF 1(3) so(2)]
              leaves_open_ok [OF 1(4) cl(2)]]
          show ?thesis
          proof (cases "run tick accept timeout hs m' comm w2")
            case None
            with ih served r1 so cl Some s1 m a o show ?thesis by (simp add: unf)
          next
            case (Some r)
            obtain left h' l d' where r: "run_object tick accept timeout hs m' comm w2 h1 d2 = Some (r, h', d')"
                "adds h1 left h'" "leaves_open d2 l d'" "card l = unclosed tick accept timeout hs m' comm w2"
              using ih Some by auto
            note t = leaves_open_trans(1) [OF cl(2) r(3), unfolded Un_empty_left] adds_trans(1) [OF so(2) r(2)]
            obtain closed w' where rr: "r = (closed, w')" by (cases r)
            show ?thesis
              using r t Some rr served r1 so(1) cl(1) \<open>client = Some s\<close> s1 m a o by (fastforce simp: unf)
          qed
        qed
      qed
    qed
  qed
qed

text \<open>Where every timeout can be set no connection stays open.\<close>

lemma unclosed_none:
  assumes "\<And>s. timeout comm s \<noteq> None"
  shows "unclosed tick accept timeout hs m comm w = 0"
  using assms
proof (induction tick accept timeout hs m comm w rule: unclosed.induct)
  case (1 tick accept timeout hs m comm w)
  note unf = unclosed.simps [of tick accept timeout hs m comm w]
  obtain client w1 where a: "accept w = (client, w1)" by fastforce
  show ?case
  proof (cases "0 < m \<and> client \<noteq> None")
    case False
    then show ?thesis using 1(1) [OF _ a [symmetric]] 1(4) a by (auto simp: unf)
  next
    case True
    then obtain s where s: "client = Some s" by blast
    obtain s1 where s1: "(if 0 < comm then timeout comm s else Some s) = Some s1"
      using 1(4) [of s] by (cases "0 < comm"; cases "timeout comm s") auto
    then show ?thesis
      using 1(3) [OF _ a [symmetric] s s1 _ refl refl 1(4)] True a s
      by (cases "serve_client tick hs s1 m w1") (auto simp: unf)
  qed
qed

end
