(* ===== verification/Spec2Isabelle.thy ===== *)
theory Spec2Isabelle
  imports Examples PyRefs Startup TestClient WireReference WorkerObjects
begin

text \<open>
  bitz-server, an ICAP server (RFC 3507) in C++: a manager process forks workers, a worker
  accepts connections and serves ICAP requests on them, modules loaded as shared libraries
  decide about the encapsulated HTTP messages. This development models the program's own code,
  function by function, and proves what it does; the paths below are those of the repository.

  The parts, from the wire up.

  \<^item> \<open>Prelude\<close>, \<open>OrderedMap\<close>, \<open>IcapText\<close>: 32-bit words (\<open>u32\<close>), the parts of \<open>std::string\<close> the
    sources use (\<open>find_first_of\<close>, \<open>find_last_of\<close>, \<open>substr\<close>, \<open>isspace\<close>), \<open>std::map\<close> as a sorted
    association list (locale \<open>std_map\<close>), and the text functions of \<open>lib/icap/util.cpp\<close>
    (\<open>itoa\<close>, \<open>dectohex\<close>, \<open>hextodec\<close>, \<open>split\<close>, \<open>trim\<close>) with \<open>atoi\<close>.
  \<^item> \<open>SockStream\<close>: the client connection. The stream half is the standard library's; what the
    socket does is a script in the state (bytes that arrive, calls that raise or fail, writes and
    flushes of which only a part goes through, timeouts), over which every theorem quantifies. Its locales \<open>stream_reader\<close> and
    \<open>stream_writer\<close> say what a reading (writing) routine leaves alone: a reader takes a prefix
    of the input and writes nothing, a writer appends to the output and takes nothing. Every
    routine below is an instance.
  \<^item> \<open>IcapRead\<close>, \<open>IcapChunk\<close>, \<open>IcapSend\<close>: \<open>read_line\<close>, \<open>read_data\<close>, \<open>read_chunk\<close>, \<open>read_chunked\<close>,
    \<open>read_chunked_payload\<close>, \<open>send_line\<close>, \<open>send_data\<close>, \<open>send_chunked\<close> of \<open>lib/icap/util.cpp\<close>, each
    with its loop. The loops are total functions: a reading loop is measured by the input that
    is left, the sending loop by the number of chunks.
  \<^item> \<open>IcapHeader\<close>, \<open>IcapMessage\<close>: the classes \<open>Header\<close>, \<open>RequestHeader\<close>, \<open>ResponseHeader\<close>,
    \<open>Request\<close>, \<open>Response\<close> of \<open>lib/icap\<close>. A subclass is an extension of the record of its base
    class, so that the operations of \<open>Header\<close> serve both kinds; \<open>header_ok\<close> is the invariant.
  \<^item> \<open>IcapProtocol\<close>: \<open>read_req_header\<close>, \<open>read_req_data\<close>, \<open>read_req_continue_data\<close>,
    \<open>send_headers\<close>, \<open>send_response\<close>. \<open>IcapExchange\<close> states what they do on well-formed requests
    (\<open>request_ok\<close>, \<open>body_ok\<close>); \<open>WireReference\<close> gives the reading half a reference on strings, for
    every input: the locale \<open>reads_as\<close> says that a reader agrees with its reference, and each reader
    is an instance.
  \<^item> \<open>Config\<close> (\<open>src/bitz/config.cpp\<close>, what the configuration library makes of a file being an
    argument), \<open>Modifier\<close> (\<open>src/bitz/modifier.h\<close>, \<open>modules/echo\<close>; its locale
    \<open>modifier_contract\<close> is what a module owes the server), \<open>Modpy\<close> (\<open>modules/modpy\<close>, the Python
    interface module being an argument), \<open>PyModule\<close> (modpy as a library that can be loaded, what an
    interface module owes, locale \<open>python_interface\<close>, and the interface module
    \<open>modules/modpy/modules/modpy.py\<close>), \<open>PyRefs\<close> (the references to Python objects that module
    gets and gives up), \<open>RequestHandler\<close> (\<open>src/bitz/request_handler.cpp\<close>),
    \<open>Worker\<close> (\<open>src/bitz/worker.cpp\<close>, the OPTIONS handler, the table of handlers of
    \<open>src/bitz/util.cpp\<close>). \<open>Service\<close> composes them into whole exchanges (\<open>answered\<close>), and
    \<open>Session\<close> these into the connection of a client: its requests (\<open>client_request\<close>), the
    abstract specification \<open>session\<close> of what it sees, and the refinement. \<open>Clients\<close> does so for a
    worker with a queue of clients, from the configuration on; both are proved for the two modules
    of the repository (\<open>module\<close>).
  \<^item> \<open>LostWrites\<close>: what becomes of a connection whose writes fail. Two runs of every routine that
    reads or writes are compared (locales \<open>blind_reader\<close> and \<open>lossy_exchange\<close>), one in which every
    write and every flush works; either they end in step or the second has a dead stream and wrote a prefix.
  \<^item> \<open>Store\<close>, \<open>Ownership\<close>, \<open>Release\<close>, \<open>Leaks\<close>, \<open>WorkerObjects\<close>: the objects the worker and the request handlers make
    with \<open>new\<close>. \<open>Store\<close> is a heap of requests, responses and their headers, in which a pointer to a
    deleted object finds nothing; \<open>Ownership\<close> states the functions of \<open>request_handler.cpp\<close>,
    \<open>options_request_handler.cpp\<close> and \<open>worker.cpp\<close> over it (their names end in \<open>_object\<close>); \<open>Release\<close>
    and \<open>Leaks\<close> show that they refine the functions on values and count what they leave behind.
    \<open>WorkerObjects\<close> does so for \<open>Worker::run\<close>, whose connections are objects too.
  \<^item> \<open>BitzUtil\<close> (the paths of \<open>src/bitz/util.cpp\<close>), \<open>Manager\<close> (\<open>src/bitz/manager.cpp\<close>),
    \<open>Reaper\<close> (the manager at its program points, its children and the \<open>SIGCHLD\<close> handler as a step
    relation \<open>mstep\<close>, whose argument says at which points the handler may run; the program
    allows all of them, and the invariants say which of them they need kept out),
    \<open>Server\<close> (\<open>src/bitz-server.cpp\<close>; its main loop runs under a schedule that places the steps of the
    process, \<open>SIGCHLD\<close> and the termination signals at any program point, with the signal mask of the code),
    \<open>ServerLoop\<close> (what holds under every schedule, and when the pool stays full), \<open>Child\<close> (the child's part of \<open>spawn_worker\<close>, as steps and as a
    whole, and termination signals there), \<open>Startup\<close> (\<open>daemonize\<close> and \<open>src/main.cpp\<close>).
  \<^item> \<open>TestClient\<close>: the script \<open>test/icap-client.py\<close>, its five connections and what it prints; its
    requests are well-formed in the sense of \<open>Session\<close>, so its whole run follows from \<open>Clients\<close>.
  \<^item> \<open>Examples\<close>: concrete inputs on which the properties are applied.

  How state corresponds. A C++ object is a record, a pointer that may be null an option, a
  method a function from the old to the new object (and the connection, and the world of the
  modules). An \<open>int\<close> is an \<open>int\<close> where the sources do not compute with it beyond its range,
  \<open>unsigned int\<close> is \<open>u32\<close> and wraps. Exceptions that are caught are branches; a run that the
  language leaves undefined, or that ends the process by an exception nobody catches, is None
  or a value of its own (\<open>Aborted\<close>, \<open>Undefined\<close>). A local that is read without being set gets
  a value from a parameter called junk. Loops that need not end are partial functions
  (\<open>mkdirp\<close>, \<open>manage_loop\<close>), None being the run that does not return; no function uses fuel.

  What the properties show. C1-C7: the connection of a client of a worker with one of the two
  modules, from the bytes read to the bytes written, refining \<open>session\<close>, and those of all clients
  of a worker, the repository's own test client among them; the preview that holds the whole body;
  OPTIONS; that a worker outlives every client; and what is left of the answers when writes fail.
  C8-C10: its objects, that none is used after its deletion, and which are never deleted. C11-C21: the
  protocol layer, reading, writing, parsing, printing, round trips, the equivalence of reading with a
  reference, the order in which modules are asked, and the cases where the code loses data. C22-C24:
  the Python module and its references. C25-C26: the configuration. C27-C32: the pool of workers, with
  the races between \<open>manage_workers\<close> and the handlers. C33-C37: termination, in the manager and in its
  children. C38-C40: directories, and the program as a whole. Bounds: bodies below \<open>2 ^ 32\<close> bytes, the
  size a chunk header can hold, and offsets below \<open>2 ^ 31\<close>, which an \<open>int\<close> can hold.

  What is not modelled: logging; \<open>getopt_long\<close>, \<open>libconfig\<close>, the Python interpreter, the dynamic
  linker and the socket library (arguments); the destructors that only free memory, but for those
  of requests and responses; a \<open>get\<close> that raises, and exceptions the stream raises of its own
  (the sources never set its mask); signals while the server starts, but for C37, and termination
  signals of two numbers in one schedule, but for C35; what a handler that interrupts a worker in the middle of a request
  finds in its objects.
\<close>

section \<open>A client's session\<close>

text \<open>
  C1. A client writes any number of well-formed requests of every kind (OPTIONS, unknown methods,
  REQMOD with and without a body, with a preview that holds part or all of the body, RESPMOD) one
  behind the other, and keeps the connection as it likes. The worker, with echo or with modpy running
  the interface module of the repository, writes exactly the text of the abstract
  specification \<open>session\<close>, takes exactly the bytes of the requests it serves, counts each, and
  stops after the request that ended the session; when none did, it goes on reading.
\<close>

theorem session_served:
  assumes "module_table tick md hs" and "\<forall>r\<in>set rs. well_formed r" and "live s"
    and "s_in s = concat (map request_bytes rs) @ rest" and "session tick md rs m w = (out, e, us, m', w')"
  shows "\<exists>s'. live s' \<and> s_in s' = concat (map request_bytes us) @ rest \<and> s_out s' = s_out s @ out \<and>
    serve_client tick hs s m w = (if e then Some (m', s', w') else serve_client tick hs s' m' w')"
  by (rule session_steps [OF assms])

theorem session_served_witness:
  "\<exists>s'. serve_client demo_tick demo_table (demo_sock (concat (map request_bytes demo_session) @ ''x'')) 5 () =
      Some (2, s', ()) \<and> s_in s' = request_bytes (demo_session ! 3) @ ''x'' \<and>
    s_out s' =
      reply ''ICAP/1.0 200 OK'' (options_fields True (e_clock demo_env)) ''null-body=0'' [] @
      reply ''ICAP/1.0 100 Continue'' (tl (closing_fields (e_clock demo_env))) ''null-body=0'' [] @
      reply ''ICAP/1.0 200 OK'' (connection_fields True (e_clock demo_env)) ''req-hdr=0, req-body=18''
        (demo_hdr @ sent_body ''abcdef'') @
      reply ''ICAP/1.0 200 OK'' (connection_fields False (e_clock demo_env)) ''res-hdr=0, res-body=19''
        (demo_rhdr @ sent_body ''def'')"
  using session_served [OF demo_module_table demo_session_ok _ _ demo_session_result,
      of "demo_sock (concat (map request_bytes demo_session) @ ''x'')" "''x''"] by auto

text \<open>
  The whole connection of a client that sends such requests and then nothing more, whether it
  closes, or falls silent until the timeout: the worker returns, having written exactly the text of
  the specification; the end of the input costs one more request where no request ended the
  session.
\<close>

theorem connection_served:
  assumes "module_table tick md hs" and "\<forall>r\<in>set rs. well_formed r" and "live s"
    and "s_in s = concat (map request_bytes rs)" and "session tick md rs m w = (out, e, us, m', w')"
  shows "\<exists>s' w''. serve_client tick hs s m w = Some (if e then m' else m' - 1, s', w'') \<and>
    s_in s' = concat (map request_bytes us) \<and> s_out s' = s_out s @ out \<and>
    w'' \<in> (if e then {w'} else {w', snd (tick w')})"
  by (rule connection_steps [OF assms])

theorem connection_served_witness:
  "\<exists>s' w''. serve_client demo_tick demo_table (demo_sock (request_bytes (demo_session ! 0))) 5 () =
      Some (3, s', w'') \<and> s_in s' = [] \<and>
    s_out s' = reply ''ICAP/1.0 200 OK'' (options_fields True (e_clock demo_env)) ''null-body=0'' []"
proof -
  have w: "\<forall>r\<in>set [demo_session ! 0]. well_formed r" using demo_session_ok by (simp add: demo_session_def)
  have r: "session demo_tick Echo [demo_session ! 0] 5 () =
      (reply ''ICAP/1.0 200 OK'' (options_fields True (e_clock demo_env)) ''null-body=0'' [], False, [], 4, ())"
    by (simp add: demo_session_def keeps_connection_def demo_texts demo_tick_def cr_method_def)
  from connection_served [OF demo_module_table w _ _ r, of "demo_sock (request_bytes (demo_session ! 0))"]
  show ?thesis by auto
qed

text \<open>
  C2. A worker as a whole, from the fork on: it loads its handlers from a configuration that names
  echo, or modpy with the interface module of the repository, for REQMOD and RESPMOD, and serves
  the clients that wait, one after another, each with any requests of which the last closes the
  connection, until the requests the manager allows it run out; every client sees exactly the text
  of the specification \<open>clients\<close>, and every handler is deleted once.
\<close>

theorem worker_serves_clients:
  assumes "module_configured tick md linker c" and "spawn_worker i Fork_child m = In_child ch"
    and "queued tick accept q" and "\<forall>s. timeout (mg_comm_timeout m) s = Some s" and "list_all2 client (q w) rss"
  shows "\<exists>closed deleted w'. worker_process linker junk c tick accept timeout ch w = Some (closed, deleted, w') \<and>
    map s_out closed = clients tick md accept rss (mg_max_worker_requests m) w \<and>
    mset deleted = {#''OPTIONS'', ''REQMOD'', ''RESPMOD''#}"
proof -
  have ch: "mg_max_worker_requests ch = mg_max_worker_requests m" "mg_comm_timeout ch = mg_comm_timeout m"
    using assms(2) by (auto simp: spawn_worker_def)
  from worker_process_clients [OF assms(1,3) _ assms(5), of timeout ch junk] assms(4) show ?thesis
    by (simp add: ch)
qed

theorem worker_serves_clients_witness:
  "\<exists>ch closed deleted w'. spawn_worker 0 Fork_child
      ((demo_manager [0])\<lparr>mg_max_worker_requests := 2, mg_comm_timeout := 30\<rparr>) = In_child ch \<and>
    worker_process script_linker queue_junk script_config queue_tick queue_accept (\<lambda>_. Some) ch script_queue =
      Some (closed, deleted, w') \<and>
    map s_out closed =
      [reply ''ICAP/1.0 204 No modifications needed'' (connection_fields False (e_clock demo_env)) ''null-body=0'' [],
       reply ''ICAP/1.0 200 OK'' (connection_fields False (e_clock demo_env)) ''res-hdr=0, res-body=19''
         (demo_rhdr @ sent_body ''def'')]"
proof -
  let ?m = "(demo_manager [0])\<lparr>mg_max_worker_requests := 2, mg_comm_timeout := 30\<rparr>"
  obtain ch where ch: "spawn_worker 0 Fork_child ?m = In_child ch" by (simp add: spawn_worker_def)
  from worker_serves_clients [OF script_configured ch queue_ok(2), of "\<lambda>_. Some" script_queue script_clients queue_junk]
  show ?thesis using ch by (auto simp: script_clients_ok script_clients_see)
qed

text \<open>
  C3. The test client of the repository against a worker of it: a worker with echo, or modpy and its
  interface module, that may serve five requests gives the five connections of the script the answers
  listed in \<open>test_answers\<close> (with echo the preview, which holds the whole body, gets a 500 response),
  and however these arrive in pieces the script prints exactly them, under its headings, and exits
  with 0.
\<close>

theorem test_client_answered:
  assumes "module_configured tick md linker c" and "queued tick accept q"
    and "\<And>s. timeout (mg_comm_timeout m) s = Some s" and "5 \<le> unat (mg_max_worker_requests m)"
    and "list_all2 (\<lambda>s (_, sends). live s \<and> s_out s = [] \<and> s_in s = concat sends) (q w) test_script"
  shows "\<exists>closed deleted w' c1 c2 c3 c4 c5.
    worker_process linker junk c tick accept timeout m w = Some (closed, deleted, w') \<and>
    map s_out closed = test_answers md c1 c2 c3 c4 c5 \<and>
    (\<forall>pss. list_all2 (\<lambda>ds s. [] \<notin> set ds \<and> concat ds = s_out s) pss closed \<longrightarrow>
      icap_client test_script (map Received pss) = (test_output (test_answers md c1 c2 c3 c4 c5), 0))"
  by (rule test_client_served [where timeout = timeout and m = m]) (use assms in simp_all)

theorem test_client_answered_witness:
  "\<exists>closed deleted w' c1 c2 c3 c4 c5.
    worker_process queue_linker queue_junk demo_config queue_tick queue_accept (\<lambda>_. Some)
      ((demo_manager [0])\<lparr>mg_max_worker_requests := 5\<rparr>)
      (map (\<lambda>(_, sends). demo_sock (concat sends)) test_script) = Some (closed, deleted, w') \<and>
    map s_out closed = test_answers Echo c1 c2 c3 c4 c5"
  using test_client_answered [OF queue_ok, of "\<lambda>_. Some" "(demo_manager [0])\<lparr>mg_max_worker_requests := 5\<rparr>"
      "map (\<lambda>(_, sends). demo_sock (concat sends)) test_script" queue_junk]
  by (simp add: list_all2_conv_all_nth case_prod_unfold) blast

section \<open>Whole exchanges\<close>

text \<open>
  A REQMOD request (header section, chunked body, no preview, no keep-alive) on a working
  connection, with the module echo loaded: the whole request is read and nothing behind it, one
  request is counted off, and what is written is a 200 response with the request's header
  section and its body as \<open>send_chunked\<close> encodes it.
\<close>

theorem reqmod_echoed:
  assumes "live s" and "request_ok rq kvs (reqmod_entities hdr)" and "hdr \<noteq> []" and "body_ok cs hx ext"
    and "chunk_data cs \<noteq> []" and "length hdr + length (chunk_data cs) < 2 ^ 31"
    and "s_in s = request_head rq kvs (reqmod_entities hdr) @ hdr @ body_text cs hx ext @ rest"
    and "\<not> keeps kvs" and "map_of (rev kvs) ''Preview'' = None" and "rq_method rq = ''REQMOD''"
    and "find_req_handler hs ''REQMOD'' = Some (Mod_handler rh)" and "serves_as tick md rh"
    and "tick w = (ev, w')"
  shows "\<exists>s'. serve_client tick hs s m w = Some (m - 1, s', w') \<and> s_in s' = rest \<and>
    s_out s' = s_out s @ reply ''ICAP/1.0 200 OK'' (closing_fields (e_clock ev))
      (''req-hdr=0, req-body='' @ itoa (int (length hdr))) (hdr @ sent_body (chunk_data cs))"
proof -
  have "answered tick hs (keeps kvs) (request_head rq kvs (reqmod_entities hdr) @ hdr @ body_text cs hx ext) []
      (echo_reply (module_env md ev) (reqmod_payload hdr (chunk_data cs) False)) w w'"
    by (rule reqmod_answered) (use assms in simp_all)
  from closing_exchange [OF this assms(8,1), of rest m] show ?thesis
    using assms(7) echo_reply_encapsulated(1) [OF assms(3,5,6), of "module_env md ev"]
    by (simp add: echo_reply_text) (simp add: payload_text_def reqmod_payload_def sent_body_def)
qed

theorem reqmod_echoed_witness:
  "\<exists>s'. serve_client demo_tick demo_table
      (demo_sock (request_head (demo_request ''REQMOD'') demo_fields (reqmod_entities demo_hdr) @
        demo_hdr @ body_text demo_chunks ''0'' [] @ ''next'')) 1 () = Some (0, s', ()) \<and> s_in s' = ''next'' \<and>
    s_out s' = reply ''ICAP/1.0 200 OK'' (closing_fields (e_clock demo_env))
      ''req-hdr=0, req-body=18'' (demo_hdr @ sent_body ''abc'')"
  using reqmod_echoed [of "demo_sock (request_head (demo_request ''REQMOD'') demo_fields
        (reqmod_entities demo_hdr) @ demo_hdr @ body_text demo_chunks ''0'' [] @ ''next'')"
      "demo_request ''REQMOD''" demo_fields demo_hdr demo_chunks "''0''" "[]" "''next''"
      demo_table "demo_handler ''REQMOD''" demo_tick Echo "()" demo_env "()" 1]
  by (simp add: demo_requests_ok demo_texts demo_bodies_ok demo_find echo_serves [OF demo_echo_only] demo_tick_def demo_itoa)

text \<open>
  A RESPMOD request (both header sections, chunked body, no preview): the response carries
  the encapsulated response, header section and body, and not the request's header section.
\<close>

theorem respmod_echoed:
  assumes "live s" and "request_ok rq kvs (respmod_entities hdr rhdr)" and "hdr \<noteq> []" and "rhdr \<noteq> []"
    and "body_ok cs hx ext" and "chunk_data cs \<noteq> []" and "length rhdr + length (chunk_data cs) < 2 ^ 31"
    and "s_in s = request_head rq kvs (respmod_entities hdr rhdr) @ hdr @ rhdr @ body_text cs hx ext @ rest"
    and "\<not> keeps kvs" and "map_of (rev kvs) ''Preview'' = None" and "rq_method rq = ''RESPMOD''"
    and "find_req_handler hs ''RESPMOD'' = Some (Mod_handler rh)" and "serves_as tick md rh"
    and "tick w = (ev, w')"
  shows "\<exists>s'. serve_client tick hs s m w = Some (m - 1, s', w') \<and> s_in s' = rest \<and>
    s_out s' = s_out s @ reply ''ICAP/1.0 200 OK'' (closing_fields (e_clock ev))
      (''res-hdr=0, res-body='' @ itoa (int (length rhdr))) (rhdr @ sent_body (chunk_data cs))"
proof -
  have "answered tick hs (keeps kvs)
      (request_head rq kvs (respmod_entities hdr rhdr) @ hdr @ rhdr @ body_text cs hx ext) []
      (echo_reply (module_env md ev) (respmod_payload [] rhdr (chunk_data cs) False)) w w'"
    by (rule respmod_answered) (use assms in simp_all)
  from closing_exchange [OF this assms(9,1), of rest m] show ?thesis
    using assms(8) echo_reply_encapsulated(3) [OF assms(4,6,7), of "module_env md ev"]
    by (simp add: echo_reply_text) (simp add: payload_text_def respmod_payload_def sent_body_def)
qed

theorem respmod_echoed_witness:
  "\<exists>s'. serve_client demo_tick demo_table
      (demo_sock (request_head (demo_request ''RESPMOD'') demo_fields (respmod_entities demo_hdr demo_rhdr) @
        demo_hdr @ demo_rhdr @ body_text demo_chunks2 ''0'' [] @ ''next'')) 1 () = Some (0, s', ()) \<and>
    s_in s' = ''next'' \<and>
    s_out s' = reply ''ICAP/1.0 200 OK'' (closing_fields (e_clock demo_env))
      (''res-hdr=0, res-body='' @ itoa 19) (demo_rhdr @ sent_body ''def'')"
  using respmod_echoed [of "demo_sock (request_head (demo_request ''RESPMOD'') demo_fields
        (respmod_entities demo_hdr demo_rhdr) @ demo_hdr @ demo_rhdr @ body_text demo_chunks2 ''0'' [] @ ''next'')"
      "demo_request ''RESPMOD''" demo_fields demo_hdr demo_rhdr demo_chunks2 "''0''" "[]" "''next''"
      demo_table "demo_handler ''RESPMOD''" demo_tick Echo "()" demo_env "()" 1]
  by (simp add: demo_requests_ok demo_texts demo_bodies_ok demo_find echo_serves [OF demo_echo_only] demo_tick_def)

text \<open>
  A REQMOD request with a preview that does not hold the whole body: the server writes a
  100 response, reads the rest of the body, and answers with the whole body.
\<close>

theorem reqmod_preview_echoed:
  assumes "live s" and "request_ok rq kvs (reqmod_entities hdr)" and "hdr \<noteq> []" and "body_ok cs hx ext"
    and "s_in s = request_head rq kvs (reqmod_entities hdr) @ hdr @ body_text cs hx ext @
      body_text cs' hx' ext' @ rest"
    and "\<not> keeps kvs" and "map_of (rev kvs) ''Preview'' = Some v" and "v \<noteq> []" and "0 \<le> atoi v"
    and "chunk_extension ext \<noteq> ''ieof''" and "body_ok cs' hx' ext'" and "rq_method rq = ''REQMOD''"
    and "find_req_handler hs ''REQMOD'' = Some (Mod_handler rh)" and "serves_as tick md rh"
    and "tick w = (ev, w')" and "tick w' = (ev', w'')"
    and "chunk_data cs @ chunk_data cs' \<noteq> []"
    and "length hdr + length (chunk_data cs @ chunk_data cs') < 2 ^ 31"
  shows "\<exists>s'. serve_client tick hs s m w = Some (m - 1, s', w'') \<and> s_in s' = rest \<and>
    s_out s' = s_out s @
      reply ''ICAP/1.0 100 Continue'' (tl (closing_fields (e_clock ev))) ''null-body=0'' [] @
      reply ''ICAP/1.0 200 OK'' (closing_fields (e_clock ev'))
        (''req-hdr=0, req-body='' @ itoa (int (length hdr)))
        (hdr @ sent_body (chunk_data cs @ chunk_data cs'))"
proof -
  have "answered tick hs (keeps kvs)
      (request_head rq kvs (reqmod_entities hdr) @ hdr @ body_text cs hx ext @ body_text cs' hx' ext')
      (response_text (new_response (e_clock ev) (e_junk ev) CONTINUE))
      (echo_reply (module_env md ev') (reqmod_payload hdr (chunk_data cs @ chunk_data cs') False)) w w''"
    by (rule preview_answered [where tick = tick and w = w and ev = ev and w' = w']) (use assms in simp_all)
  from closing_exchange [OF this assms(6,1), of rest m] show ?thesis
    using assms(5) echo_reply_encapsulated(1) [OF assms(3,17,18), of "module_env md ev'"]
    by (simp add: echo_reply_text new_response_text) (simp add: payload_text_def reqmod_payload_def sent_body_def)
qed

theorem reqmod_preview_echoed_witness:
  "\<exists>s'. serve_client demo_tick demo_table
      (demo_sock (request_head (demo_request ''REQMOD'') demo_preview_fields (reqmod_entities demo_hdr) @
        demo_hdr @ body_text demo_chunks ''0'' [] @ body_text demo_chunks2 ''0'' [] @ ''next'')) 5 () =
      Some (4, s', ()) \<and> s_in s' = ''next'' \<and>
    s_out s' = reply ''ICAP/1.0 100 Continue'' (tl (closing_fields (e_clock demo_env))) ''null-body=0'' [] @
      reply ''ICAP/1.0 200 OK'' (closing_fields (e_clock demo_env)) ''req-hdr=0, req-body=18''
        (demo_hdr @ sent_body ''abcdef'')"
  using reqmod_preview_echoed [of "demo_sock (request_head (demo_request ''REQMOD'') demo_preview_fields
        (reqmod_entities demo_hdr) @ demo_hdr @ body_text demo_chunks ''0'' [] @
        body_text demo_chunks2 ''0'' [] @ ''next'')"
      "demo_request ''REQMOD''" demo_preview_fields demo_hdr demo_chunks "''0''" "[]" demo_chunks2 "''0''" "[]"
      "''next''" "''3''" demo_table "demo_handler ''REQMOD''" demo_tick Echo "()" demo_env "()" demo_env "()" 5]
  by (simp add: demo_requests_ok demo_texts demo_bodies_ok demo_find echo_serves [OF demo_echo_only] demo_tick_def demo_itoa demo_atoi)

text \<open>
  C4. The whole body came with the preview (\<open>ieof\<close>): echo still answers 100, which is illegal
  then, and the client gets a 500 response; nothing else is read or written.
\<close>

theorem reqmod_ieof_error:
  assumes "live s" and "request_ok rq kvs (reqmod_entities hdr)" and "hdr \<noteq> []" and "body_ok cs hx ext"
    and "s_in s = request_head rq kvs (reqmod_entities hdr) @ hdr @ body_text cs hx ext @ rest"
    and "\<not> keeps kvs" and "map_of (rev kvs) ''Preview'' = Some v" and "v \<noteq> []" and "0 \<le> atoi v"
    and "chunk_extension ext = ''ieof''" and "rq_method rq = ''REQMOD''"
    and "find_req_handler hs ''REQMOD'' = Some (Mod_handler rh)" and "echo_only tick rh"
    and "tick w = (ev, w')" and "tick w' = (ev', w'')"
  shows "\<exists>s'. serve_client tick hs s m w = Some (m - 1, s', w'') \<and> s_in s' = rest \<and>
    s_out s' = s_out s @ reply ''ICAP/1.0 500 Server error'' (closing_fields (e_clock ev')) ''null-body=0'' []"
proof -
  have "answered tick hs (keeps kvs) (request_head rq kvs (reqmod_entities hdr) @ hdr @ body_text cs hx ext) []
      (new_response (e_clock ev') (e_junk ev') SERVER_ERROR) w w''"
    using assms(14,15)
    by (intro ieof_answered [OF assms(2-4,7-12) echo_serves [OF assms(13)]])
      (simp add: whole_reply_def server_error_def)
  from closing_exchange [OF this assms(6,1), of rest m] show ?thesis
    using assms(5) by (simp add: new_response_text)
qed

theorem reqmod_ieof_error_witness:
  "\<exists>s'. serve_client demo_tick demo_table
      (demo_sock (request_head (demo_request ''REQMOD'') demo_preview_fields (reqmod_entities demo_hdr) @
        demo_hdr @ body_text demo_chunks ''0'' ''; ieof'' @ ''next'')) 5 () = Some (4, s', ()) \<and>
    s_in s' = ''next'' \<and>
    s_out s' = reply ''ICAP/1.0 500 Server error'' (closing_fields (e_clock demo_env)) ''null-body=0'' []"
  using reqmod_ieof_error [of "demo_sock (request_head (demo_request ''REQMOD'') demo_preview_fields
        (reqmod_entities demo_hdr) @ demo_hdr @ body_text demo_chunks ''0'' ''; ieof'' @ ''next'')"
      "demo_request ''REQMOD''" demo_preview_fields demo_hdr demo_chunks "''0''" "''; ieof''"
      "''next''" "''3''" demo_table "demo_handler ''REQMOD''" demo_tick "()" demo_env "()" demo_env "()" 5]
  by (simp add: demo_requests_ok demo_texts demo_bodies_ok demo_find demo_echo_only demo_tick_def demo_atoi)

text \<open>
  C5. An OPTIONS request to a server whose handlers are loaded from its configuration: the
  answer names REQMOD and nothing else as the method, whatever is configured, with the fields
  the handler adds; RESPMOD, which is registered too, is not named.
\<close>

theorem options_answered:
  assumes "config_ok c" and "linker_ok linker" and "load_req_handlers linker junk c = Some hs"
    and "live s" and "request_ok rq kvs ps" and "s_in s = request_head rq kvs ps @ rest"
    and "\<not> keeps kvs" and "rq_method rq = ''OPTIONS''" and "tick w = (ev, w')"
  shows "\<exists>s'. serve_client tick hs s m w = Some (m - 1, s', w') \<and> s_in s' = rest \<and>
    s_out s' = s_out s @ reply ''ICAP/1.0 200 OK''
      ((''Allow'', ''204'') # take 3 (closing_fields (e_clock ev)) @
        [(''Methods'', ''REQMOD''), (''Options-TTL'', ''3600''),
         (''Server'', trim (cl_package (e_clock ev)))]) ''null-body=0'' []"
proof -
  obtain oh where oh: "find_req_handler hs ''OPTIONS'' = Some (Options_handler oh)"
      "hd_methods oh = [''REQMOD'', ''RESPMOD'']"
    using load_req_handlers_ok [OF assms(1,2), of junk] assms(3) by auto
  have "trim ''REQMOD'' = ''REQMOD''" by (rule trim_id) (simp add: trimmed_def is_space_def)
  moreover have "answered tick hs (keeps kvs) (request_head rq kvs ps) [] (options_response ev ''REQMOD'') w w'"
    by (rule options_answered_by [OF assms(5,8) oh]) (rule assms(9))
  note closing_exchange [OF this assms(7,4,6), of m]
  ultimately show ?thesis by (simp add: options_text)
qed

theorem options_answered_witness:
  "\<exists>s'. serve_client demo_tick demo_table
      (demo_sock (request_head (demo_request ''OPTIONS'') demo_fields [(''null-body'', 0)])) 9 () =
      Some (8, s', ()) \<and> s_in s' = [] \<and>
    s_out s' = reply ''ICAP/1.0 200 OK''
      ((''Allow'', ''204'') # take 3 (closing_fields (e_clock demo_env)) @
        [(''Methods'', ''REQMOD''), (''Options-TTL'', ''3600''),
         (''Server'', trim (cl_package (e_clock demo_env)))]) ''null-body=0'' []"
  using options_answered [OF demo_config_ok demo_linker_ok demo_loaded, of
      "demo_sock (request_head (demo_request ''OPTIONS'') demo_fields [(''null-body'', 0)])"
      "demo_request ''OPTIONS''" demo_fields "[(''null-body'', 0)]" "[]" demo_tick "()" demo_env "()" 9]
  by (simp add: demo_requests_ok demo_texts demo_tick_def)

text \<open>
  A method no handler is registered for is answered with 405, after its header only: a body
  is left unread.
\<close>

theorem unknown_method_refused:
  assumes "live s" and "request_ok rq kvs ps" and "s_in s = request_head rq kvs ps @ rest"
    and "\<not> keeps kvs" and "find_req_handler hs (rq_method rq) = None" and "tick w = (ev, w')"
  shows "\<exists>s'. serve_client tick hs s m w = Some (m - 1, s', w') \<and> s_in s' = rest \<and>
    s_out s' = s_out s @ reply ''ICAP/1.0 405 Method not allowed for service''
      (closing_fields (e_clock ev)) ''null-body=0'' []"
proof -
  have "answered tick hs (keeps kvs) (request_head rq kvs ps) [] (not_allowed_response ev) w w'"
    by (rule unknown_answered [OF assms(2,5)]) (rule assms(6))
  from closing_exchange [OF this assms(4,1,3), of m] show ?thesis by (simp add: not_allowed_text)
qed

theorem unknown_method_refused_witness:
  "\<exists>s'. serve_client demo_tick demo_table
      (demo_sock (request_head (demo_request ''FOO'') demo_fields [(''null-body'', 0)] @ ''rest'')) 9 () =
      Some (8, s', ()) \<and> s_in s' = ''rest'' \<and>
    s_out s' = reply ''ICAP/1.0 405 Method not allowed for service''
      (closing_fields (e_clock demo_env)) ''null-body=0'' []"
  using unknown_method_refused [of
      "demo_sock (request_head (demo_request ''FOO'') demo_fields [(''null-body'', 0)] @ ''rest'')"
      "demo_request ''FOO''" demo_fields "[(''null-body'', 0)]" "''rest''" demo_table demo_tick "()" demo_env "()" 9]
  by (simp add: demo_requests_ok demo_texts demo_find demo_tick_def)

text \<open>
  C6. A worker loaded from a sound configuration, with modules that keep their contract, never
  dies and its loop ends, whatever the clients send and whatever fails, after at most
  \<open>max_requests\<close> connections.
\<close>

theorem worker_survives:
  assumes "config_ok c" and "linker_ok linker"
  shows "\<exists>hs. load_req_handlers linker junk c = Some hs \<and>
    map fst hs = [''OPTIONS'', ''REQMOD'', ''RESPMOD''] \<and>
    (\<forall>accept timeout m comm w. \<exists>closed w'.
      run tick accept timeout hs m comm w = Some (closed, w') \<and> length closed \<le> unat m)"
proof -
  obtain hs where hs: "load_req_handlers linker junk c = Some hs" "table_ok hs"
      "map fst hs = [''OPTIONS'', ''REQMOD'', ''RESPMOD'']"
    using load_req_handlers_ok [OF assms, of junk] by (elim exE conjE) (rule that)
  have "\<exists>closed w'. run tick accept timeout hs m comm w = Some (closed, w') \<and> length closed \<le> unat m"
    for accept timeout m comm w
  proof -
    obtain closed w' where r: "run tick accept timeout hs m comm w = Some (closed, w')"
      using run_total [OF hs(2), of tick accept timeout m comm w]
      by (cases "run tick accept timeout hs m comm w") auto
    with run_connections [OF r] show ?thesis by simp
  qed
  with hs show ?thesis by simp
qed

theorem worker_survives_witness:
  "\<exists>hs. load_req_handlers demo_linker demo_junk demo_config = Some hs \<and>
    map fst hs = [''OPTIONS'', ''REQMOD'', ''RESPMOD''] \<and>
    (\<forall>accept timeout m comm w. \<exists>closed w'.
      run demo_tick accept timeout hs m comm w = Some (closed, w') \<and> length closed \<le> unat m)"
  by (rule worker_survives [OF demo_config_ok demo_linker_ok])

text \<open>
  C7. A connection on which any of the writes and flushes fail, by an exception or by the state of
  the stream, each with any part of its bytes accepted, against one on which they all work, for
  whatever a client sends: the worker returns from both. What the stream took, of which the client
  gets a beginning, is a prefix of what it takes when nothing fails, so no answer has a gap and none is
  followed by another one after a part of it was lost; no more is read. When the connection is still
  good at the end nothing was lost, everything the stream took was flushed, if that was so before,
  and counter, world and connection are the same.
\<close>

theorem lost_writes_prefix:
  assumes "table_ok hs" and "\<forall>e\<in>set (s_wev s). e = W_ok"
  shows "\<exists>m1 s1 w1 m2 s2 w2. serve_client tick hs s m w = Some (m1, s1, w1) \<and>
    serve_client tick hs (s\<lparr>s_wev := v\<rparr>) m w = Some (m2, s2, w2) \<and> prefix (s_out s2) (s_out s1) \<and>
    suffix (s_in s1) (s_in s2) \<and> (s_good s2 \<longrightarrow> m2 = m1 \<and> w2 = w1 \<and> s2 = s1\<lparr>s_wev := s_wev s2\<rparr> \<and>
      (s_flushed s = length (s_out s) \<longrightarrow> s_flushed s2 = length (s_out s2)))"
proof -
  obtain m1 s1 w1 m2 s2 w2 where r: "serve_client tick hs s m w = Some (m1, s1, w1)"
      "serve_client tick hs (s\<lparr>s_wev := v\<rparr>) m w = Some (m2, s2, w2)" "prefix (s_out s2) (s_out s1)"
      "suffix (s_in s1) (s_in s2)" "s_good s2 \<longrightarrow> m2 = m1 \<and> w2 = w1 \<and> s2 = s1\<lparr>s_wev := s_wev s2\<rparr>"
    using lossy_connection [OF assms(1), of s tick m w v] assms(2) unfolding sound_def by blast
  moreover have "s_good s2 \<Longrightarrow> s_flushed s = length (s_out s) \<Longrightarrow> s_flushed s2 = length (s_out s2)"
    using pushed_serve [OF r(2)] by (simp add: pushed_def)
  ultimately show ?thesis by blast
qed

theorem lost_writes_prefix_witness:
  "\<exists>m2 s2 w2. serve_client demo_tick demo_table
      ((demo_sock (request_bytes (demo_session ! 0)))\<lparr>s_wev := [W_ok, W_ok, W_throw 3]\<rparr>) 5 () = Some (m2, s2, w2) \<and>
    prefix (s_out s2) (reply ''ICAP/1.0 200 OK'' (options_fields True (e_clock demo_env)) ''null-body=0'' [])"
proof -
  let ?s = "demo_sock (request_bytes (demo_session ! 0))"
  have w: "\<forall>r\<in>set [demo_session ! 0]. well_formed r" using demo_session_ok by (simp add: demo_session_def)
  have r: "session demo_tick Echo [demo_session ! 0] 5 () =
      (reply ''ICAP/1.0 200 OK'' (options_fields True (e_clock demo_env)) ''null-body=0'' [], False, [], 4, ())"
    by (simp add: demo_session_def keeps_connection_def demo_texts demo_tick_def cr_method_def)
  obtain s1 w1 where "serve_client demo_tick demo_table ?s 5 () = Some (3, s1, w1)"
      "s_out s1 = reply ''ICAP/1.0 200 OK'' (options_fields True (e_clock demo_env)) ''null-body=0'' []"
    using connection_steps [OF demo_module_table w _ _ r, of ?s] by auto
  moreover have "\<forall>e\<in>set (s_wev ?s). e = W_ok" by (simp add: demo_sock_def)
  ultimately show ?thesis
    using lost_writes_prefix [OF demo_table_ok, of ?s demo_tick 5 "()" "[W_ok, W_ok, W_throw 3]"] by auto
qed

section \<open>Objects\<close>

text \<open>
  Serving a client over the store of objects, with every \<open>new\<close>, \<open>delete\<close> and pointer of the
  code: no object is used or deleted that is not there, or deleted twice, for any connection,
  any table of handlers and any modules; the result is that of the functions on values, and
  every object there was before is there after, unchanged.
\<close>

theorem serving_memory_safe:
  assumes "heap_ok h"
  shows "case serve_client tick hs s m w of
      None \<Rightarrow> serve_client_object tick hs None s m w h = None
    | Some r \<Rightarrow> \<exists>left h'. serve_client_object tick hs None s m w h = Some (r, h') \<and> adds h left h'"
proof -
  have "dropped None h = Some h" by (simp add: dropped_def)
  from serve_client_object_refines [OF this assms] show ?thesis .
qed

theorem serving_memory_safe_witness:
  "\<exists>s' left h'. serve_client_object demo_tick demo_table None
      (demo_sock (concat (map request_bytes demo_session))) 5 () demo_heap = Some ((2, s', ()), h') \<and>
    adds demo_heap left h'"
proof -
  obtain s' where "serve_client demo_tick demo_table (demo_sock (concat (map request_bytes demo_session))) 5 () =
      Some (2, s', ())"
    using session_steps [OF demo_module_table demo_session_ok _ _ demo_session_result,
        of "demo_sock (concat (map request_bytes demo_session))" "[]"] by auto
  with serving_memory_safe [OF demo_heap_ok(1), of demo_tick demo_table
      "demo_sock (concat (map request_bytes demo_session))" 5 "()"] show ?thesis by auto
qed

text \<open>
  C8. The loop of a worker over the store, with the connections it accepts and closes: nothing is
  used or deleted that is not there, or deleted twice, whatever the clients send, the modules do and
  the sockets answer; the result is that of the functions on values, every object and every
  connection there was before is there after, and of the connections accepted exactly those stay
  open whose timeout could not be set. So none stays open where that always works.
\<close>

theorem worker_memory_safe:
  assumes "heap_ok h" and "connections_ok d"
  shows "case run tick accept timeout hs m comm w of
      None \<Rightarrow> run_object tick accept timeout hs m comm w h d = None
    | Some r \<Rightarrow> \<exists>left h' l d'. run_object tick accept timeout hs m comm w h d = Some (r, h', d') \<and>
        adds h left h' \<and> leaves_open d l d' \<and> card l = unclosed tick accept timeout hs m comm w \<and>
        ((\<forall>s. timeout comm s \<noteq> None) \<longrightarrow> l = {})"
proof (cases "run tick accept timeout hs m comm w")
  case None
  with run_object_refines [OF assms, of tick accept timeout hs m comm w] show ?thesis by simp
next
  case (Some r)
  with run_object_refines [OF assms, of tick accept timeout hs m comm w]
  obtain left h' l d' where l: "run_object tick accept timeout hs m comm w h d = Some (r, h', d')" "adds h left h'"
      "leaves_open d l d'" "card l = unclosed tick accept timeout hs m comm w" by auto
  have "l = {}" if "\<forall>s. timeout comm s \<noteq> None"
    using unclosed_none [of timeout comm tick accept hs m w] that l(4) leaves_open_trans(3) [OF l(3) leaves_open_refl]
    by simp
  with l Some show ?thesis by auto
qed

theorem worker_memory_safe_witness:
  "\<exists>left h' l d'. run_object demo_tick (\<lambda>w. (Some (demo_sock []), w)) (\<lambda>_ _. None) demo_table 3 30 () demo_heap
      \<lparr>cn_next = 1, cn_open = {0}\<rparr> = Some (([], ()), h', d') \<and>
    adds demo_heap left h' \<and> cn_open d' = {0} \<union> l \<and> card l = 3"
proof -
  let ?d = "\<lparr>cn_next = 1, cn_open = {0}\<rparr>"
  have d: "connections_ok ?d" by (simp add: connections_ok_def)
  show ?thesis
    using worker_memory_safe [OF demo_heap_ok(1) d, of demo_tick "\<lambda>w. (Some (demo_sock []), w)" "\<lambda>_ _. None"
        demo_table 3 30 "()"]
    by (simp add: run.simps unclosed.simps leaves_open_def numeral_3_eq_3) blast
qed

text \<open>
  C9. What the connection of a client leaves in the store of a worker with one of the two modules:
  one header for each OPTIONS request and each request of an unknown method that was served (the
  response is built around a header that nobody deletes), one more where the input ended, and
  nothing else; of a REQMOD or RESPMOD request nothing is left.
\<close>

theorem connection_leaks:
  assumes "module_table tick md hs" and "\<forall>r\<in>set rs. well_formed r" and "live s"
    and "s_in s = concat (map request_bytes rs)" and "session tick md rs m w = (out, e, us, m', w')" and "heap_ok h"
  shows "\<exists>s' w'' h' left.
    serve_client_object tick hs None s m w h = Some ((if e then m' else m' - 1, s', w''), h') \<and>
    s_out s' = s_out s @ out \<and> adds h left h' \<and>
    card (dom left) = length (filter (\<lambda>r. header_only (cr_content r)) (served rs us)) + (if e then 0 else 1) \<and>
    ran left \<subseteq> range Response_header \<union> range Request_header"
  using connection_objects [OF assms] by (simp add: only_headers_def headers_left_def)

theorem connection_leaks_witness:
  "\<exists>s' w'' h' left.
    serve_client_object demo_tick demo_table None (demo_sock (concat (map request_bytes demo_session))) 5 ()
      empty_heap = Some ((2, s', w''), h') \<and>
    adds empty_heap left h' \<and> card (dom left) = 1 \<and> ran left \<subseteq> range Response_header \<union> range Request_header"
  using connection_leaks [OF demo_module_table demo_session_ok _ _ demo_session_result empty_heap_ok,
      of "demo_sock (concat (map request_bytes demo_session))"]
  by (auto simp: served_def demo_session_def)

text \<open>
  C10. Modifying a request with several modules: each that is asked leaves a response and its header,
  and only the last of them is passed on; the answers it replaced are never deleted.
\<close>

theorem replaced_answers_leak:
  assumes "heap_ok h" and "request_at rqa qa rq h" and "process_modify rh rq w = ((rs, rq'), w')"
  shows "\<exists>p left h'. modify_loop_object None (hd_handlers rh) rqa w h = Some ((p, w'), h') \<and>
    adds (set_request rqa qa rq' h) left h' \<and> points_to left p rs \<and>
    card (dom left) = 2 * asked (\<lambda>r. status_of r = OK) (modify_answers (loaded (hd_handlers rh)) rq w)"
proof -
  obtain p left h' where l: "modify_loop_object None (hd_handlers rh) rqa w h = Some ((p, w'), h')"
      "adds (set_request rqa qa rq' h) left h'"
      "card (dom left) = 2 * asked (\<lambda>r. status_of r = OK) (modify_answers (loaded (hd_handlers rh)) rq w)"
      "if loaded (hd_handlers rh) = [] then p = None \<and> rs = None
       else \<exists>ra ha r. p = Some ra \<and> rs = Some r \<and> response_in left ra ha r"
    using modify_loop_refines [OF assms(1,2) assms(3) [unfolded process_modify_def], of None] by blast
  then have "points_to left p rs" by (auto simp: points_to_def split: if_splits)
  with l show ?thesis by blast
qed

theorem replaced_answers_leak_witness:
  "\<exists>p left h'. modify_loop_object None (hd_handlers two_modules) 1 () demo_heap = Some ((p, ()), h') \<and>
    adds (set_request 1 0 demo_rq demo_heap) left h' \<and>
    points_to left p (Some (echo_modify demo_env demo_rq)) \<and> card (dom left) = 4"
  using replaced_answers_leak [OF demo_heap_ok two_modules_asked(1)] two_modules_asked(2) by simp

section \<open>The protocol\<close>

text \<open>
  C11. A chunked body is read back exactly: the data of the chunks, in order, appended to what
  the payload held; \<open>ieof\<close> is reported when the last chunk says so; nothing behind is read.
\<close>

theorem chunked_body_read:
  assumes "calm s" and "\<forall>c\<in>set cs. chunk_ok c" and "size_ok hx 0" and "ext_ok ext"
    and "s_in s = concat (map chunk_text cs) @ hx @ ext @ CRLF @ CRLF @ rest"
  shows "yields (read_chunked_payload payload s)
    (chunk_extension ext = ''ieof'', payload @ chunk_data cs) rest"
  by (rule read_chunked_payload_yields [OF assms])

theorem chunked_body_read_witness:
  "yields (read_chunked_payload ''x'' (demo_sock (''2;x=1'' @ CRLF @ ''de'' @ CRLF @ ''01'' @ CRLF @ ''f'' @
      CRLF @ ''0; ieof'' @ CRLF @ CRLF @ ''rest''))) (True, ''xdef'') ''rest''"
  using chunked_body_read [of "demo_sock (''2;x=1'' @ CRLF @ ''de'' @ CRLF @ ''01'' @ CRLF @ ''f'' @
      CRLF @ ''0; ieof'' @ CRLF @ CRLF @ ''rest'')" demo_chunks2 "''0''" "''; ieof''" "''rest''" "''x''"]
    demo_bodies_ok by (simp add: body_ok_def demo_texts) (simp add: demo_chunks2_def)

text \<open>
  What \<open>send_chunked\<close> writes on a working connection: \<open>max 1 (size div 1024)\<close> chunks of at
  most 1024 bytes, each a size line and data with nothing behind it, then one end of line and
  the last chunk.
\<close>

theorem chunked_body_sent:
  assumes "calm s" and "length data < 2 ^ 32"
  shows "\<exists>s'. send_chunked data s = (True, s') \<and> calm s' \<and>
    s_out s' = s_out s @ sent_chunks (max 1 (length data div 1024)) data @ CRLF @ ''0'' @ CRLF @ CRLF"
  using send_chunked_calm [OF assms] by (simp add: chunks_sent_def)

theorem chunked_body_sent_witness:
  "\<exists>s'. send_chunked ''abc'' (demo_sock []) = (True, s') \<and> calm s' \<and>
    s_out s' = sent_chunks 1 ''abc'' @ CRLF @ ''0'' @ CRLF @ CRLF"
  using chunked_body_sent [of "demo_sock []" "''abc''"] by simp

text \<open>
  C12. Reading back what \<open>send_chunked\<close> wrote gives the first 1024 bytes of the body and no more:
  a body of at most 1024 bytes survives, a longer one is cut.
\<close>

theorem sent_body_read_back:
  assumes "calm s" and "s_out s = []" and "data \<noteq> []" and "length data < 2 ^ 32"
    and "calm r" and "s_in r = s_out (snd (send_chunked data s)) @ rest"
  shows "fst (read_chunked_payload payload r) = (False, payload @ take 1024 data)"
  by (rule send_read_back [OF assms])

theorem sent_body_read_back_witness:
  "fst (read_chunked_payload [] (demo_sock (s_out (snd (send_chunked (replicate 1500 CHR ''x'') (demo_sock []))) @ []))) =
    (False, replicate 1024 CHR ''x'')"
  using sent_body_read_back [of "demo_sock []" "replicate 1500 CHR ''x''"
      "demo_sock (s_out (snd (send_chunked (replicate 1500 CHR ''x'') (demo_sock []))) @ [])" "[]" "[]"]
  by (simp add: take_replicate)

text \<open>
  C13. A request header is parsed back: request line, every field whose key and value hold no
  colon (the last of equal keys counts), and the Encapsulated offsets; the reader stops right
  behind the empty line.
\<close>

theorem request_header_parsed:
  assumes "live s" and "request_ok rq kvs ps" and "s_in s = request_head rq kvs ps @ rest"
  shows "\<exists>hdr s1. read_req_header s = (hdr, s1) \<and> s_in s1 = rest \<and> live s1 \<and>
    method_of hdr = rq_method rq \<and> uri hdr = rq_uri rq \<and> protocol hdr = rq_protocol rq \<and>
    (\<forall>k. k \<noteq> ''Encapsulated'' \<longrightarrow> header_value k hdr =
      (case map_of (rev kvs) k of Some v \<Rightarrow> v | None \<Rightarrow> [])) \<and>
    h_encapsulated hdr = fold (\<lambda>(k, v). smap_set k v) ps init_encapsulated"
proof -
  let ?hdr = "new_request_header (lines_text (request_lines rq kvs ps))"
  have "yields (read_req_header s) ?hdr rest"
    using assms by (intro read_req_header_yields) (auto simp: live_def request_ok_def request_head_def)
  then obtain s1 where s1: "read_req_header s = (?hdr, s1)" "s_in s1 = rest" "calm s1"
    by (rule yieldsE)
  have "consumed s s1" using rqh.consumes [of s] s1(1) by simp
  then have "live s1" using live_consumed [OF assms(1)] s1(3) by simp
  with s1 parse_request [OF assms(2)] show ?thesis by (simp add: method_of_def uri_def protocol_def)
qed

theorem request_header_parsed_witness:
  "\<exists>hdr s1. read_req_header (demo_sock (request_head (demo_request ''REQMOD'') demo_fields
      (reqmod_entities demo_hdr) @ ''rest'')) = (hdr, s1) \<and> s_in s1 = ''rest'' \<and> live s1 \<and>
    method_of hdr = ''REQMOD'' \<and> uri hdr = ''icap://h/s'' \<and> protocol hdr = ''ICAP/1.0'' \<and>
    (\<forall>k. k \<noteq> ''Encapsulated'' \<longrightarrow> header_value k hdr =
      (case map_of (rev demo_fields) k of Some v \<Rightarrow> v | None \<Rightarrow> [])) \<and>
    h_encapsulated hdr = fold (\<lambda>(k, v). smap_set k v) (reqmod_entities demo_hdr) init_encapsulated"
  using request_header_parsed [of "demo_sock (request_head (demo_request ''REQMOD'') demo_fields
      (reqmod_entities demo_hdr) @ ''rest'')" "demo_request ''REQMOD''" demo_fields "reqmod_entities demo_hdr" "''rest''"]
  by (simp add: demo_requests_ok demo_texts)

text \<open>
  C14. Reading equals a reference on strings, for every input, well-formed or not: on a connection
  whose reads do not raise, the request that \<open>read_req_header\<close> and \<open>read_req_data\<close> make of it, what
  they leave unread and whether the stream is good are given by \<open>request_of\<close>, and so for the rest of
  a body and \<open>continued_of\<close>. These have no stream, no loop over bytes and no buffer: they cut the
  text at its ends of line, and say what becomes of text that ends early.
\<close>

theorem requests_read_as_reference:
  assumes "quiet s"
  shows "apsnd unread (case read_req_header s of (hdr, s') \<Rightarrow> read_req_data (new_request hdr) s') =
      request_of (s_junk s) (unread s) \<and>
    apsnd unread (read_req_continue_data rq s) = continued_of rq (s_junk s) (unread s)"
  using reads_as.as_ref [OF reads_as_request assms] rqcont.as_ref [OF assms] by simp

text \<open>A connection that ends in the middle of a chunk: the bytes that are there are lost, and success reported.\<close>

theorem requests_read_as_reference_witness:
  "let rq = new_request \<lparr>h_headers = [], h_encapsulated = [(''req-body'', 0)], rh_request = demo_request ''REQMOD'',
         rh_raw_data = []\<rparr>
   in \<exists>rq' s'. read_req_continue_data rq (demo_sock (''4'' @ CRLF @ ''abc'')) = ((True, rq'), s') \<and>
     req_body (q_payload rq') = [] \<and> unread s' = None"
proof -
  let ?rq = "new_request \<lparr>h_headers = [], h_encapsulated = [(''req-body'', 0)], rh_request = demo_request ''REQMOD'',
    rh_raw_data = []\<rparr>" and ?s = "demo_sock (''4'' @ CRLF @ ''abc'')"
  have "quiet ?s" by (simp add: quiet_def demo_sock_def)
  note reads_as_reference = requests_read_as_reference [OF this, of ?rq]
  have u: "unread ?s = Some (''4'' @ CRLF @ ''abc'')" by (simp add: unread_def)
  have l: "line_of False (Some (''4'' @ CRLF @ ''abc'')) = (''4'', Some ''abc'')"
    by (simp add: line_of_def positive_def)
  have "split ''4'' '';'' = [''4'']" by (rule split_none) simp
  moreover have "hextodec j ''4'' = 4" for j by (simp add: hextodec_def is_space_def digit_val_def num_value_def)
  ultimately have "chunk_head j ''4'' = \<lparr>ck_size = 4, ck_extention = [], ck_data = []\<rparr>" for j
    by (simp add: chunk_head_def)
  then have "chunk_of j (unread ?s) = (\<lparr>ck_size = 4, ck_extention = [], ck_data = []\<rparr>, None)" for j
    unfolding u chunk_of_def l prod.case by (simp add: data_of_def)
  then have "continued_of ?rq j (unread ?s) = ((True, set_request_payload (empty_payload\<lparr>ieof := False\<rparr>) ?rq), None)" for j
    by (simp add: continued_of_def new_request_def sort_encapsulated_header_def body_of_def chunked_of_def
        chunks_of.simps put_part_def)
  with reads_as_reference show ?thesis
    by (cases "read_req_continue_data ?rq ?s") (auto simp: Let_def set_request_payload_def empty_payload_def)
qed

text \<open>
  C15. The Encapsulated field parsed from what \<open>encapsulated_header_str\<close> prints: every offset
  that is set comes back, every other entity keeps the value it had.
\<close>

theorem encapsulated_round_trip:
  assumes "header_ok h" and "header_ok g" and "\<exists>k. 0 \<le> encapsulated_header k h"
  shows "encapsulated_header k (attach ''Encapsulated'' (encapsulated_header_str h) g) =
    (if 0 \<le> encapsulated_header k h then encapsulated_header k h else encapsulated_header k g)"
proof -
  obtain k0 v where "smap_find k0 (h_encapsulated h) = Some v" "0 \<le> v"
    using assms(3) by (auto simp: encapsulated_header_def split: option.splits)
  then have "\<exists>v\<in>snd ` set (h_encapsulated h). 0 \<le> v"
    using map_of_SomeD [of "h_encapsulated h" k0 v] by (force simp: smap_find_map_of)
  moreover have "enc_ok (h_encapsulated g)" using assms(2) by (simp add: header_ok_def)
  ultimately obtain enc' where
    e: "fold attach_entity (split (trim (encapsulated_header_str h)) '','') (True, h_encapsulated g) = (True, enc')"
      "\<And>k. smap_find k enc' = (case smap_find k (h_encapsulated h) of
         Some v \<Rightarrow> if 0 \<le> v then Some v else smap_find k (h_encapsulated g)
       | None \<Rightarrow> smap_find k (h_encapsulated g))"
    using attach_printed_encapsulated [OF assms(1)] by blast
  have tt: "trim (trim x) = trim x" for x by (rule trim_id, rule trimmed_trim)
  have "trim ''Encapsulated'' = ''Encapsulated''" by (rule trim_id) (simp add: trimmed_def is_space_def)
  then have "h_encapsulated (attach ''Encapsulated'' (encapsulated_header_str h) g) = enc'"
    using e(1) by (simp add: attach_def attach_encapsulated_def Let_def tt)
  then show ?thesis
    using e(2) [of k] by (simp add: encapsulated_header_def split: option.splits)
qed

theorem encapsulated_round_trip_witness:
  "encapsulated_header ''null-body'' (attach ''Encapsulated''
      (encapsulated_header_str (update_encapsulated (reqmod_payload ''abc'' [] False) new_header)) new_header) =
    encapsulated_header ''null-body'' (update_encapsulated (reqmod_payload ''abc'' [] False) new_header)"
proof -
  let ?h = "update_encapsulated (reqmod_payload ''abc'' [] False) new_header"
  have e: "encapsulated_header ''null-body'' ?h = 3"
    by (simp add: encapsulated_header_def update_encapsulated_nat reqmod_payload_def Let_def
        new_header_def init_encapsulated_sorted)
  then have "\<exists>k. 0 \<le> encapsulated_header k ?h" by (metis zero_le_numeral)
  from encapsulated_round_trip [OF update_encapsulated_ok [OF header_ok_new] header_ok_new this]
  show ?thesis using e by simp
qed

text \<open>
  C16. The offsets \<open>update_encapsulated\<close> writes for a payload below 2 GiB: every part that is
  not empty gets the number of bytes before it, an empty part keeps what the map held, and
  null-body gets the total length exactly when one part makes up the whole payload, even when
  that part is a body.
\<close>

theorem encapsulated_offsets:
  assumes "length (req_header p) + length (req_body p) + length (res_header p) + length (res_body p) < 2 ^ 31"
  shows "let a = length (req_header p); b = length (req_body p); c = length (res_header p);
      d = length (res_body p); total = a + b + c + d; old = (\<lambda>e. encapsulated_header e h);
      new = (\<lambda>e. encapsulated_header e (update_encapsulated p h))
    in new ''req-hdr'' = (if a = 0 then old ''req-hdr'' else 0) \<and>
       new ''req-body'' = (if b = 0 then old ''req-body'' else int a) \<and>
       new ''res-hdr'' = (if c = 0 then old ''res-hdr'' else int (a + b)) \<and>
       new ''res-body'' = (if d = 0 then old ''res-body'' else int (a + b + c)) \<and>
       new ''null-body'' = (if total \<in> {a, b, c, d} then int total else old ''null-body'')"
  unfolding Let_def
  using update_encapsulated_nat [OF assms, of h]
  by (cases "req_header p = []"; cases "req_body p = []"; cases "res_header p = []"; cases "res_body p = []")
    (simp_all add: encapsulated_header_def Let_def smap_find_set)

theorem encapsulated_offsets_witness:
  "encapsulated_header ''res-body'' (update_encapsulated (respmod_payload ''ab'' ''cde'' ''f'' False) new_header) = 5"
  using encapsulated_offsets [of "respmod_payload ''ab'' ''cde'' ''f'' False" new_header]
  by (simp add: respmod_payload_def Let_def)

text \<open>
  C17. Every operation on a header keeps it well-formed: both maps sorted, exactly the six
  entities with values of an \<open>int\<close>, keys and values without blanks around them; the
  constructors of both kinds of header establish it.
\<close>

theorem headers_well_formed:
  "header_ok (new_request_header raw) \<and> header_ok (new_response_header cl st) \<and>
   (header_ok h \<longrightarrow> header_ok (attach k v h) \<and> header_ok (snd (remove_header k h)) \<and>
      header_ok (snd (attach_encapsulated v h)) \<and> header_ok (update_encapsulated p h))"
  by (auto simp: new_request_header_ok new_response_header_ok attach_ok remove_header_ok
      attach_encapsulated_ok update_encapsulated_ok)

theorem headers_well_formed_witness:
  "header_ok (attach '' Host '' ''x '' new_header)"
  using headers_well_formed [where h = new_header and k = "'' Host ''" and v = "''x ''"] header_ok_new by blast

text \<open>
  \<open>sort_encapsulated_header\<close> gives the entities in order of their offsets, all of them and
  only them, those of equal offset in the order of the map.
\<close>

theorem encapsulated_sorted:
  "mset (sort_encapsulated_header h) = mset (h_encapsulated h) \<and>
   sorted (map snd (sort_encapsulated_header h)) \<and>
   filter (\<lambda>e. snd e = v) (sort_encapsulated_header h) = filter (\<lambda>e. snd e = v) (h_encapsulated h)"
  by (simp add: sort_encapsulated)

section \<open>Handlers and modules\<close>

text \<open>
  C18. Modifying a request: of the answers the loaded modules would give one after another, the
  first with status 200, and no module behind it is asked; without one, the last answer; none
  only when no module is loaded.
\<close>

theorem modify_first_ok:
  "process_modify rh rq w =
    (let answers = modify_answers (loaded (hd_handlers rh)) rq w;
         pick = (\<lambda>((r, q), v). ((Some r, q), v))
     in case find (\<lambda>((r, q), v). status_of r = OK) answers of
          Some a \<Rightarrow> pick a
        | None \<Rightarrow> if answers = [] then ((None, rq), w) else pick (last answers))"
  by (simp add: process_modify_def process_modify_answers)

text \<open>
  C19. Previewing a request: the first answer with status 100, 200 or 204 decides, and modules
  behind it are not asked; 200 and 204 are the response, 100 goes on with the whole request or
  ends in a server error. After an answer with any other status the next module is asked, although
  the comment in \<open>process_preview\<close> says that only the first module gets a chance; the last answer is
  the response when none decides.
\<close>

theorem preview_first_decisive:
  "process_preview tick rh rq s w =
    (let answers = preview_answers (loaded (hd_handlers rh)) rq w
     in case find (\<lambda>((r, q), v). status_of r \<in> {NO_CONTENT, OK, CONTINUE}) answers of
          Some ((r, q), v) \<Rightarrow>
            if status_of r \<noteq> CONTINUE then ((Some r, q), s, v)
            else (case preview_continue r q s of
              ((ok, q'), s') \<Rightarrow>
                if ok then ((None, q'), s', v)
                else (case server_error tick v of (err, v') \<Rightarrow> ((Some err, q'), s', v')))
        | None \<Rightarrow> if answers = [] then ((None, rq), s, w)
                  else (case last answers of ((r, q), v) \<Rightarrow> ((Some r, q), s, v)))"
  unfolding process_preview_def process_preview_answers decisive_def preview_outcome_def ..

text \<open>
  A request is always answered, and when the loaded modules keep their contract the
  response has a well-formed header and the request's header stays well-formed.
\<close>

theorem process_answers:
  assumes "handlers_ok (hd_handlers rh)" and "header_ok hdr"
  shows "\<exists>rs hdr' s' w'. process tick rh hdr s w = ((rs, hdr'), s', w') \<and>
    header_ok (r_header rs) \<and> header_ok hdr'"
  using process_inv [OF assms, of tick s w]
  by (cases "process tick rh hdr s w") (auto simp: response_inv_def)

theorem process_answers_witness:
  "\<exists>rs hdr' s' w'. process demo_tick (demo_handler ''REQMOD'') (new_request_header []) (demo_sock []) () =
    ((rs, hdr'), s', w') \<and> header_ok (r_header rs) \<and> header_ok hdr'"
proof -
  have "handlers_ok (hd_handlers (demo_handler ''REQMOD''))"
    using load_handler_ok [OF demo_linker_ok] by (auto simp: handlers_ok_def loaded_def demo_handler_def)
  from process_answers [OF this new_request_header_ok] show ?thesis .
qed

text \<open>
  A response on a working connection: status line, the header fields in the order of the
  map, the Encapsulated field, an empty line, then the parts of the payload that are not empty,
  bodies chunked; everything written is flushed.
\<close>

theorem response_sent:
  assumes "calm s" and "length (req_body (r_payload rs)) < 2 ^ 32" and "length (res_body (r_payload rs)) < 2 ^ 32"
  shows "\<exists>s'. send_response rs s = (True, s') \<and> s_flushed s' = length (s_out s') \<and>
    s_out s' = s_out s @ reply (status_line (r_header rs)) (h_headers (r_header rs))
      (encapsulated_header_str (r_header rs))
      (req_header (r_payload rs) @ sent_body (req_body (r_payload rs)) @
       res_header (r_payload rs) @ sent_body (res_body (r_payload rs)))"
  using send_response_calm [OF assms] response_text_reply [of rs]
  by (auto simp: response_text_def payload_text_def)

theorem response_sent_witness:
  "\<exists>s'. send_response (new_response (e_clock demo_env) False NOT_FOUND) (demo_sock []) = (True, s') \<and>
    s_flushed s' = length (s_out s') \<and>
    s_out s' = reply (status_line (new_response_header (e_clock demo_env) NOT_FOUND))
      (h_headers (new_response_header (e_clock demo_env) NOT_FOUND))
      (encapsulated_header_str (new_response_header (e_clock demo_env) NOT_FOUND)) []"
  using response_sent [of "demo_sock []" "new_response (e_clock demo_env) False NOT_FOUND"]
  by (simp add: new_response_def empty_payload_def sent_body_def)

text \<open>
  C20. A request that encapsulates a body (below \<open>2 ^ 31\<close> bytes) and no header section: storing a
  preview with at least one byte makes the entity null-body last, so the request for the rest of the
  body reads nothing, and says it succeeded. Only with an empty preview the rest is read.
\<close>

theorem body_only_not_continued:
  assumes "h_encapsulated (q_header rq) = smap_set ''req-body'' 0 init_encapsulated"
    and "p = empty_payload\<lparr>req_body := d\<rparr>" and "length d < 2 ^ 31"
  shows "read_req_continue_data (set_request_payload p rq) s =
    (if d \<noteq> [] then ((True, set_request_payload p (set_request_payload p rq)), s)
     else case read_body ''req-body'' p s of
       (payload, s') \<Rightarrow> ((True, set_request_payload payload (set_request_payload p rq)), s'))"
  by (rule continue_body_only [OF assms])

theorem body_only_not_continued_witness:
  "\<exists>rq. h_encapsulated (q_header rq) = smap_set ''req-body'' 0 init_encapsulated \<and>
    snd (read_req_continue_data (set_request_payload (empty_payload\<lparr>req_body := ''abc''\<rparr>) rq)
      (demo_sock (body_text demo_chunks ''0'' []))) = demo_sock (body_text demo_chunks ''0'' [])"
proof -
  let ?rq = "new_request ((new_request_header [])\<lparr>h_encapsulated := smap_set ''req-body'' 0 init_encapsulated\<rparr>)"
  have e: "h_encapsulated (q_header ?rq) = smap_set ''req-body'' 0 init_encapsulated"
    by (simp add: new_request_def)
  from body_only_not_continued [OF e refl, of "''abc''"] e show ?thesis by fastforce
qed

text \<open>
  A header line of exactly 1023 bytes fills the buffer of \<open>read_req_header\<close>; the end of
  that line is then taken for the empty line, and the rest of the header is left in the
  connection as if it were the body.
\<close>

theorem long_line_ends_header:
  assumes "calm s" and "line_text l" and "length l = 1023" and "s_in s = l @ CRLF @ rest"
  shows "yields (read_req_header s) (new_request_header l) rest"
  by (rule read_req_header_full_line [OF assms])

theorem long_line_ends_header_witness:
  "yields (read_req_header (demo_sock (replicate 1023 CHR ''x'' @ CRLF @ ''Host: h'' @ CRLF @ CRLF)))
    (new_request_header (replicate 1023 CHR ''x'')) (''Host: h'' @ CRLF @ CRLF)"
  by (rule long_line_ends_header) (simp_all add: line_text_def positive_def)



text \<open>
  A header line whose value holds a colon (a URI, a time of day) is dropped: the fields
  and offsets are those of the header without that line.
\<close>

theorem colon_value_dropped:
  assumes "\<forall>l\<in>set (rl # ls1 @ field_line (k, v) # ls2). header_line l"
    and "CHR '':'' \<notin> set k" and "CHR '':'' \<in> set v"
  shows "h_headers (new_request_header (lines_text (rl # ls1 @ field_line (k, v) # ls2))) =
      h_headers (new_request_header (lines_text (rl # ls1 @ ls2))) \<and>
    h_encapsulated (new_request_header (lines_text (rl # ls1 @ field_line (k, v) # ls2))) =
      h_encapsulated (new_request_header (lines_text (rl # ls1 @ ls2)))"
  using colon_line_ignored [OF assms] by simp

theorem colon_value_dropped_witness:
  "h_headers (new_request_header (lines_text [''OPTIONS u ICAP/1.0'', ''Host: h:1344'', ''Allow: 204''])) =
    h_headers (new_request_header (lines_text [''OPTIONS u ICAP/1.0'', ''Allow: 204'']))"
  using colon_value_dropped [of "''OPTIONS u ICAP/1.0''" "[]" "''Host''" "''h:1344''" "[''Allow: 204'']"]
  by (simp add: header_line_def field_line_def positive_def)

section \<open>Text and numbers\<close>

text \<open>
  Numbers survive printing and reading: \<open>hextodec\<close> undoes \<open>dectohex\<close> for every
  \<open>unsigned int\<close>, \<open>atoi\<close> undoes \<open>itoa\<close> for what an \<open>int\<close> can hold.
\<close>

theorem numbers_read_back:
  assumes "v < 2 ^ 31"
  shows "hextodec junk (dectohex n) = n \<and> atoi (itoa (int v)) = int v"
  using hextodec_printed [of "[]" junk n] atoi_itoa_nat [OF assms] by simp

theorem numbers_read_back_witness:
  "hextodec 7 (dectohex 4096) = 4096 \<and> atoi (itoa (int 1344)) = int 1344"
  by (rule numbers_read_back) simp

text \<open>
  \<open>read_chunked\<close> gives the data of the chunks and skips the trailer lines and the empty
  line behind the last chunk.
\<close>

theorem chunked_data_read:
  assumes "calm s" and "\<forall>c\<in>set cs. chunk_ok c" and "size_ok hx 0" and "ext_ok ext"
    and "\<forall>t\<in>set ts. line_text t \<and> t \<noteq> []"
    and "s_in s = concat (map chunk_text cs) @ hx @ ext @ CRLF @
      concat (map (\<lambda>t. t @ CRLF) ts) @ CRLF @ rest"
    and "length (chunk_data cs) < 2 ^ 32"
  shows "yields (read_chunked s) (chunk_data cs) rest"
  by (rule read_chunked_yields [OF assms])

theorem chunked_data_read_witness:
  "yields (read_chunked (demo_sock (''3'' @ CRLF @ ''abc'' @ CRLF @ ''0'' @ CRLF @ ''A: b'' @ CRLF @ CRLF @ ''x'')))
    ''abc'' ''x''"
  using chunked_data_read [of "demo_sock (''3'' @ CRLF @ ''abc'' @ CRLF @ ''0'' @ CRLF @ ''A: b'' @ CRLF @ CRLF @ ''x'')"
      demo_chunks "''0''" "[]" "[''A: b'']" "''x''"] demo_bodies_ok
  by (simp add: body_ok_def demo_texts positive_def) (simp add: demo_chunks_def)

text \<open>
  Whatever a client sends and whatever the modules answer, processing a request consumes a
  prefix of the input and appends to the output; and without a preview it writes nothing.
\<close>

theorem process_only_advances:
  "let (_, rq) = fst (read_req_data (new_request hdr) s); s' = fst (snd (process tick rh hdr s w))
   in (\<exists>p. s_in s = p @ s_in s') \<and> (\<exists>o'. s_out s' = s_out s @ o') \<and>
      (preview_size rq < 0 \<longrightarrow> s_out s' = s_out s)"
proof -
  obtain b rq s1 where d: "read_req_data (new_request hdr) s = ((b, rq), s1)" by (metis prod.exhaust)
  then have b: "b = True" by (auto simp: read_req_data_def split: prod.splits)
  have o1: "s_out s1 = s_out s" using rqd.reader_out [of "new_request hdr" s] d by simp
  have "s_out (fst (snd (process tick rh hdr s w))) = s_out s" if "preview_size rq < 0"
    using process_no_preview [of hdr s rq s1 tick rh w] d b that o1 by simp
  then show ?thesis
    using process_advanced [of s tick rh hdr w] d by (simp add: advanced_def Let_def)
qed

theorem process_only_advances_witness:
  "s_out (fst (snd (process demo_tick (demo_handler ''REQMOD'') (new_request_header []) (demo_sock ''x'') ()))) = []"
proof -
  let ?h = "new_request_header []"
  have p: "preview_size (snd (fst (read_req_data (new_request ?h) (demo_sock ''x'')))) < 0"
  proof -
    obtain b rq s1 where d: "read_req_data (new_request ?h) (demo_sock ''x'') = ((b, rq), s1)"
      by (metis prod.exhaust)
    then obtain p where "rq = set_request_payload p (new_request ?h)"
      by (auto simp: read_req_data_def split: prod.splits)
    moreover have "header_value ''Preview'' ?h = []"
      by (simp add: new_request_header_pieces header.defs new_header_def header_value_def)
    ultimately show ?thesis using d by (simp add: preview_size_def new_request_def q_header_set)
  qed
  show ?thesis
    using process_only_advances [of ?h "demo_sock ''x''" demo_tick "demo_handler ''REQMOD''" "()"] p
    by (simp add: Let_def split: prod.splits)
qed

section \<open>The Python module\<close>

text \<open>
  C22. A Python module that answers with the payload dictionary it got: the response has the
  status asked for and the request's payload, but says \<open>ieof\<close> whatever the request said.
\<close>

theorem python_payload_round_trip:
  assumes "bitz_get_request (Some rq) = Py_dict outer" and "outer ''payload'' = Some d" and "st \<in> set statuses"
  shows "\<exists>rs. bitz_get_response ev [Py_int (status_code st), d] = Some rs \<and>
    r_payload rs = (q_payload rq)\<lparr>ieof := True\<rparr> \<and> rs_status (sh_response (r_header rs)) = st \<and>
    response_inv rs"
proof -
  have g: "bitz_get_response ev [Py_int (status_code st), d] =
      Some (set_response_payload ((q_payload rq)\<lparr>ieof := True\<rparr>)
        (new_response (e_clock ev) (e_junk ev) st))"
    using get_response_of_request [OF assms(1,2)] status_of_unsigned_code [OF assms(3)] by simp
  show ?thesis
    using g get_response_inv [OF g] response_of_status [of "(q_payload rq)\<lparr>ieof := True\<rparr>"] by auto
qed

theorem python_payload_round_trip_witness:
  "\<exists>outer d rs. bitz_get_request (Some (new_request (new_request_header []))) = Py_dict outer \<and>
    outer ''payload'' = Some d \<and> bitz_get_response demo_env [Py_int 204, d] = Some rs \<and>
    rs_status (sh_response (r_header rs)) = NO_CONTENT"
proof -
  obtain outer d where g: "bitz_get_request (Some (new_request (new_request_header []))) = Py_dict outer"
      "outer ''payload'' = Some d"
    by (simp add: bitz_get_request_def Let_def)
  have "NO_CONTENT \<in> set statuses" by (simp add: statuses_def)
  from python_payload_round_trip [OF g this, of demo_env] g show ?thesis by auto
qed

text \<open>
  C23. With an interface module that offers what it must and is found, a use of modpy is answered
  and the response is well-formed exactly when a module path is configured; without one the
  behaviour is undefined.
\<close>

theorem python_module_answers:
  assumes "\<And>w. fst (import_module (pc_module_path (load_configs lc)) (pc_module_name (load_configs lc)) w) = Some m"
    and "interface_ok mth m"
  shows "case ask_modpy tick import_module lc mth rq w of
      None \<Rightarrow> module_config lc ''modpy'' ''module_path'' = []
    | Some (rs, w') \<Rightarrow> module_config lc ''modpy'' ''module_path'' \<noteq> [] \<and> response_inv rs"
proof (cases "module_config lc ''modpy'' ''module_path'' = []")
  case True
  then show ?thesis by (simp add: ask_modpy_no_path)
next
  case False
  from ask_modpy_ok [where import_module = import_module and m = m and tick = tick and rq = rq and w = w,
      OF assms False] False show ?thesis by auto
qed

theorem python_module_answers_witness:
  "let lc = \<lparr>lc_read = File_ok, lc_int = (\<lambda>_. None), lc_string = (\<lambda>_. None), lc_handlers = None,
      lc_modules = Some [''modpy'' \<mapsto> [''module_path'' \<mapsto> ''/opt/py'']]\<rparr>;
     proc = Callable (\<lambda>w. (True, w));
     m = \<lparr>pm_init = proc, pm_cleanup = proc, pm_method =
       (\<lambda>_. Callable (\<lambda>rq w. (Response_capsule (bitz_get_response_from_status demo_env [Py_int 200]), w)))\<rparr>
   in \<exists>rs w'. ask_modpy demo_tick (\<lambda>_ _ w. (Some m, w)) lc ''modify'' (new_request (new_request_header [])) () =
     Some (rs, w') \<and> response_inv rs"
proof -
  let ?lc = "\<lparr>lc_read = File_ok, lc_int = (\<lambda>_. None), lc_string = (\<lambda>_. None), lc_handlers = None,
      lc_modules = Some [''modpy'' \<mapsto> [''module_path'' \<mapsto> ''/opt/py'']]\<rparr>"
  let ?proc = "Callable (\<lambda>w. (True, w))"
  let ?m = "\<lparr>pm_init = ?proc, pm_cleanup = ?proc, pm_method =
       (\<lambda>_. Callable (\<lambda>rq w. (Response_capsule (bitz_get_response_from_status demo_env [Py_int 200]), w)))\<rparr>"
  have i: "interface_ok ''modify'' ?m"
    by (simp add: interface_ok_def callable_ok_def response_from_status_inv)
  have "module_config ?lc ''modpy'' ''module_path'' \<noteq> []"
    by (simp add: module_config_def lookup_value_def)
  with python_module_answers [of "\<lambda>_ _ w. (Some ?m, w)" ?lc ?m "''modify''" demo_tick
      "new_request (new_request_header [])" "()"] i
  show ?thesis
    unfolding Let_def
    by (cases "ask_modpy demo_tick (\<lambda>_ _ w. (Some ?m, w)) ?lc ''modify'' (new_request (new_request_header [])) ()")
      auto
qed

text \<open>
  C24. The references to Python objects over the life of one object \<open>Py\<close> whose initialisation and
  clean-up are defined, with any calls of methods the interface module has: each is released as often as it
  was obtained, but \<open>sys.path\<close>, a borrowed reference, is released once; and \<open>get_request\<close> keeps a
  reference to every string it makes, the body of the request among them, for ever.
\<close>

theorem python_references:
  assumes "init_python import_module cfg w = Some (Some m, w1)"
    and "\<forall>(mth, r)\<in>set calls. pm_method m mth \<noteq> No_attr" and "cleanup_python (Some m) w2 = Some w3"
  shows "owned (life_refs cfg m calls) y = (if y = Sys_path then -1 else 0) \<and>
    (k \<in> {''request'', ''uri'', ''protocol'', ''req_header'', ''req_body'', ''res_header'', ''res_body'', ''ieof''} \<longrightarrow>
       owned (bitz_get_request_refs (Some rq)) (Item k) = 1) \<and>
    owned (bitz_get_request_refs (Some rq)) Result_dict = 0 \<and>
    owned (bitz_get_request_refs (Some rq)) Payload_dict = 0"
  using owned_life [OF defined_init [OF assms(1)] defined_cleanup [OF assms(3)] assms(2)] owned_get_request by simp

theorem python_references_witness:
  "let m = \<lparr>pm_init = Callable (\<lambda>w. (True, w)), pm_cleanup = Callable (\<lambda>w. (True, w)),
      pm_method = (\<lambda>_. Callable (\<lambda>_ w. (Other_object, w)))\<rparr> :: unit pymodule
   in owned (life_refs \<lparr>pc_module_path = ''/x'', pc_module_name = ''modpy''\<rparr> m [(''modify'', Other_object)]) Sys_path = -1 \<and>
     owned (bitz_get_request_refs (Some (new_request (new_request_header [])))) (Item ''req_body'') = 1"
proof -
  let ?m = "\<lparr>pm_init = Callable (\<lambda>w. (True, w)), pm_cleanup = Callable (\<lambda>w. (True, w)),
      pm_method = (\<lambda>_. Callable (\<lambda>_ w. (Other_object, w)))\<rparr> :: unit pymodule"
  have i: "init_python (\<lambda>_ _ w. (Some ?m, w)) \<lparr>pc_module_path = ''/x'', pc_module_name = ''modpy''\<rparr> () = Some (Some ?m, ())"
    by (simp add: init_python_def call_procedure_def)
  have "\<forall>(mth, r)\<in>set [(''modify'', Other_object)]. pm_method ?m mth \<noteq> No_attr"
      "cleanup_python (Some ?m) () = Some ()"
    by (simp_all add: cleanup_python_def call_procedure_def)
  from python_references [OF i this, of Sys_path "''req_body''" "new_request (new_request_header [])"] show ?thesis
    by (simp add: Let_def)
qed

section \<open>Configuration\<close>

text \<open>
  C25. A configuration file whose handlers all have a name, a class and a complete list of
  modules is read into one entry per handler with a right module count, whatever the memory
  held before.
\<close>

theorem configuration_read:
  assumes "lc_handlers lc = Some hs" and "snd (read_handlers junk 0 hs) = All_read"
    and "\<forall>h\<in>set hs. \<exists>ms. hs_modules h = Some ms \<and> length ms < 2 ^ 31"
  shows "\<exists>c'. read_req_handler_configs junk lc c = Done c' \<and> config_ok c' \<and>
    length (c_req_handlers c') = length hs"
proof -
  obtain es en where r: "read_handlers junk 0 hs = (es, en)" by fastforce
  have "\<forall>h\<in>set hs. \<exists>ms. hs_modules h = Some ms \<and> length ms < 2 ^ 32" using assms(3) by fastforce
  from read_handlers_entries [OF assms(2) this] r have "\<forall>e\<in>set es. entry_ok e" by simp
  moreover have "\<forall>e\<in>set es. unat (rc_modules_count e) < 2 ^ 31"
    using read_handlers_counts [OF assms(2,3)] r by simp
  moreover have "length es = length hs" using length_read_handlers [of junk 0 hs] r by simp
  ultimately show ?thesis
    using assms(1,2) r by (auto simp: read_req_handler_configs_def config_ok_def)
qed

theorem configuration_read_witness:
  "\<exists>c'. read_req_handler_configs (\<lambda>_. 99) \<lparr>lc_read = File_ok, lc_int = (\<lambda>_. None), lc_string = (\<lambda>_. None),
      lc_handlers = Some [\<lparr>hs_handler = Found ''REQMOD'', hs_class = Found ''Reqmod'',
        hs_modules = Some [\<lparr>ms_name = Found ''echo'', ms_module = Found ''echo.so''\<rparr>]\<rparr>], lc_modules = None\<rparr>
      new_config = Done c' \<and> config_ok c' \<and> length (c_req_handlers c') = 1"
  using configuration_read [of "\<lparr>lc_read = File_ok, lc_int = (\<lambda>_. None), lc_string = (\<lambda>_. None),
      lc_handlers = Some [\<lparr>hs_handler = Found ''REQMOD'', hs_class = Found ''Reqmod'',
        hs_modules = Some [\<lparr>ms_name = Found ''echo'', ms_module = Found ''echo.so''\<rparr>]\<rparr>], lc_modules = None\<rparr>"
      "[\<lparr>hs_handler = Found ''REQMOD'', hs_class = Found ''Reqmod'',
        hs_modules = Some [\<lparr>ms_name = Found ''echo'', ms_module = Found ''echo.so''\<rparr>]\<rparr>]" "\<lambda>_. 99" new_config]
  by (simp add: read_handler_def Let_def)

text \<open>
  C26. A REQMOD handler without a list of modules keeps the count the memory happened to hold;
  when that is not zero, the worker goes astray while it loads its handlers.
\<close>

theorem count_not_initialised:
  assumes "lc_handlers lc = Some [h]" and "hs_handler h = Found ''REQMOD''" and "hs_class h = Found cls"
    and "hs_modules h = None" and "junk 0 \<noteq> 0"
  shows "\<exists>c'. read_req_handler_configs junk lc c = Done c' \<and> load_req_handlers linker symbols c' = None"
proof -
  let ?e = "\<lparr>rc_name = ''REQMOD'', rc_class_name = cls, rc_modules_count = junk 0, rc_modules = None\<rparr>"
  have "read_req_handler_configs junk lc c = Done (c\<lparr>c_req_handlers := [?e]\<rparr>)"
    using assms by (simp add: read_req_handler_configs_def read_handler_def blank_handler_def Let_def)
  moreover have "load_req_handlers linker symbols (c\<lparr>c_req_handlers := [?e]\<rparr>) = None"
    using assms(5) by (simp add: load_req_handlers_def new_request_handler_def word_gt_0)
  ultimately show ?thesis by blast
qed

theorem count_not_initialised_witness:
  "\<exists>c'. read_req_handler_configs (\<lambda>_. 99) \<lparr>lc_read = File_ok, lc_int = (\<lambda>_. None), lc_string = (\<lambda>_. None),
      lc_handlers = Some [\<lparr>hs_handler = Found ''REQMOD'', hs_class = Found ''Reqmod'', hs_modules = None\<rparr>],
      lc_modules = None\<rparr> new_config = Done c' \<and> load_req_handlers demo_linker demo_junk c' = None"
  by (rule count_not_initialised [where h = "\<lparr>hs_handler = Found ''REQMOD'', hs_class = Found ''Reqmod'',
      hs_modules = None\<rparr>" and cls = "''Reqmod''"]) simp_all

section \<open>The manager and its workers\<close>



text \<open>
  C28. When no fork works and a worker is missing, \<open>manage_workers\<close> never returns: the server
  spins, and does not look at signals' effects any more.
\<close>

theorem failing_forks_spin:
  assumes "\<And>w. fork w = (Fork_error, w)" and "mg_workers_count m \<noteq> mg_max_workers m" and "\<not> mg_worker m"
  shows "manage_workers fork m w = None"
  by (rule manage_workers_stuck [OF assms])

theorem failing_forks_spin_witness:
  "manage_workers (\<lambda>w. (Fork_error, w)) \<lparr>mg_worker = False, mg_max_workers = 1, mg_max_worker_requests = 5,
      mg_comm_timeout = 0, mg_workers_count = 0, mg_worker_id = 0,
      mg_pool = [\<lparr>wp_pid = 0, wp_id = 0, wp_worker = False\<rparr>]\<rparr> () = None"
  by (rule failing_forks_spin) simp_all

text \<open>
  C29. Whenever the \<open>SIGCHLD\<close> handler runs, even between a fork and its recording, if only not
  inside the increment of the count, the manager's count is the number of recorded workers, and
  of the one that is counted and not recorded yet; the entry a fork is under way for stays free.
\<close>

theorem count_is_recorded_workers:
  assumes "reachable may y0 y" and "count_inv y0" and "whole_increment may"
  shows "unat (mg_workers_count (ms_mgr y)) = length (pids (ms_mgr y)) + pending (ms_point y) \<and>
    length (mg_pool (ms_mgr y)) = unat (mg_max_workers (ms_mgr y)) \<and>
    (\<forall>i p. under_way (ms_point y) = Some (i, p) \<longrightarrow> wp_pid (mg_pool (ms_mgr y) ! unat i) = 0)"
  using count_inv_reachable [OF assms] by (auto simp: count_inv_def length_pids)

theorem count_is_recorded_workers_witness:
  "let y0 = at (demo_manager [0]) [] [] (At 0); y = at (demo_manager [0]) [11] [] (Forked 0 11);
     may = (\<lambda>pt. \<forall>i p n. pt \<noteq> Loaded i p n)
   in reachable may y0 y \<and> unat (mg_workers_count (ms_mgr y)) = length (pids (ms_mgr y))"
proof -
  let ?y0 = "at (demo_manager [0]) [] [] (At 0)" and ?may = "\<lambda>pt. \<forall>i p n. pt \<noteq> Loaded i p n"
  have r: "reachable ?may ?y0 (at (demo_manager [0]) [11] [] (Forked 0 11))"
    using mstep.Fork [of ?y0 0 11 ?may] by (auto simp: demo_manager_def)
  have "count_inv ?y0" by (simp add: pool_defs)
  moreover have "whole_increment ?may" by (simp add: whole_increment_def)
  ultimately show ?thesis
    using count_is_recorded_workers [OF r] r by (simp add: Let_def pending_def)
qed

text \<open>
  If the handler did not run between a fork and its recording, the recorded process ids
  would always be exactly the children that run or wait to be reaped, each recorded once.
\<close>

theorem recorded_workers_exist:
  assumes "reachable may y0 y" and "workers_inv y0" and "count_inv y0" and "whole_spawn may"
    and "under_way (ms_point y) = None"
  shows "distinct (pids (ms_mgr y)) \<and> set (pids (ms_mgr y)) = set (ms_alive y) \<union> set (ms_zombies y)"
  using workers_inv_reachable [OF assms(1-4)] assms(5) by (simp add: workers_inv_def)

theorem recorded_workers_exist_witness:
  "let y0 = at (demo_manager [11]) [11] [] Suspended; y = at (demo_manager [11]) [] [11] Suspended
   in reachable (\<lambda>pt. pt = Suspended) y0 y \<and> distinct (pids (ms_mgr y)) \<and> set (pids (ms_mgr y)) = {11}"
proof -
  let ?y0 = "at (demo_manager [11]) [11] [] Suspended" and ?may = "\<lambda>pt. pt = Suspended"
  have r: "reachable ?may ?y0 (at (demo_manager [11]) [] [11] Suspended)"
    using mstep.Child_exit [of 11 ?y0 ?may] by (auto simp: at_def)
  have c: "count_inv ?y0" by (simp add: pool_defs)
  have w: "workers_inv ?y0" by (simp add: pool_defs)
  have "whole_spawn ?may" by (simp add: pool_defs)
  from recorded_workers_exist [OF r w c this] r show ?thesis by (simp add: Let_def under_way_def)
qed

text \<open>
  If the handler ran neither inside the increment nor between the last test of the count and
  \<open>sigsuspend\<close>, the manager would sleep with a full pool only.
\<close>

theorem sleeping_pool_full:
  assumes "reachable may y0 y" and "count_inv y0" and "full_inv y0" and "whole_increment may"
    and "\<not> may Leaving" and "ms_point y = Suspended"
  shows "length (pids (ms_mgr y)) = unat (mg_max_workers (ms_mgr y))"
  by (rule suspended_full [OF assms])

theorem sleeping_pool_full_witness:
  "let y0 = at (demo_manager [11]) [11] [] Leaving; y = at (demo_manager [11]) [11] [] Suspended
   in reachable (\<lambda>pt. pt = Suspended) y0 y \<and> length (pids (ms_mgr y)) = 1"
proof -
  let ?y0 = "at (demo_manager [11]) [11] [] Leaving" and ?may = "\<lambda>pt. pt = Suspended"
  have r: "reachable ?may ?y0 (at (demo_manager [11]) [11] [] Suspended)"
    using mstep.Suspend [of ?y0 ?may] by auto
  have c: "count_inv ?y0" by (simp add: pool_defs)
  have f: "full_inv ?y0" by (simp add: pool_defs)
  have "whole_increment ?may" by (simp add: whole_increment_def)
  from sleeping_pool_full [OF r c f this] r show ?thesis by (simp add: Let_def demo_manager_def)
qed

text \<open>
  C30. The program does not block the signal: a child that ends before its fork is recorded is
  reaped first and recorded after, and the manager counts a worker that does not exist.
\<close>

theorem worker_lost_in_window:
  assumes "count_inv y" and "ms_point y = Forked i p" and "p \<in> set (ms_alive y)"
    and "p \<notin> set (pids (ms_mgr y))" and "may (Forked i p)"
  shows "\<exists>y'. reachable may y y' \<and> ms_point y' = At (i + 1) \<and>
    wp_pid (mg_pool (ms_mgr y') ! unat i) = p \<and> p \<notin> set (ms_alive y') \<union> set (ms_zombies y') \<and>
    mg_workers_count (ms_mgr y') = mg_workers_count (ms_mgr y) + 1"
  by (rule lost_in_window [where may = may, OF assms])

theorem worker_lost_in_window_witness:
  "\<exists>y'. reachable (\<lambda>_. True) (at (demo_manager [0]) [11] [] (Forked 0 11)) y' \<and>
     wp_pid (mg_pool (ms_mgr y') ! 0) = 11 \<and> 11 \<notin> set (ms_alive y') \<union> set (ms_zombies y') \<and>
     mg_workers_count (ms_mgr y') = 1"
proof -
  let ?y = "at (demo_manager [0]) [11] [] (Forked 0 11)"
  have "count_inv ?y" by (simp add: pool_defs)
  moreover have "11 \<notin> set (pids (ms_mgr ?y))" "mg_workers_count (ms_mgr ?y) = 0"
    by (simp_all add: pool_defs)
  ultimately obtain y' where "reachable (\<lambda>_. True) ?y y'" "wp_pid (mg_pool (ms_mgr y') ! unat (0 :: u32)) = 11"
      "11 \<notin> set (ms_alive y') \<union> set (ms_zombies y')" "mg_workers_count (ms_mgr y') = 1"
    using worker_lost_in_window [of ?y 0 11 "\<lambda>_. True"] by auto
  then show ?thesis by auto
qed

text \<open>
  \<open>workers_count++\<close> on a plain \<open>unsigned int\<close> is a read and a write, unless the compiler makes
  it one: a worker that is reaped between them is taken off the pool and not off the count, which
  is one too high from then on.
\<close>

theorem count_update_lost:
  assumes "count_inv y" and "ms_point y = Loaded i p n" and "q \<in> set (ms_alive y)"
    and "q \<in> set (pids (ms_mgr y))" and "may (Loaded i p n)"
  shows "\<exists>y'. reachable may y y' \<and> ms_point y' = At (i + 1) \<and>
    unat (mg_workers_count (ms_mgr y')) = length (pids (ms_mgr y')) + 1"
  by (rule update_lost [where may = may, OF assms])

theorem count_update_lost_witness:
  "\<exists>y'. reachable (\<lambda>_. True) (at (demo_manager [0, 12]) [11, 12] [] (Loaded 0 11 1)) y' \<and>
     unat (mg_workers_count (ms_mgr y')) = length (pids (ms_mgr y')) + 1"
proof -
  let ?y = "at (demo_manager [0, 12]) [11, 12] [] (Loaded 0 11 1)"
  have "count_inv ?y" by (simp add: pool_defs)
  moreover have "12 \<in> set (pids (ms_mgr ?y))" by (simp add: pool_defs)
  ultimately show ?thesis using count_update_lost [of ?y 0 11 1 12 "\<lambda>_. True"] by auto
qed

text \<open>
  C31. A worker that ends after the last test of the count and before \<open>sigsuspend\<close>: the manager
  goes to sleep with a worker missing, and only the end of another child can wake it.
\<close>

theorem sleeps_short_of_a_worker:
  assumes "ms_point y = Leaving" and "count_inv y" and "q \<in> set (ms_alive y)"
    and "q \<in> set (pids (ms_mgr y))" and "ms_zombies y = []" and "may Leaving"
  shows "\<exists>y'. reachable may y y' \<and> ms_point y' = Suspended \<and>
    Suc (length (pids (ms_mgr y'))) = length (pids (ms_mgr y)) \<and>
    (\<forall>y''. mstep may y' y'' \<longrightarrow> (\<exists>p\<in>set (ms_alive y'). p \<in> set (ms_zombies y'') \<and> ms_mgr y'' = ms_mgr y'))"
  by (rule wakeup_lost [where may = may, OF assms])

theorem sleeps_short_of_a_worker_witness:
  "\<exists>y'. reachable (\<lambda>_. True) (at (demo_manager [11]) [11] [] Leaving) y' \<and> ms_point y' = Suspended \<and>
     pids (ms_mgr y') = []"
proof -
  let ?y = "at (demo_manager [11]) [11] [] Leaving"
  have "count_inv ?y" by (simp add: pool_defs)
  moreover have "pids (ms_mgr ?y) = [11]" by (simp add: pool_defs)
  ultimately show ?thesis using sleeps_short_of_a_worker [of ?y 11 "\<lambda>_. True"] by auto
qed

text \<open>
  C32. The function \<open>manage_workers\<close> is a run of the step relation without the handler: from the
  test of the count to the way back to \<open>sigsuspend\<close>, with the children its forks made.
\<close>

theorem manage_workers_refines:
  assumes "forks_fresh fork used" and "manage_workers fork m w = Some (Manager_at m' w')"
    and "\<not> mg_worker m" and "used w = set al \<union> set zs"
  shows "\<exists>al'. reachable (\<lambda>_. False) (at m al zs Test) (at m' al' zs Leaving) \<and> used w' = set al' \<union> set zs"
  using assms(2,3) by (intro manage_loop_steps [OF assms(1) _ assms(4)]) (simp add: manage_workers_def)

theorem manage_workers_refines_witness:
  "\<exists>m' w' al'. manage_workers (\<lambda>n. (Fork_parent (int (Suc n)), Suc n)) (demo_manager [0]) 0 =
      Some (Manager_at m' w') \<and>
    reachable (\<lambda>_. False) (at (demo_manager [0]) [] [] Test) (at m' al' [] Leaving)"
proof -
  let ?f = "\<lambda>n. (Fork_parent (int (Suc n)), Suc n)"
  have "pool_ok (demo_manager [0])" by (simp add: pool_defs)
  then obtain m' w' where m: "manage_workers ?f (demo_manager [0]) 0 = Some (Manager_at m' w')"
    using manage_workers_fills [of ?f "demo_manager [0]" 0] by fastforce
  have f: "forks_fresh ?f (\<lambda>n. {1..int n})" by (auto simp: forks_fresh_def)
  have "\<not> mg_worker (demo_manager [0])" by (simp add: demo_manager_def)
  from manage_workers_refines [OF f m this, of "[]" "[]"] m show ?thesis by auto
qed

section \<open>Termination and start-up\<close>



text \<open>
  C34. A termination signal at any point of \<open>manage_workers\<close>, the \<open>SIGCHLD\<close> handler having run anywhere
  before: the handler passes it to every child but the one whose fork is not recorded yet, which goes
  on without a manager; that one gets it only where an entry holds its number from a child that ended
  before it was recorded (C30). When the \<open>SIGCHLD\<close> handler is kept out between a fork and its
  recording, which the program does not do, the signal is passed to exactly the other children.
\<close>

theorem termination_misses_unrecorded:
  assumes "reachable may y0 y" and "workers_inv y0" and "count_inv y0"
    and "sv_manager sv = Live (ms_mgr y)" and "\<not> sv_terminating sv"
  shows "\<exists>sv' acts. termination_handler sv = Some (sv', acts) \<and>
    set (ms_alive y) \<union> set (ms_zombies y) \<subseteq> killed acts \<union> unrecorded y \<and>
    killed acts \<inter> unrecorded y = set (pids (ms_mgr y)) \<inter> unrecorded y \<and>
    (whole_spawn may \<longrightarrow> killed acts = set (ms_alive y) \<union> set (ms_zombies y) - unrecorded y)"
proof -
  have inv: "children_inv y"
    by (rule children_inv_reachable [OF assms(1) children_inv_start [OF assms(2,3)]])
  then have "pool_whole (ms_mgr y)" by (simp add: children_inv_def pool_whole_def)
  moreover obtain sv' acts where t: "termination_handler sv = Some (sv', acts)"
    using assms(4) by (simp add: termination_handler_def Let_def)
  ultimately have "killed acts = set (pids (ms_mgr y))" using termination_kills(1) [OF assms(4)] by blast
  moreover have "whole_spawn may \<Longrightarrow> workers_inv y" using workers_inv_reachable [OF assms(1-3)] by simp
  ultimately show ?thesis using t children_recorded [OF inv] workers_recorded [of y] by blast
qed

theorem termination_misses_unrecorded_witness:
  "\<exists>y sv' acts. reachable (\<lambda>_. True) (at (demo_manager [0, 12]) [12] [] (At 0)) y \<and> ms_alive y = [11, 12] \<and>
    termination_handler (init\<lparr>sv_manager := Live (ms_mgr y)\<rparr>) = Some (sv', acts) \<and> 12 \<in> killed acts \<and> 11 \<notin> killed acts"
proof -
  let ?y0 = "at (demo_manager [0, 12]) [12] [] (At 0)" and ?may = "\<lambda>_ :: point. True"
  let ?z = "at (demo_manager [0, 12]) [11, 12] [] (Forked 0 11)"
  let ?sv = "init\<lparr>sv_manager := Live (ms_mgr ?z)\<rparr>"
  have r: "reachable ?may ?y0 ?z"
    by (rule reachable_one) (use mstep.Fork [of ?y0 0 11 ?may] in \<open>auto simp: demo_manager_def\<close>)
  have c: "count_inv ?y0" and w: "workers_inv ?y0" by (simp_all add: pool_defs)
  have sv: "sv_manager ?sv = Live (ms_mgr ?z)" "\<not> sv_terminating ?sv" by (simp_all add: init_def)
  from termination_misses_unrecorded [OF r w c sv] obtain sv' acts where
    "termination_handler ?sv = Some (sv', acts)" "12 \<in> killed acts" "11 \<notin> killed acts"
    by (auto simp: unrecorded_def pool_defs)
  with r show ?thesis by (intro exI [of _ ?z] exI [of _ sv'] exI [of _ acts]) simp
qed

text \<open>
  C35. A second termination signal, of another number, reaches the handler before the first has
  ended the process: the handler raises its signal, which is blocked there, goes on, and uses the
  manager the first run deleted.
\<close>

theorem second_termination_undefined:
  assumes "h \<noteq> H_SIGCHLD" and "h' \<noteq> H_SIGCHLD" and "handle ps h sv = Some (sv', acts)"
    and "sv_manager sv = Live m"
  shows "handle ps' h' sv' = None"
  using termination_twice [of sv sv' acts m] assms by (simp add: handle_termination)

theorem second_termination_undefined_witness:
  "let m = \<lparr>mg_worker = False, mg_max_workers = 0, mg_max_worker_requests = 5, mg_comm_timeout = 0,
      mg_workers_count = 0, mg_worker_id = 0, mg_pool = []\<rparr>
   in \<exists>sv' acts. handle [] H_SIGTERM (init\<lparr>sv_manager := Live m\<rparr>) = Some (sv', acts) \<and>
     handle [] H_SIGINT sv' = None"
proof -
  let ?m = "\<lparr>mg_worker = False, mg_max_workers = 0, mg_max_worker_requests = 5, mg_comm_timeout = 0,
      mg_workers_count = 0, mg_worker_id = 0, mg_pool = []\<rparr>"
  let ?sv = "init\<lparr>sv_manager := Live ?m\<rparr>"
  obtain sv' acts where t: "handle [] H_SIGTERM ?sv = Some (sv', acts)"
    by (auto simp: handle_termination termination_handler_def Let_def)
  from second_termination_undefined [OF _ _ t, of H_SIGINT ?m "[]"] t show ?thesis by (auto simp: Let_def)
qed

text \<open>
  C36. A termination signal in a worker that was forked from a manager with a sound pool, by the
  point it arrives at. Before the child has set its flag it takes itself for the manager and sends
  \<open>SIGTERM\<close> to its siblings; until its worker is made, it deletes what the pointer of the entry
  happens to be; then it deletes its worker; and behind the end of its cycle it deletes the worker
  a second time.
\<close>

theorem child_termination:
  assumes "child_at i c0 (pt, c)" and "pool_ok (ch_manager c0)" and "unat i < length (ch_workers c0)"
  shows "child_shutdown c =
    (case pt of
       Just_forked \<Rightarrow> Some (map Kill_term (pids (ch_manager c0)))
     | Flag_set \<Rightarrow> (let j = unat (mg_worker_id (ch_manager c0)) in delete_worker_ptr j (ch_workers c0 ! j))
     | Id_set \<Rightarrow> delete_worker_ptr (unat i) (ch_workers c0 ! unat i)
     | Worker_deleted \<Rightarrow> None
     | _ \<Rightarrow> Some [Delete_worker (unat i)])"
proof -
  have "\<not> mg_worker (ch_manager c0)" using assms(2) by (simp add: pool_ok_def)
  moreover have "shutdown True (ch_manager c0) = map Kill_term (pids (ch_manager c0))"
    using assms(2) by (simp add: pool_ok_def shutdown_def pids_def filter_map comp_def)
  ultimately show ?thesis using child_shutdown_at [OF assms(1) _ assms(3)] by (cases pt) simp_all
qed

theorem child_termination_witness:
  "let c0 = \<lparr>ch_manager = demo_manager [0, 12], ch_workers = [No_worker, No_worker]\<rparr>;
       c1 = c0\<lparr>ch_manager := (demo_manager [0, 12])\<lparr>mg_worker := True\<rparr>\<rparr>
   in child_shutdown c0 = Some [Kill_term 12] \<and> child_shutdown c1 = Some []"
proof -
  let ?c0 = "\<lparr>ch_manager = demo_manager [0, 12], ch_workers = [No_worker, No_worker]\<rparr>"
  have "child_at 0 ?c0 (Just_forked, ?c0)" by (rule child_at.forked)
  moreover from this
  have "child_at 0 ?c0 (Flag_set, ?c0\<lparr>ch_manager := (ch_manager ?c0)\<lparr>mg_worker := True\<rparr>\<rparr>)"
    by (rule child_at.step) (rule cstep.Flag)
  moreover have "pool_ok (ch_manager ?c0)" by (simp add: pool_defs)
  ultimately show ?thesis
    using child_termination [of 0 ?c0 Just_forked ?c0]
      child_termination [of 0 ?c0 Flag_set "?c0\<lparr>ch_manager := (ch_manager ?c0)\<lparr>mg_worker := True\<rparr>\<rparr>"]
    by (simp add: pool_defs delete_worker_ptr_def)
qed

text \<open>
  C37. The first workers are spawned with no signal blocked and the pool not initialised: a
  termination signal after \<open>k\<close> of them is passed on to these, and to whatever processes the
  numbers in the memory of the other entries name.
\<close>

theorem termination_while_spawning:
  assumes "\<forall>w. \<exists>p w'. fork w = (Fork_parent p, w') \<and> 0 < p" and "new_manager True = Some m" and "k \<le> unat n"
  shows "\<exists>ps m' w'. spawn fork junk n reqs tmo m w = spawn_loop fork (drop k (worker_ids n)) m' w' \<and> length ps = k \<and>
    shutdown True m' = map Kill_term (ps @ filter (\<lambda>p. p \<noteq> 0) (map (\<lambda>j. wp_pid (junk j)) [k..<unat n]))"
proof -
  let ?m = "m\<lparr>mg_max_workers := n, mg_max_worker_requests := reqs, mg_comm_timeout := tmo,
    mg_pool := map junk [0..<unat n]\<rparr>"
  have nm: "\<not> mg_worker m" using assms(2) by (auto simp: new_manager_def)
  obtain ps m' w' where s: "spawn_loop fork (map of_nat [0..<k]) ?m w = Manager_at m' w'" "length ps = k"
      "shutdown True m' = map Kill_term (ps @ filter (\<lambda>p. p \<noteq> 0) (map (\<lambda>j. wp_pid (junk j)) [k..<unat n]))"
    using shutdown_while_spawning [of fork ?m k n junk w] assms(1,3) nm by auto
  have "worker_ids n = map of_nat [0..<k] @ drop k (worker_ids n)"
    using upt_add_eq_append [of 0 k "unat n - k"] assms(3) by (simp add: worker_ids_def drop_map flip: map_append)
  then have "spawn_loop fork (worker_ids n) ?m w = spawn_loop fork (drop k (worker_ids n)) m' w'"
    using spawn_loop_append [of fork "map of_nat [0..<k]" "drop k (worker_ids n)" ?m w] s(1) by simp
  with nm s(2,3) show ?thesis by (auto simp: spawn_def Let_def)
qed

theorem termination_while_spawning_witness:
  "\<exists>m p m' w'. new_manager True = Some m \<and>
    spawn (\<lambda>n. (Fork_parent (int (Suc n)), Suc n)) (\<lambda>_. \<lparr>wp_pid = 9, wp_id = 9, wp_worker = True\<rparr>) 2 5 0 m (0 :: nat) =
      spawn_loop (\<lambda>n. (Fork_parent (int (Suc n)), Suc n)) [1] m' w' \<and>
    shutdown True m' = [Kill_term p, Kill_term 9]"
proof -
  obtain m where m: "new_manager True = Some m" by (simp add: new_manager_def)
  have "unat (2 :: u32) = 2" "drop 1 (worker_ids 2) = [1]" by (simp_all add: worker_ids_def upt_rec)
  with termination_while_spawning [OF _ m, of "\<lambda>n :: nat. (Fork_parent (int (Suc n)), Suc n)" 1 2
      "\<lambda>_. \<lparr>wp_pid = 9, wp_id = 9, wp_worker = True\<rparr>" 5 0 0]
  obtain ps m' w' where x: "length ps = 1" "shutdown True m' = map Kill_term (ps @ [9])"
      "spawn (\<lambda>n. (Fork_parent (int (Suc n)), Suc n)) (\<lambda>_. \<lparr>wp_pid = 9, wp_id = 9, wp_worker = True\<rparr>) 2 5 0 m (0 :: nat) =
        spawn_loop (\<lambda>n. (Fork_parent (int (Suc n)), Suc n)) [1] m' w'"
    by (auto simp: upt_rec simp del: spawn_loop.simps)
  obtain p where "ps = [p]" using x(1) by (auto simp: length_Suc_conv)
  with x(2) have "shutdown True m' = [Kill_term p, Kill_term 9]" by simp
  with m x(3) show ?thesis by blast
qed

text \<open>
  C38. On an absolute path \<open>mkdirp\<close> returns on every file system, true means that the path
  exists then, and nothing that existed is gone.
\<close>

theorem mkdirp_makes_path:
  assumes "mkdir_laws mk path_exists" and "path = CHR ''/'' # c"
  shows "\<exists>ok fs'. mkdirp mk path fs = Some (ok, fs') \<and> (ok \<longrightarrow> path_exists path fs') \<and>
    (\<forall>q. path_exists q fs \<longrightarrow> path_exists q fs')"
  by (rule mkdirp_absolute [OF assms])

theorem mkdirp_makes_path_witness:
  "\<exists>ok fs'. mkdirp (\<lambda>p fs. if p \<in> set fs then (Mk_exist, fs)
        else if dirpath p \<noteq> [] \<and> dirpath p \<notin> set fs then (Mk_noent, fs) else (Mk_ok, p # fs))
      ''/var/run/bitz'' [] = Some (ok, fs') \<and> (ok \<longrightarrow> ''/var/run/bitz'' \<in> set fs')"
proof -
  let ?mk = "\<lambda>p fs. if p \<in> set fs then (Mk_exist, fs)
        else if dirpath p \<noteq> [] \<and> dirpath p \<notin> set fs then (Mk_noent, fs) else (Mk_ok, p # fs)"
  have "mkdir_laws ?mk (\<lambda>p fs. p \<in> set fs)" by (auto simp: mkdir_laws_def split: if_splits)
  from mkdirp_makes_path [OF this, of "''/var/run/bitz''" "''var/run/bitz''" "[]"] show ?thesis by blast
qed

text \<open>
  With a pid file in the root directory and \<open>--debug\<close> off, the start-up never returns from
  \<open>mkdirp\<close>, whose argument is the empty path for ever.
\<close>

theorem root_pid_file_hangs:
  assumes "\<And>fs. mk [] fs = (Mk_noent, fs)" and "o_debug_flag op \<noteq> 1"
    and "c_pid_file c = ''/'' @ f" and "CHR ''/'' \<notin> set f"
  shows "create_directories mk op c fs = None"
  by (rule create_directories_root_pid [where mk = mk, OF assms])

theorem root_pid_file_hangs_witness:
  "create_directories (\<lambda>p fs. (if p = [] then Mk_noent else Mk_ok, fs)) \<lparr>o_debug_flag = 0, o_config_file = []\<rparr>
    (demo_config\<lparr>c_pid_file := ''/bitz.pid''\<rparr>) () = None"
  by (rule root_pid_file_hangs [where f = "''bitz.pid''"]) simp_all

section \<open>The whole program\<close>



text \<open>
  C40. With the pid file and the log in directories below the root, given from the root, the
  program never hangs while it starts, whatever the system answers; and a server without
  \<open>--debug\<close> serves only as a daemon that holds the lock on its pid file.
\<close>

theorem startup_returns:
  assumes "mkdir_laws (mc_mkdir mc) path_exists"
    and "read_options (mc_debug_junk mc) (mc_options mc) = Options op"
    and "initialise (mc_count_junk mc)
      (mc_file mc (if o_config_file op \<noteq> [] then o_config_file op else mc_default_file mc)) new_config = Done c"
    and "dirpath (c_pid_file c) = CHR ''/'' # d1" and "dirpath (c_log_file c) = CHR ''/'' # d2"
  shows "main_program mc es w \<noteq> Hangs \<and>
    (\<forall>sv r. main_program mc es w = Serves sv r \<longrightarrow> o_debug_flag op = 1 \<or>
       sv_daemon sv \<and> sv_pidfd sv \<noteq> - 1 \<and> d_lockf (mc_daemon mc) \<noteq> - 1)"
proof -
  obtain r where r: "create_directories (mc_mkdir mc) op c w = Some r"
    using create_directories_absolute [OF assms(1,4,5)] by blast
  have s: "serve mc es c sv v \<noteq> Hangs" for sv v
    by (simp add: serve_def split: sum.splits outcome.splits)
  show ?thesis
    using assms(2,3) r s
    by (auto simp: main_program_def dest!: daemonize_locked serve_daemon
        split: outcome.splits daemonized.splits if_splits)
qed

theorem startup_returns_witness:
  "main_program (demo_machine ''/run/bitz.pid'' ''/var/log/bitz.log'') [Sig_term] (0 :: nat) \<noteq> Hangs"
proof -
  let ?mc = "demo_machine ''/run/bitz.pid'' ''/var/log/bitz.log''"
  obtain op c where d: "read_options (mc_debug_junk ?mc) (mc_options ?mc) = Options op"
      "initialise (mc_count_junk ?mc)
        (mc_file ?mc (if o_config_file op \<noteq> [] then o_config_file op else mc_default_file ?mc)) new_config = Done c"
      "dirpath (c_pid_file c) = ''/run''" "dirpath (c_log_file c) = ''/var/log''"
    using demo_machine_starts by blast
  have "mkdir_laws (mc_mkdir ?mc) (\<lambda>_ _. True)" by (simp add: demo_machine_def mkdir_laws_def)
  from startup_returns [OF this d(1,2), of "''run''" "''var/log''" "[Sig_term]" 0] d(3,4) show ?thesis by simp
qed

end
